(* ===== verification/Asio_Base.thy ===== *)
theory Asio_Base
  imports Main "HOL-Library.Word"
begin

text \<open>
  Shared vocabulary of the development: the machine types of the code, its ways to fail,
  the operations of the C and C++ standard library that the sources call on raw bytes
  (\<open>std::vector<char>::resize\<close>, \<open>memcpy\<close>, \<open>memmove\<close>), and the generic lemmas on
  results, lists and words that the component theories use.

  A run of the code that leaves its defined behaviour is a value: an \<open>assert\<close> that fails,
  an access outside a storage block, a null dereference, a call of an empty
  \<open>std::function\<close> and the exceptions the library throws are the constructors of
  \<open>cxx_error\<close>, and an operation that can fail returns \<open>'a res\<close>.
\<close>

section \<open>Types\<close>

type_synonym byte = "8 word"
type_synonym uint16 = "16 word"
type_synonym uint32 = "32 word"
type_synonym size_t = "64 word"
type_synonym uint64 = "64 word"

datatype cxx_error =
    AssertFailed      \<comment> \<open>a failed \<open>assert\<close>\<close>
  | OutOfBounds       \<comment> \<open>an access outside the storage block: undefined behaviour\<close>
  | NullDeref         \<comment> \<open>use of a null pointer: undefined behaviour\<close>
  | LengthError       \<comment> \<open>\<open>std::length_error\<close> of \<open>std::vector::resize\<close>\<close>
  | BadFunctionCall   \<comment> \<open>\<open>std::bad_function_call\<close>: an empty \<open>std::function\<close> was called\<close>
  | SystemError       \<comment> \<open>\<open>asio::system_error\<close>, thrown by the overloads without error code\<close>
  | Terminated        \<comment> \<open>\<open>std::terminate\<close>: a joinable \<open>std::thread\<close> was destroyed\<close>
  | ArchiveError      \<comment> \<open>\<open>cereal::Exception\<close>\<close>

type_synonym 'a res = "cxx_error + 'a"

section \<open>Results\<close>

text \<open>Sequencing: the first failure ends the run.\<close>

definition rbind :: "'a res \<Rightarrow> ('a \<Rightarrow> 'b res) \<Rightarrow> 'b res" where
  "rbind m f = (case m of Inl e \<Rightarrow> Inl e | Inr x \<Rightarrow> f x)"

text \<open>\<open>assert(p)\<close>.\<close>

definition cassert :: "bool \<Rightarrow> unit res" where
  "cassert p = (if p then Inr () else Inl AssertFailed)"

lemma rbind_simps [simp]:
  "rbind (Inl e) f = Inl e"
  "rbind (Inr x) f = f x"
  by (simp_all add: rbind_def)

lemma rbind_eq_Inr [simp]: "rbind m f = Inr y \<longleftrightarrow> (\<exists>x. m = Inr x \<and> f x = Inr y)"
  by (cases m) auto

lemma rbind_assoc: "rbind (rbind m f) g = rbind m (\<lambda>x. rbind (f x) g)"
  by (cases m) auto

lemma rbind_Inr_right [simp]: "rbind m Inr = m"
  by (cases m) auto

lemma cassert_simps [simp]:
  "cassert True = Inr ()"
  "cassert False = Inl AssertFailed"
  "cassert p = Inr u \<longleftrightarrow> p"
  by (simp_all add: cassert_def)

section \<open>Raw storage\<close>

text \<open>
  \<open>std::vector<char>\<close> holds at most \<open>max_size()\<close> elements; for \<open>char\<close> this is the
  largest value of the difference type, \<open>2 ^ 63 - 1\<close>. \<open>resize\<close> keeps a prefix, fills with
  zeros, and throws \<open>std::length_error\<close> above that size.
\<close>

definition vec_max_size :: nat where
  "vec_max_size = 2 ^ 63 - 1"

definition vec_resize :: "nat \<Rightarrow> byte list \<Rightarrow> byte list res" where
  "vec_resize n xs =
     (if n \<le> vec_max_size then Inr (take n xs @ replicate (n - length xs) 0)
      else Inl LengthError)"

text \<open>\<open>memcpy\<close> of \<open>data\<close> to offset \<open>off\<close> of a storage block.\<close>

definition mem_write :: "nat \<Rightarrow> byte list \<Rightarrow> byte list \<Rightarrow> byte list res" where
  "mem_write off data xs =
     (if off + length data \<le> length xs
      then Inr (take off xs @ data @ drop (off + length data) xs)
      else Inl OutOfBounds)"

text \<open>The \<open>n\<close> bytes at offset \<open>off\<close> of a storage block.\<close>

definition mem_read :: "nat \<Rightarrow> nat \<Rightarrow> byte list \<Rightarrow> byte list res" where
  "mem_read off n xs =
     (if off + n \<le> length xs then Inr (take n (drop off xs)) else Inl OutOfBounds)"

lemma vec_resize_grow:
  "length xs \<le> n \<Longrightarrow> n \<le> vec_max_size \<Longrightarrow>
   vec_resize n xs = Inr (xs @ replicate (n - length xs) 0)"
  by (simp add: vec_resize_def)

lemma vec_resize_length: "vec_resize n xs = Inr ys \<Longrightarrow> length ys = n"
  by (auto simp: vec_resize_def split: if_splits)

lemma mem_write_length: "mem_write off d xs = Inr ys \<Longrightarrow> length ys = length xs"
  by (auto simp: mem_write_def split: if_splits)

lemma mem_read_write: "mem_write off d xs = Inr ys \<Longrightarrow> mem_read off (length d) ys = Inr d"
  by (auto simp: mem_write_def mem_read_def split: if_splits)

lemma mem_write_fails: "mem_write off d xs = Inl e \<longleftrightarrow> e = OutOfBounds \<and> length xs < off + length d"
  by (auto simp: mem_write_def)

lemma take_mem_write:
  "mem_write off d xs = Inr ys \<Longrightarrow> take (off + length d) ys = take off xs @ d"
  by (auto simp: mem_write_def split: if_splits)

section \<open>Words and natural numbers\<close>

text \<open>
  The facts that move a goal on \<open>size_t\<close> values to natural numbers, once the bound that
  excludes the wrap-around is known.
\<close>

named_theorems size_simps \<open>size_t arithmetic read as natural numbers\<close>

lemma unat_size_lt [simp]: "unat (x :: size_t) < 2 ^ 64"
  using unsigned_less [of x, where 'a = nat] by simp

lemma unat_of_size [size_simps]: "n < 2 ^ 64 \<Longrightarrow> unat (of_nat n :: size_t) = n"
  by (simp add: unat_of_nat)

lemma unat_sub_size [size_simps]:
  "unat (y :: size_t) \<le> unat x \<Longrightarrow> unat (x - y) = unat x - unat y"
  by (simp add: unat_sub word_le_nat_alt)

lemma unat_add_size [size_simps]:
  "unat (x :: size_t) + unat y < 2 ^ 64 \<Longrightarrow> unat (x + y) = unat x + unat y"
  by (simp add: unat_add_lem [THEN iffD1])

lemma unat_sub_wrap:
  assumes "unat (x :: size_t) < unat y"
  shows "unat (x - y) = 2 ^ 64 + unat x - unat y"
  using assms by (simp add: unat_sub_if' word_le_nat_alt size_word_def)

lemma unat_eq_zero [size_simps]: "(x :: size_t) = 0 \<longleftrightarrow> unat x = 0"
  by (simp add: unat_eq_0)

lemma size_t_eqI: "unat (x :: size_t) = unat y \<Longrightarrow> x = y"
  by (simp add: word_unat_eq_iff)


section \<open>Decimal numbers\<close>

text \<open>\<open>std::to_string\<close> and \<open>operator<<\<close> of unsigned integers.\<close>

definition digit :: "nat \<Rightarrow> char" where
  "digit n = char_of (48 + n)"

fun decimal :: "nat \<Rightarrow> string" where
  "decimal n = (if n < 10 then [digit n] else decimal (n div 10) @ [digit (n mod 10)])"

declare decimal.simps [simp del]

definition undecimal :: "string \<Rightarrow> nat" where
  "undecimal s = foldl (\<lambda>a c. 10 * a + (of_char c - 48)) 0 s"

lemma of_char_digit: "n < 10 \<Longrightarrow> (of_char (digit n) :: nat) = 48 + n"
  by (simp add: digit_def)

lemma undecimal_decimal [simp]: "undecimal (decimal n) = n"
proof (induction n rule: decimal.induct)
  case (1 n)
  show ?case
  proof (cases "n < 10")
    case True
    then show ?thesis by (subst decimal.simps) (simp add: undecimal_def of_char_digit)
  next
    case False
    then have "undecimal (decimal n) = 10 * undecimal (decimal (n div 10)) + n mod 10"
      by (subst decimal.simps) (simp add: undecimal_def of_char_digit)
    with 1 False show ?thesis by simp
  qed
qed

lemma decimal_inj [simp]: "decimal m = decimal n \<longleftrightarrow> m = n"
  by (metis undecimal_decimal)

end
