(* ===== verification/Byte_Buffer.thy ===== *)
theory Byte_Buffer
  imports Asio_Base
begin

text \<open>
  The class \<open>ByteBuffer\<close> of \<open>src/bytebuffer.h\<close>: a growable block of bytes with a read and a
  write position. The record has the class's three members; each member function is one
  definition. A pointer into the storage (\<open>Data()\<close>, \<open>ReadBegin()\<close>, \<open>WriteBegin()\<close>) is its
  offset from \<open>storage_.data()\<close>, so an access through it is checked against the block.
  Positions are \<open>size_t\<close> values that wrap around as the code's do.

  After the operations come the invariant \<open>buf_ok\<close>, the abstraction \<open>readable\<close> (the bytes
  written and not yet read) and the lemmas that relate each operation to them. The locale
  \<open>byte_fifo\<close> states what a connection relies on when it queues bytes in such a buffer.
\<close>

section \<open>State and operations\<close>

record bytebuffer =
  bb_wpos :: size_t
  bb_rpos :: size_t
  bb_storage :: "byte list"

definition ByteBuffer_default :: bytebuffer where
  "ByteBuffer_default =
     \<lparr>bb_wpos = 0, bb_rpos = 0, bb_storage = replicate (8 * 1024) 0\<rparr>"

definition ByteBuffer_sized :: "size_t \<Rightarrow> bytebuffer res" where
  "ByteBuffer_sized n =
     rbind (vec_resize (unat n) [])
       (\<lambda>st. Inr \<lparr>bb_wpos = 0, bb_rpos = 0, bb_storage = st\<rparr>)"

definition ByteBuffer_copy :: "bytebuffer \<Rightarrow> bytebuffer" where
  "ByteBuffer_copy rhs =
     \<lparr>bb_wpos = bb_wpos rhs, bb_rpos = bb_rpos rhs, bb_storage = bb_storage rhs\<rparr>"

text \<open>
  \<open>Move()\<close> resets both positions and gives the storage away; the members of the new buffer
  are initialised in declaration order, the positions before the call. The results are the
  new buffer and the moved-from one, whose vector is left empty.
\<close>

definition Move :: "bytebuffer \<Rightarrow> byte list \<times> bytebuffer" where
  "Move b = (bb_storage b, b\<lparr>bb_wpos := 0, bb_rpos := 0, bb_storage := []\<rparr>)"

definition ByteBuffer_move :: "bytebuffer \<Rightarrow> bytebuffer \<times> bytebuffer" where
  "ByteBuffer_move rhs =
     (let w = bb_wpos rhs; r = bb_rpos rhs; (st, rhs') = Move rhs
      in (\<lparr>bb_wpos = w, bb_rpos = r, bb_storage = st\<rparr>, rhs'))"

text \<open>The two assignments. \<open>same\<close> tells whether \<open>rhs\<close> is the object itself.\<close>

definition assign_copy :: "bool \<Rightarrow> bytebuffer \<Rightarrow> bytebuffer \<Rightarrow> bytebuffer" where
  "assign_copy same b rhs =
     (if \<not> same
      then b\<lparr>bb_wpos := bb_wpos rhs, bb_rpos := bb_rpos rhs, bb_storage := bb_storage rhs\<rparr>
      else b)"

definition assign_move :: "bool \<Rightarrow> bytebuffer \<Rightarrow> bytebuffer \<Rightarrow> bytebuffer \<times> bytebuffer" where
  "assign_move same b rhs =
     (if \<not> same
      then (let b1 = b\<lparr>bb_wpos := bb_wpos rhs, bb_rpos := bb_rpos rhs\<rparr>; (st, rhs') = Move rhs
            in (b1\<lparr>bb_storage := st\<rparr>, rhs'))
      else (b, b))"

definition Reset :: "bytebuffer \<Rightarrow> bytebuffer" where
  "Reset b = b\<lparr>bb_wpos := 0, bb_rpos := 0\<rparr>"

definition Resize :: "size_t \<Rightarrow> bytebuffer \<Rightarrow> bytebuffer res" where
  "Resize bytes b =
     rbind (vec_resize (unat bytes) (bb_storage b)) (\<lambda>st. Inr (b\<lparr>bb_storage := st\<rparr>))"

definition Data :: "bytebuffer \<Rightarrow> size_t" where
  "Data b = 0"

definition ReadBegin :: "bytebuffer \<Rightarrow> size_t" where
  "ReadBegin b = Data b + bb_rpos b"

definition WriteBegin :: "bytebuffer \<Rightarrow> size_t" where
  "WriteBegin b = Data b + bb_wpos b"

definition ReadBytes :: "size_t \<Rightarrow> bytebuffer \<Rightarrow> bytebuffer" where
  "ReadBytes bytes b = b\<lparr>bb_rpos := bb_rpos b + bytes\<rparr>"

definition WriteBytes :: "size_t \<Rightarrow> bytebuffer \<Rightarrow> bytebuffer" where
  "WriteBytes bytes b = b\<lparr>bb_wpos := bb_wpos b + bytes\<rparr>"

definition Size :: "bytebuffer \<Rightarrow> size_t" where
  "Size b = bb_wpos b - bb_rpos b"

definition Capacity :: "bytebuffer \<Rightarrow> size_t" where
  "Capacity b = of_nat (length (bb_storage b))"

definition ValidSize :: "bytebuffer \<Rightarrow> size_t" where
  "ValidSize b = Capacity b - bb_wpos b"

definition Normalize :: "bytebuffer \<Rightarrow> bytebuffer res" where
  "Normalize b =
     (if bb_rpos b > 0
      then rbind (if bb_rpos b \<noteq> bb_wpos b
                  then rbind (mem_read (unat (ReadBegin b)) (unat (Size b)) (bb_storage b))
                         (\<lambda>d. mem_write (unat (Data b)) d (bb_storage b))
                  else Inr (bb_storage b))
             (\<lambda>st. Inr (b\<lparr>bb_wpos := bb_wpos b - bb_rpos b, bb_rpos := 0, bb_storage := st\<rparr>))
      else Inr b)"

definition EnsureValidSize :: "bytebuffer \<Rightarrow> bytebuffer res" where
  "EnsureValidSize b =
     (if ValidSize b = 0 then Resize (Capacity b * 3 div 2) b else Inr b)"

definition EstimateSize :: "size_t \<Rightarrow> bytebuffer \<Rightarrow> bytebuffer res" where
  "EstimateSize n b =
     (if ValidSize b < n then Resize ((Capacity b + n) * 3 div 2) b else Inr b)"

text \<open>
  \<open>Write(data, size)\<close>, with the bytes \<open>data\<close> points to as a list of length \<open>size\<close>.
\<close>

definition Write :: "byte list \<Rightarrow> bytebuffer \<Rightarrow> bytebuffer res" where
  "Write data b =
     (let n = of_nat (length data) :: size_t in
      if 0 < length data
      then rbind (EstimateSize n b)
             (\<lambda>b1. rbind (mem_write (unat (WriteBegin b1)) data (bb_storage b1))
               (\<lambda>st. Inr (WriteBytes n (b1\<lparr>bb_storage := st\<rparr>))))
      else Inr b)"

definition Swap :: "bytebuffer \<Rightarrow> bytebuffer \<Rightarrow> bytebuffer \<times> bytebuffer" where
  "Swap b rhs =
     (b\<lparr>bb_storage := bb_storage rhs, bb_wpos := bb_wpos rhs, bb_rpos := bb_rpos rhs\<rparr>,
      rhs\<lparr>bb_storage := bb_storage b, bb_wpos := bb_wpos b, bb_rpos := bb_rpos b\<rparr>)"

section \<open>Invariant and abstraction\<close>

definition buf_ok :: "bytebuffer \<Rightarrow> bool" where
  "buf_ok b \<longleftrightarrow> unat (bb_rpos b) \<le> unat (bb_wpos b)
     \<and> unat (bb_wpos b) \<le> length (bb_storage b)
     \<and> length (bb_storage b) \<le> vec_max_size"

definition readable :: "bytebuffer \<Rightarrow> byte list" where
  "readable b = drop (unat (bb_rpos b)) (take (unat (bb_wpos b)) (bb_storage b))"

text \<open>The bytes that fit behind the write position without growing the storage.\<close>

definition free_space :: "bytebuffer \<Rightarrow> nat" where
  "free_space b = length (bb_storage b) - unat (bb_wpos b)"

text \<open>
  \<open>EstimateSize\<close> computes \<open>(storage_.size() + size) * 3 / 2\<close> in 64 bits. \<open>fits\<close> excludes
  its overflow; it holds as long as the storage and the data together stay below 6 EiB.
\<close>

definition fits :: "nat \<Rightarrow> bytebuffer \<Rightarrow> bool" where
  "fits n b \<longleftrightarrow> (length (bb_storage b) + n) * 3 < 2 ^ 64"

lemmas vec_max_size_eval = vec_max_size_def [simplified]

lemma buf_okD:
  assumes "buf_ok b"
  shows "unat (bb_rpos b) \<le> unat (bb_wpos b)"
    and "unat (bb_wpos b) \<le> length (bb_storage b)"
    and "length (bb_storage b) < 9223372036854775808"
    and "length (bb_storage b) < 18446744073709551616"
  using assms by (auto simp: buf_ok_def vec_max_size_eval)

lemma buf_okI:
  "unat (bb_rpos b) \<le> unat (bb_wpos b) \<Longrightarrow> unat (bb_wpos b) \<le> length (bb_storage b) \<Longrightarrow>
   length (bb_storage b) \<le> vec_max_size \<Longrightarrow> buf_ok b"
  by (simp add: buf_ok_def)

lemma unat_Size: "buf_ok b \<Longrightarrow> unat (Size b) = unat (bb_wpos b) - unat (bb_rpos b)"
  by (simp add: Size_def buf_okD size_simps)

lemma length_readable: "buf_ok b \<Longrightarrow> length (readable b) = unat (Size b)"
  by (simp add: readable_def unat_Size buf_okD)

lemma Size_eq_0: "buf_ok b \<Longrightarrow> Size b = 0 \<longleftrightarrow> readable b = []"
  by (metis length_0_conv length_readable unat_eq_zero)

lemma Size_gt_0: "buf_ok b \<Longrightarrow> 0 < Size b \<longleftrightarrow> readable b \<noteq> []"
  by (simp add: Size_eq_0 word_neq_0_conv [symmetric])

lemma unat_Capacity: "buf_ok b \<Longrightarrow> unat (Capacity b) = length (bb_storage b)"
  by (simp add: Capacity_def buf_okD size_simps)

lemma unat_ValidSize: "buf_ok b \<Longrightarrow> unat (ValidSize b) = free_space b"
  by (simp add: ValidSize_def free_space_def unat_Capacity buf_okD size_simps)

lemma unat_begin [simp]:
  "unat (ReadBegin b) = unat (bb_rpos b)"
  "unat (WriteBegin b) = unat (bb_wpos b)"
  by (simp_all add: ReadBegin_def WriteBegin_def Data_def)


section \<open>Every operation keeps the invariant\<close>

lemma ByteBuffer_default_ok: "buf_ok ByteBuffer_default" "readable ByteBuffer_default = []"
  by (simp_all add: ByteBuffer_default_def buf_ok_def readable_def vec_max_size_eval)

lemma ByteBuffer_sized_ok:
  "unat n \<le> vec_max_size \<Longrightarrow>
   \<exists>b. ByteBuffer_sized n = Inr b \<and> buf_ok b \<and> readable b = [] \<and> Capacity b = n"
  by (simp add: ByteBuffer_sized_def vec_resize_def buf_ok_def readable_def Capacity_def)

lemma Reset_ok: "buf_ok b \<Longrightarrow> buf_ok (Reset b) \<and> readable (Reset b) = []"
  by (simp add: Reset_def buf_ok_def readable_def)

lemma ReadBytes_ok:
  assumes "buf_ok b" and "unat n \<le> unat (Size b)"
  shows "buf_ok (ReadBytes n b)" and "readable (ReadBytes n b) = drop (unat n) (readable b)"
proof -
  have "unat (bb_rpos b) + unat n \<le> unat (bb_wpos b)"
    using assms(2) buf_okD(1) [OF assms(1)] by (simp add: unat_Size [OF assms(1)])
  moreover from this have "unat (bb_rpos b + n) = unat (bb_rpos b) + unat n"
    using unat_size_lt [of "bb_wpos b"] by (intro unat_add_size) linarith
  ultimately show "buf_ok (ReadBytes n b)"
    and "readable (ReadBytes n b) = drop (unat n) (readable b)"
    using assms(1) by (simp_all add: ReadBytes_def buf_ok_def readable_def add.commute)
qed

lemma WriteBytes_ok:
  assumes "buf_ok b" and "unat n \<le> free_space b"
  shows "buf_ok (WriteBytes n b)"
    and "readable (WriteBytes n b) = readable b @ take (unat n) (drop (unat (bb_wpos b)) (bb_storage b))"
    and "unat (bb_wpos (WriteBytes n b)) = unat (bb_wpos b) + unat n"
proof -
  have le: "unat (bb_wpos b) + unat n \<le> length (bb_storage b)"
    using assms(2) buf_okD(2) [OF assms(1)] by (simp add: free_space_def)
  then have sum: "unat (bb_wpos b + n) = unat (bb_wpos b) + unat n"
    using buf_okD(4) [OF assms(1)] by (intro unat_add_size) simp
  show "buf_ok (WriteBytes n b)"
    using assms(1) le sum by (simp add: WriteBytes_def buf_ok_def)
  show "unat (bb_wpos (WriteBytes n b)) = unat (bb_wpos b) + unat n"
    using sum by (simp add: WriteBytes_def)
  show "readable (WriteBytes n b) = readable b @ take (unat n) (drop (unat (bb_wpos b)) (bb_storage b))"
    using buf_okD(1,2) [OF assms(1)]
    by (simp add: readable_def WriteBytes_def sum take_add)
qed

lemma Normalize_ok:
  assumes "buf_ok b"
  obtains b' where "Normalize b = Inr b'" and "buf_ok b'" and "readable b' = readable b"
    and "bb_rpos b' = 0" and "length (bb_storage b') = length (bb_storage b)"
proof (cases "bb_rpos b = 0")
  case True
  then show ?thesis using that [of b] assms by (simp add: Normalize_def)
next
  case False
  then have pos: "bb_rpos b > 0" by (simp add: word_neq_0_conv)
  let ?r = "readable b"
  define st where "st = (if bb_rpos b \<noteq> bb_wpos b then ?r @ drop (length ?r) (bb_storage b) else bb_storage b)"
  have len: "length ?r = unat (bb_wpos b) - unat (bb_rpos b)"
    using assms by (simp add: length_readable unat_Size)
  have read: "mem_read (unat (ReadBegin b)) (unat (Size b)) (bb_storage b) = Inr ?r"
    using assms buf_okD(1,2) [OF assms]
    by (simp add: mem_read_def unat_Size readable_def take_drop)
  have wr: "mem_write (unat (Data b)) ?r (bb_storage b) = Inr (?r @ drop (length ?r) (bb_storage b))"
    using len buf_okD(2) [OF assms] by (simp add: mem_write_def Data_def)
  have eq: "Normalize b = Inr (b\<lparr>bb_wpos := bb_wpos b - bb_rpos b, bb_rpos := 0, bb_storage := st\<rparr>)"
    using pos read wr by (simp add: Normalize_def st_def)
  have wp: "unat (bb_wpos b - bb_rpos b) = length ?r"
    using assms len by (simp add: buf_okD(1) size_simps)
  have "length st = length (bb_storage b)"
    using len buf_okD(2) [OF assms] by (simp add: st_def)
  moreover have "take (length ?r) st = ?r"
    using len by (auto simp: st_def)
  ultimately show ?thesis
    using that [OF eq] assms len wp buf_okD(2) [OF assms]
    by (simp add: buf_ok_def readable_def)
qed


lemma unat_grow:
  assumes "(unat x + unat n) * 3 < 2 ^ 64"
  shows "unat ((x + n) * 3 div 2 :: size_t) = (unat x + unat n) * 3 div 2"
proof -
  have "unat (x + n) = unat x + unat n"
    using assms by (intro unat_add_size) simp
  then have "unat ((x + n) * 3) = (unat x + unat n) * 3"
    using assms by (simp add: unat_word_ariths)
  then show ?thesis by (simp add: unat_div)
qed

lemma grow_ge: "(l + n) * 3 div 2 \<ge> l + (n::nat)"
  by (simp add: div_le_mono)

text \<open>The size of the storage after \<open>EstimateSize(n)\<close>.\<close>

definition grown :: "nat \<Rightarrow> bytebuffer \<Rightarrow> nat" where
  "grown n b = (if free_space b < n then (length (bb_storage b) + n) * 3 div 2
                else length (bb_storage b))"

lemma EstimateSize_ok:
  assumes "buf_ok b" and "fits (unat n) b"
  obtains b' where "EstimateSize n b = Inr b'" and "buf_ok b'" and "readable b' = readable b"
    and "bb_wpos b' = bb_wpos b" and "bb_rpos b' = bb_rpos b"
    and "unat n \<le> free_space b'" and "length (bb_storage b') = grown (unat n) b"
proof (cases "ValidSize b < n")
  case False
  then have "unat n \<le> free_space b"
    using assms(1) by (simp add: unat_ValidSize [symmetric] word_le_nat_alt not_less)
  then show ?thesis using that [of b] False assms(1) by (simp add: EstimateSize_def grown_def)
next
  case True
  let ?m = "(length (bb_storage b) + unat n) * 3 div 2"
  define b' where "b' = b\<lparr>bb_storage := bb_storage b @ replicate (?m - length (bb_storage b)) 0\<rparr>"
  have m: "unat ((Capacity b + n) * 3 div 2) = ?m"
    using assms by (subst unat_grow) (simp_all add: unat_Capacity fits_def)
  have le: "length (bb_storage b) + unat n \<le> ?m" by (rule grow_ge)
  have mx: "?m \<le> vec_max_size"
    using assms(2) by (simp add: fits_def vec_max_size_eval)
  have eq: "EstimateSize n b = Inr b'"
    unfolding EstimateSize_def Resize_def m b'_def
    using True vec_resize_grow [of "bb_storage b" ?m] le mx by simp
  have len: "length (bb_storage b') = ?m"
    using le by (simp add: b'_def)
  show ?thesis
  proof (rule that [OF eq])
    show "buf_ok b'"
      using buf_okD(1,2) [OF assms(1)] len le mx by (intro buf_okI) (simp_all add: b'_def)
    show "readable b' = readable b"
      using buf_okD(2) [OF assms(1)] by (simp add: readable_def b'_def)
    show "bb_wpos b' = bb_wpos b" "bb_rpos b' = bb_rpos b"
      by (simp_all add: b'_def)
    show "unat n \<le> free_space b'"
      unfolding free_space_def len using le buf_okD(2) [OF assms(1)] by (simp add: b'_def)
    show "length (bb_storage b') = grown (unat n) b"
      using True assms(1) by (simp add: len grown_def unat_ValidSize [symmetric] word_less_nat_alt)
  qed
qed

lemma Write_ok:
  assumes "buf_ok b" and "fits (length d) b"
  obtains b' where "Write d b = Inr b'" and "buf_ok b'" and "readable b' = readable b @ d"
    and "bb_rpos b' = bb_rpos b" and "unat (bb_wpos b') = unat (bb_wpos b) + length d"
    and "length (bb_storage b') = grown (length d) b"
proof (cases "d = []")
  case True
  then show ?thesis using that [of b] assms(1) by (simp add: Write_def grown_def)
next
  case False
  let ?n = "of_nat (length d) :: size_t"
  have n: "unat ?n = length d"
    using assms(2) by (simp add: fits_def unat_of_size)
  from assms obtain b1 where b1: "EstimateSize ?n b = Inr b1" "buf_ok b1" "readable b1 = readable b"
    "bb_wpos b1 = bb_wpos b" "bb_rpos b1 = bb_rpos b" "length d \<le> free_space b1"
    "length (bb_storage b1) = grown (length d) b"
    by (metis EstimateSize_ok n)
  have le: "unat (bb_wpos b1) + length d \<le> length (bb_storage b1)"
    using b1(6) buf_okD(2) [OF b1(2)] by (simp add: free_space_def)
  then obtain st where st: "mem_write (unat (bb_wpos b1)) d (bb_storage b1) = Inr st"
    by (simp add: mem_write_def)
  let ?b2 = "b1\<lparr>bb_storage := st\<rparr>"
  have len: "length st = length (bb_storage b1)"
    using st by (rule mem_write_length)
  have ok2: "buf_ok ?b2"
    using b1(2) len by (simp add: buf_ok_def)
  have fr: "unat ?n \<le> free_space ?b2"
    using b1(6) len n by (simp add: free_space_def)
  have rd: "readable ?b2 = readable b"
    using st buf_okD(1,2) [OF b1(2)] b1(3) by (auto simp: readable_def mem_write_def split: if_splits)
  have dd: "take (length d) (drop (unat (bb_wpos b1)) st) = d"
    using st by (auto simp: mem_write_def split: if_splits)
  have "Write d b = Inr (WriteBytes ?n ?b2)"
    using False b1(1) st by (simp add: Write_def)
  then show ?thesis
    by (rule that)
       (use WriteBytes_ok [OF ok2 fr] b1 n rd dd len in \<open>simp_all add: WriteBytes_def\<close>)
qed

text \<open>
  A \<open>Write\<close> that returns has appended its data, whatever the growth computation did: had it
  overflowed, the copy would have left the storage.
\<close>

lemma EstimateSize_InrD:
  assumes "buf_ok b" and "EstimateSize n b = Inr b'"
  shows "bb_wpos b' = bb_wpos b" and "bb_rpos b' = bb_rpos b"
    and "take (length (bb_storage b')) (bb_storage b) = take (length (bb_storage b)) (bb_storage b')"
    and "length (bb_storage b') \<le> vec_max_size"
  using assms buf_ok_def [of b]
  by (auto simp: EstimateSize_def Resize_def vec_resize_def min_def split: if_splits)

lemma Write_InrD:
  assumes "buf_ok b" and "Write d b = Inr b'"
  shows "buf_ok b'" and "readable b' = readable b @ d"
    and "bb_rpos b' = bb_rpos b" and "unat (bb_wpos b') = unat (bb_wpos b) + length d"
proof -
  have "buf_ok b' \<and> readable b' = readable b @ d \<and> bb_rpos b' = bb_rpos b
    \<and> unat (bb_wpos b') = unat (bb_wpos b) + length d"
  proof (cases "d = []")
    case True
    with assms show ?thesis by (auto simp: Write_def)
  next
    case False
    let ?n = "of_nat (length d) :: size_t"
    from False assms(2) obtain b1 st where b1: "EstimateSize ?n b = Inr b1"
      and st: "mem_write (unat (bb_wpos b1)) d (bb_storage b1) = Inr st"
      and b': "b' = WriteBytes ?n (b1\<lparr>bb_storage := st\<rparr>)"
      by (auto simp: Write_def Let_def)
    note e = EstimateSize_InrD [OF assms(1) b1]
    let ?b2 = "b1\<lparr>bb_storage := st\<rparr>"
    have len: "length st = length (bb_storage b1)"
      using st by (rule mem_write_length)
    have le: "unat (bb_wpos b1) + length d \<le> length (bb_storage b1)"
      using st by (auto simp: mem_write_def split: if_splits)
    then have n: "unat ?n = length d"
      using e(4) by (intro unat_of_size) (simp add: vec_max_size_eval)
    have ok2: "buf_ok ?b2"
      using buf_okD(1) [OF assms(1)] e le len by (simp add: buf_ok_def)
    have fr: "unat ?n \<le> free_space ?b2"
      using le len n by (simp add: free_space_def)
    have "take (unat (bb_wpos b)) st = take (unat (bb_wpos b)) (bb_storage b1)"
      using st e(1) by (auto simp: mem_write_def split: if_splits)
    also have "\<dots> = take (unat (bb_wpos b)) (bb_storage b)"
      using arg_cong [OF e(3), of "take (unat (bb_wpos b))"] le e(1) buf_okD(2) [OF assms(1)]
      by (simp add: min_def split: if_splits)
    finally have rd: "readable ?b2 = readable b"
      by (simp add: readable_def e)
    have dd: "take (length d) (drop (unat (bb_wpos b1)) st) = d"
      using st by (auto simp: mem_write_def split: if_splits)
    show ?thesis
      unfolding b' using WriteBytes_ok [OF ok2 fr] n rd dd e
      by (simp add: WriteBytes_def)
  qed
  then show "buf_ok b'" and "readable b' = readable b @ d"
    and "bb_rpos b' = bb_rpos b" and "unat (bb_wpos b') = unat (bb_wpos b) + length d"
    by blast+
qed

lemma Swap_eq [simp]: "Swap b rhs = (rhs, b)"
  by (simp add: Swap_def)


lemma EnsureValidSize_ok:
  assumes "buf_ok b" and "length (bb_storage b) * 3 < 2 ^ 64"
  obtains b' where "EnsureValidSize b = Inr b'" and "buf_ok b'" and "readable b' = readable b"
    and "bb_wpos b' = bb_wpos b"
    and "length (bb_storage b') =
      (if free_space b = 0 then length (bb_storage b) * 3 div 2 else length (bb_storage b))"
proof (cases "free_space b = 0")
  case False
  then have "ValidSize b \<noteq> 0" using assms(1) by (simp add: unat_ValidSize unat_eq_zero)
  then show ?thesis using that [of b] False assms(1) by (simp add: EnsureValidSize_def)
next
  case True
  let ?m = "length (bb_storage b) * 3 div 2"
  define b' where "b' = b\<lparr>bb_storage := bb_storage b @ replicate (?m - length (bb_storage b)) 0\<rparr>"
  have v: "ValidSize b = 0" using True assms(1) by (simp add: unat_ValidSize unat_eq_zero)
  have "unat ((Capacity b + 0) * 3 div 2) = (unat (Capacity b) + unat (0 :: size_t)) * 3 div 2"
    using assms by (intro unat_grow) (simp add: unat_Capacity)
  then have m: "unat (Capacity b * 3 div 2) = ?m"
    using assms(1) by (simp add: unat_Capacity)
  have le: "length (bb_storage b) \<le> ?m" by simp
  have mx: "?m \<le> vec_max_size" using assms(2) by (simp add: vec_max_size_eval)
  have eq: "EnsureValidSize b = Inr b'"
    unfolding EnsureValidSize_def Resize_def m b'_def
    using v vec_resize_grow [OF le mx] by simp
  have len: "length (bb_storage b') = ?m"
    using le by (simp add: b'_def)
  show ?thesis
  proof (rule that [OF eq])
    show "buf_ok b'"
      using buf_okD(1,2) [OF assms(1)] len le mx by (intro buf_okI) (simp_all add: b'_def)
    show "readable b' = readable b"
      using buf_okD(2) [OF assms(1)] by (simp add: readable_def b'_def)
    show "bb_wpos b' = bb_wpos b" by (simp add: b'_def)
    show "length (bb_storage b') = (if free_space b = 0 then ?m else length (bb_storage b))"
      using True len by simp
  qed
qed

section \<open>The buffer as a queue of bytes\<close>

text \<open>
  What a client that only appends and consumes relies on: \<open>push\<close> appends while there is
  \<open>room\<close>, \<open>pop\<close> consumes from the front, \<open>len\<close> is the number of bytes held. The lemmas
  are about the two-buffer arrangement of a connection: one buffer is being drained (\<open>front\<close>)
  while new bytes are appended to the other (\<open>back\<close>), and the two change places when the
  first is empty.
\<close>

locale byte_fifo =
  fixes inv :: "'b \<Rightarrow> bool"
    and content :: "'b \<Rightarrow> byte list"
    and room :: "nat \<Rightarrow> 'b \<Rightarrow> bool"
    and len :: "'b \<Rightarrow> size_t"
    and push :: "byte list \<Rightarrow> 'b \<Rightarrow> 'b res"
    and pop :: "size_t \<Rightarrow> 'b \<Rightarrow> 'b"
  assumes unat_len: "inv b \<Longrightarrow> unat (len b) = length (content b)"
    and push_total: "inv b \<Longrightarrow> room (length d) b \<Longrightarrow> \<exists>b'. push d b = Inr b'"
    and push_inv: "inv b \<Longrightarrow> push d b = Inr b' \<Longrightarrow> inv b'"
    and push_content: "inv b \<Longrightarrow> push d b = Inr b' \<Longrightarrow> content b' = content b @ d"
    and pop_inv: "inv b \<Longrightarrow> unat n \<le> length (content b) \<Longrightarrow> inv (pop n b)"
    and pop_content: "inv b \<Longrightarrow> unat n \<le> length (content b) \<Longrightarrow>
      content (pop n b) = drop (unat n) (content b)"
begin

lemma len_zero: "inv b \<Longrightarrow> len b = 0 \<longleftrightarrow> content b = []"
  by (metis length_0_conv unat_len unat_eq_zero)

lemma len_pos: "inv b \<Longrightarrow> 0 < len b \<longleftrightarrow> content b \<noteq> []"
  by (simp add: len_zero word_neq_0_conv [symmetric])

text \<open>Appending to the back buffer, or to the front one while the back is empty, appends to
  the pair.\<close>

lemma push_back:
  "inv back \<Longrightarrow> push d back = Inr back' \<Longrightarrow>
   content front @ content back' = (content front @ content back) @ d"
  by (simp add: push_content)

lemma push_front:
  "inv front \<Longrightarrow> content back = [] \<Longrightarrow> push d front = Inr front' \<Longrightarrow>
   content front' @ content back = (content front @ content back) @ d"
  by (simp add: push_content)

text \<open>Consuming \<open>n\<close> bytes of the front buffer consumes \<open>n\<close> bytes of the pair.\<close>

lemma pop_front:
  assumes "inv front" and "unat n \<le> length (content front)"
  shows "inv (pop n front)"
    and "content (pop n front) @ content back = drop (unat n) (content front @ content back)"
    and "take (unat n) (content front) = take (unat n) (content front @ content back)"
  using assms by (simp_all add: pop_inv pop_content)

text \<open>Changing places when the front buffer is empty keeps the pair's bytes.\<close>

lemma change_places:
  "content front = [] \<Longrightarrow> content back @ content front = content front @ content back"
  by simp

end

interpretation fifo: byte_fifo buf_ok readable fits Size Write ReadBytes
proof unfold_locales
  fix b b' :: bytebuffer and n :: size_t and d :: "byte list"
  assume ok: "buf_ok b"
  show "unat (Size b) = length (readable b)"
    using ok by (simp add: length_readable)
  show "\<exists>b'. Write d b = Inr b'" if "fits (length d) b"
    using Write_ok [OF ok that] by metis
  show "buf_ok b'" and "readable b' = readable b @ d" if "Write d b = Inr b'"
    using Write_InrD [OF ok that] by simp_all
  assume "unat n \<le> length (readable b)"
  then show "buf_ok (ReadBytes n b)" and "readable (ReadBytes n b) = drop (unat n) (readable b)"
    using ok ReadBytes_ok by (simp_all add: length_readable)
qed

section \<open>Sequences of operations\<close>

datatype buf_op =
    BWrite "byte list"
  | BReadBytes size_t
  | BNormalize
  | BReset
  | BEnsureValidSize
  | BEstimateSize size_t
  | BResize size_t
  | BWriteBytes size_t

fun buf_exec :: "buf_op \<Rightarrow> bytebuffer \<Rightarrow> bytebuffer res" where
  "buf_exec (BWrite d) b = Write d b"
| "buf_exec (BReadBytes n) b = Inr (ReadBytes n b)"
| "buf_exec BNormalize b = Normalize b"
| "buf_exec BReset b = Inr (Reset b)"
| "buf_exec BEnsureValidSize b = EnsureValidSize b"
| "buf_exec (BEstimateSize n) b = EstimateSize n b"
| "buf_exec (BResize n) b = Resize n b"
| "buf_exec (BWriteBytes n) b = Inr (WriteBytes n b)"

fun buf_run :: "buf_op list \<Rightarrow> bytebuffer \<Rightarrow> bytebuffer res" where
  "buf_run [] b = Inr b"
| "buf_run (op # ops) b = rbind (buf_exec op b) (buf_run ops)"

text \<open>
  The specification: the queue of bytes itself. \<open>queue_op\<close> is the effect of an operation on
  it, \<open>queue_allowed\<close> its precondition; \<open>Resize\<close> and \<open>WriteBytes\<close> are outside the contract
  (they publish bytes nobody wrote, or cut bytes off).
\<close>

fun queue_op :: "buf_op \<Rightarrow> byte list \<Rightarrow> byte list" where
  "queue_op (BWrite d) q = q @ d"
| "queue_op (BReadBytes n) q = drop (unat n) q"
| "queue_op BReset q = []"
| "queue_op _ q = q"

fun queue_allowed :: "buf_op \<Rightarrow> byte list \<Rightarrow> bool" where
  "queue_allowed (BReadBytes n) q = (unat n \<le> length q)"
| "queue_allowed (BResize n) q = False"
| "queue_allowed (BWriteBytes n) q = False"
| "queue_allowed _ q = True"

fun queue_run :: "buf_op list \<Rightarrow> byte list \<Rightarrow> byte list" where
  "queue_run [] q = q"
| "queue_run (op # ops) q = queue_run ops (queue_op op q)"

fun queue_run_allowed :: "buf_op list \<Rightarrow> byte list \<Rightarrow> bool" where
  "queue_run_allowed [] q = True"
| "queue_run_allowed (op # ops) q = (queue_allowed op q \<and> queue_run_allowed ops (queue_op op q))"

text \<open>
  The bytes an operation asks room for. The growth policy keeps the storage within three
  times the bytes asked for so far (or the size it had), which bounds the 64-bit
  computation of the next size.
\<close>

fun op_demand :: "buf_op \<Rightarrow> nat" where
  "op_demand (BWrite d) = length d"
| "op_demand (BEstimateSize n) = unat n"
| "op_demand _ = 0"


definition cap_bound :: "nat \<Rightarrow> nat \<Rightarrow> bytebuffer \<Rightarrow> bool" where
  "cap_bound c t b \<longleftrightarrow> unat (bb_wpos b) \<le> t \<and> length (bb_storage b) \<le> max c (3 * t)"

lemma cap_bound_fits:
  "cap_bound c t b \<Longrightarrow> c + t + n < 2 ^ 60 \<Longrightarrow> fits n b"
  by (auto simp: cap_bound_def fits_def max_def split: if_splits)

lemma cap_bound_mono: "cap_bound c t b \<Longrightarrow> t \<le> t' \<Longrightarrow> cap_bound c t' b"
  by (auto simp: cap_bound_def max_def split: if_splits)

lemma grown_bound:
  assumes "cap_bound c t b" and "buf_ok b"
  shows "grown n b \<le> max c (3 * (t + n))"
proof (cases "free_space b < n")
  case True
  then have "length (bb_storage b) < unat (bb_wpos b) + n"
    by (auto simp: free_space_def)
  then have "length (bb_storage b) < t + n"
    using assms(1) by (simp add: cap_bound_def)
  then have "(length (bb_storage b) + n) * 3 < (3 * (t + n) + 1) * 2"
    by simp
  then have "(length (bb_storage b) + n) * 3 div 2 \<le> 3 * (t + n)"
    by (metis Suc_eq_plus1 less_Suc_eq_le less_mult_imp_div_less)
  then show ?thesis using True by (simp add: grown_def)
next
  case False
  then show ?thesis using assms(1) by (auto simp: grown_def cap_bound_def max_def split: if_splits)
qed

text \<open>
  A buffer that has only been appended to and consumed, never normalised: its storage is at
  most three times what was ever written to it, or the default 8 KiB.
\<close>

definition tight :: "bytebuffer \<Rightarrow> bool" where
  "tight b \<longleftrightarrow> cap_bound 8192 (unat (bb_wpos b)) b"

lemma tight_default [simp]: "tight ByteBuffer_default"
  by (simp add: tight_def cap_bound_def ByteBuffer_default_def)

lemma tight_ReadBytes [simp]: "tight (ReadBytes n b) = tight b"
  by (simp add: tight_def cap_bound_def ReadBytes_def)

lemma tight_fits: "tight b \<Longrightarrow> unat (bb_wpos b) + n < 2 ^ 60 \<Longrightarrow> fits n b"
  by (auto simp: tight_def cap_bound_def fits_def max_def split: if_splits)

lemma Write_tight:
  assumes "buf_ok b" and "tight b" and "unat (bb_wpos b) + length d < 2 ^ 60"
    and "Write d b = Inr b'"
  shows "tight b'"
proof -
  from Write_ok [OF assms(1) tight_fits [OF assms(2,3)]]
  have "length (bb_storage b') = grown (length d) b"
    and wp: "unat (bb_wpos b') = unat (bb_wpos b) + length d"
    using assms(4) by (metis sum.inject(2))+
  then show ?thesis
    using grown_bound [of 8192 "unat (bb_wpos b)" b "length d"] assms(1,2)
    by (simp add: tight_def cap_bound_def wp)
qed

lemma Write_total:
  "buf_ok b \<Longrightarrow> tight b \<Longrightarrow> unat (bb_wpos b) + length d < 2 ^ 60 \<Longrightarrow> \<exists>b'. Write d b = Inr b'"
  using fifo.push_total [OF _ tight_fits] by blast

lemma mem_read_readable:
  assumes "buf_ok b" and "n \<le> length (readable b)"
  shows "mem_read (unat (ReadBegin b)) n (bb_storage b) = Inr (take n (readable b))"
proof -
  have "unat (bb_rpos b) + n \<le> unat (bb_wpos b)"
    using assms(2) buf_okD(1) [OF assms(1)] by (simp add: length_readable [OF assms(1)] unat_Size [OF assms(1)])
  then show ?thesis
    using buf_okD(2) [OF assms(1)] by (simp add: mem_read_def readable_def take_drop min_def add.commute)
qed

lemma buf_exec_refines:
  assumes "buf_ok b" and "queue_allowed op (readable b)" and "cap_bound c t b"
    and small: "c + t + op_demand op < 2 ^ 60"
  shows "\<exists>b'. buf_exec op b = Inr b' \<and> buf_ok b' \<and> readable b' = queue_op op (readable b)
    \<and> cap_bound c (t + op_demand op) b'"
proof (cases op)
  case (BWrite d)
  with assms have "fits (length d) b" by (auto intro: cap_bound_fits)
  from Write_ok [OF assms(1) this] BWrite show ?thesis
    using grown_bound [OF assms(3,1), of "length d"] assms(3) by (fastforce simp: cap_bound_def)
next
  case (BReadBytes n)
  with assms show ?thesis
    by (simp add: ReadBytes_ok length_readable cap_bound_def) (simp add: ReadBytes_def)
next
  case BNormalize
  from Normalize_ok [OF assms(1)] obtain b' where b': "Normalize b = Inr b'" "buf_ok b'"
    "readable b' = readable b" "bb_rpos b' = 0" "length (bb_storage b') = length (bb_storage b)" .
  then have "unat (bb_wpos b') = length (readable b)"
    using length_readable [of b'] unat_Size [of b'] by simp
  then have "unat (bb_wpos b') \<le> unat (bb_wpos b)"
    using assms(1) by (simp add: length_readable unat_Size)
  with b' BNormalize assms(3) show ?thesis by (auto simp: cap_bound_def)
next
  case BReset
  with assms show ?thesis
    by (simp add: Reset_ok cap_bound_def) (simp add: Reset_def)
next
  case BEnsureValidSize
  have "fits 0 b" using assms(3) small by (auto intro: cap_bound_fits)
  then have "length (bb_storage b) * 3 < 2 ^ 64" by (simp add: fits_def)
  from EnsureValidSize_ok [OF assms(1) this] obtain b' where b': "EnsureValidSize b = Inr b'"
    "buf_ok b'" "readable b' = readable b" "bb_wpos b' = bb_wpos b" "length (bb_storage b') =
      (if free_space b = 0 then length (bb_storage b) * 3 div 2 else length (bb_storage b))" .
  then have "length (bb_storage b') \<le> max c (3 * t)"
    using assms(3) by (auto simp: cap_bound_def free_space_def max_def split: if_splits)
  with b' BEnsureValidSize assms(3) show ?thesis by (auto simp: cap_bound_def)
next
  case (BEstimateSize n)
  with assms have "fits (unat n) b" by (auto intro: cap_bound_fits)
  from EstimateSize_ok [OF assms(1) this] BEstimateSize show ?thesis
    using grown_bound [OF assms(3,1), of "unat n"] assms(3) by (fastforce simp: cap_bound_def)
qed (use assms in simp_all)

lemma buf_run_refines:
  assumes "buf_ok b" and "queue_run_allowed ops (readable b)" and "cap_bound c t b"
    and "c + t + sum_list (map op_demand ops) < 2 ^ 60"
  shows "\<exists>b'. buf_run ops b = Inr b' \<and> buf_ok b' \<and> readable b' = queue_run ops (readable b)
    \<and> cap_bound c (t + sum_list (map op_demand ops)) b'"
  using assms
proof (induction ops arbitrary: b t)
  case Nil
  then show ?case by simp
next
  case (Cons op ops)
  then obtain b1 where b1: "buf_exec op b = Inr b1" "buf_ok b1"
    "readable b1 = queue_op op (readable b)" "cap_bound c (t + op_demand op) b1"
    using buf_exec_refines [of b op c t] by auto
  from Cons.IH [OF b1(2) _ b1(4)] Cons.prems b1 show ?case
    by (simp add: add.assoc)
qed

section \<open>Properties\<close>

text \<open>C7. A \<open>ByteBuffer\<close> is a queue of bytes. Any sequence of \<open>Write\<close>, \<open>ReadBytes\<close>,
  \<open>Normalize\<close>, \<open>Reset\<close>, \<open>EnsureValidSize\<close> and \<open>EstimateSize\<close> that never consumes more than
  is there runs without fault (no \<open>memcpy\<close> or \<open>memmove\<close> leaves the storage, no length error),
  keeps the buffer well formed, and its readable bytes are those of the queue; the storage
  never grows beyond three times the bytes asked for, or what it was.\<close>

theorem ByteBuffer_refines_queue:
  assumes "buf_ok b" and "queue_run_allowed ops (readable b)"
    and "length (bb_storage b) + unat (bb_wpos b) + sum_list (map op_demand ops) < 2 ^ 60"
  shows "\<exists>b'. buf_run ops b = Inr b' \<and> buf_ok b' \<and> readable b' = queue_run ops (readable b)
    \<and> length (bb_storage b') \<le> max (length (bb_storage b))
        (3 * (unat (bb_wpos b) + sum_list (map op_demand ops)))"
proof -
  have "cap_bound (length (bb_storage b)) (unat (bb_wpos b)) b"
    by (simp add: cap_bound_def)
  from buf_run_refines [OF assms(1,2) this assms(3)] show ?thesis
    by (auto simp: cap_bound_def)
qed

theorem ByteBuffer_refines_queue_witness:
  "\<exists>b'. buf_run [BWrite [1, 2, 3], BReadBytes 1, BNormalize, BWrite [4]] ByteBuffer_default = Inr b'
     \<and> readable b' = [2, 3, 4]"
proof -
  let ?ops = "[BWrite [1, 2, 3], BReadBytes 1, BNormalize, BWrite [4]]"
  have "queue_run_allowed ?ops (readable ByteBuffer_default)"
    by (simp add: ByteBuffer_default_ok)
  moreover have "length (bb_storage ByteBuffer_default) + unat (bb_wpos ByteBuffer_default)
      + sum_list (map op_demand ?ops) < 2 ^ 60"
    by (simp add: ByteBuffer_default_def)
  ultimately have "\<exists>b'. buf_run ?ops ByteBuffer_default = Inr b' \<and> buf_ok b'
      \<and> readable b' = queue_run ?ops (readable ByteBuffer_default)
      \<and> length (bb_storage b') \<le> max (length (bb_storage ByteBuffer_default))
          (3 * (unat (bb_wpos ByteBuffer_default) + sum_list (map op_demand ?ops)))"
    by (rule ByteBuffer_refines_queue [OF ByteBuffer_default_ok(1)])
  moreover have "queue_run ?ops (readable ByteBuffer_default) = [2, 3, 4]"
    by (simp add: ByteBuffer_default_ok)
  ultimately show ?thesis by metis
qed


text \<open>\<open>EnsureValidSize\<close> is meant to make room in a full buffer ("resize buffer if it's
  already full"), and does so exactly when the buffer has at least two bytes: the new capacity
  is \<open>capacity * 3 / 2\<close>, which for capacities 0 (a moved-from buffer) and 1 is the old one, so
  the buffer stays full.\<close>

theorem EnsureValidSize_makes_room_iff:
  assumes "buf_ok b" and "length (bb_storage b) * 3 < 2 ^ 64" and "ValidSize b = 0"
  shows "\<exists>b'. EnsureValidSize b = Inr b' \<and> readable b' = readable b \<and>
    (0 < ValidSize b' \<longleftrightarrow> 2 \<le> Capacity b)"
proof -
  have full: "free_space b = 0"
    using assms(1,3) by (simp add: unat_ValidSize [symmetric])
  from EnsureValidSize_ok [OF assms(1,2)] obtain b' where b': "EnsureValidSize b = Inr b'"
    "buf_ok b'" "readable b' = readable b" "bb_wpos b' = bb_wpos b"
    "length (bb_storage b') = length (bb_storage b) * 3 div 2"
    using full by metis
  have "unat (bb_wpos b) = length (bb_storage b)"
    using full buf_okD(2) [OF assms(1)] by (simp add: free_space_def)
  then have "free_space b' = length (bb_storage b) * 3 div 2 - length (bb_storage b)"
    using b' by (simp add: free_space_def)
  then have "0 < ValidSize b' \<longleftrightarrow> 2 \<le> length (bb_storage b)"
    using unat_ValidSize [OF b'(2)] by (auto simp: word_less_nat_alt)
  also have "\<dots> \<longleftrightarrow> 2 \<le> Capacity b"
    using unat_Capacity [OF assms(1)] by (simp add: word_le_nat_alt)
  finally show ?thesis using b' by blast
qed

theorem EnsureValidSize_makes_room_iff_witness:
  "\<exists>b'. EnsureValidSize (snd (Move ByteBuffer_default)) = Inr b' \<and> \<not> 0 < ValidSize b'"
proof -
  let ?b = "snd (Move ByteBuffer_default)"
  have "buf_ok ?b" "length (bb_storage ?b) * 3 < 2 ^ 64" "ValidSize ?b = 0" "\<not> 2 \<le> Capacity ?b"
    by (simp_all add: Move_def buf_ok_def ValidSize_def Capacity_def word_le_nat_alt)
  with EnsureValidSize_makes_room_iff [OF this(1-3)] show ?thesis by blast
qed

text \<open>\<open>Resize\<close> does not adjust the positions. Cutting a buffer below its write position
  makes \<open>ValidSize()\<close> wrap around to a huge value, so the next \<open>Write\<close> of any data skips the
  growth step and its \<open>memcpy\<close> leaves the storage.\<close>

theorem Resize_below_wpos_breaks_Write:
  assumes "buf_ok b" and "n < bb_wpos b"
  shows "\<exists>b'. Resize n b = Inr b' \<and> 2 ^ 63 \<le> unat (ValidSize b') \<and>
    (\<forall>d. 0 < length d \<and> length d \<le> 2 ^ 63 \<longrightarrow> Write d b' = Inl OutOfBounds)"
proof -
  define b' where "b' = b\<lparr>bb_storage := take (unat n) (bb_storage b)\<rparr>"
  have lt: "unat n < unat (bb_wpos b)" using assms(2) by (simp add: word_less_nat_alt)
  have le: "unat n \<le> length (bb_storage b)" using lt buf_okD(2) [OF assms(1)] by simp
  have eq: "Resize n b = Inr b'"
    using le buf_okD(3) [OF assms(1)]
    by (simp add: Resize_def vec_resize_def b'_def vec_max_size_eval)
  have cap: "Capacity b' = n" using le by (simp add: Capacity_def b'_def)
  have wp: "bb_wpos b' = bb_wpos b" by (simp add: b'_def)
  have "unat (ValidSize b') = 2 ^ 64 + unat n - unat (bb_wpos b)"
    unfolding ValidSize_def cap wp using lt by (rule unat_sub_wrap)
  then have big: "2 ^ 63 \<le> unat (ValidSize b')"
    using buf_okD(2,3) [OF assms(1)] by simp
  have "Write d b' = Inl OutOfBounds" if d: "0 < length d" "length d \<le> 2 ^ 63" for d
  proof -
    have u: "unat (of_nat (length d) :: size_t) = length d"
      using d by (intro unat_of_size) simp
    have "of_nat (length d) \<le> ValidSize b'"
      using big d u by (simp add: word_le_nat_alt)
    then have "EstimateSize (of_nat (length d)) b' = Inr b'"
      by (simp add: EstimateSize_def not_less [symmetric])
    moreover have "mem_write (unat (bb_wpos b)) d (bb_storage b') = Inl OutOfBounds"
      using lt le by (simp add: mem_write_def b'_def)
    ultimately show ?thesis using d by (simp add: Write_def wp)
  qed
  with eq big show ?thesis by blast
qed

theorem Resize_below_wpos_breaks_Write_witness:
  "\<exists>b b'. Resize 1 b = Inr b' \<and> readable b = [7, 8] \<and> Write [9] b' = Inl OutOfBounds"
proof -
  let ?b = "\<lparr>bb_wpos = 2, bb_rpos = 0, bb_storage = [7, 8, 0]\<rparr>"
  have ok: "buf_ok ?b" "1 < bb_wpos ?b" and rd: "readable ?b = [7, 8]"
    by (simp_all add: buf_ok_def vec_max_size_eval readable_def)
  from Resize_below_wpos_breaks_Write [OF ok] obtain b' where "Resize 1 ?b = Inr b'"
    and w: "\<forall>d. 0 < length d \<and> length d \<le> 2 ^ 63 \<longrightarrow> Write d b' = Inl OutOfBounds" by blast
  moreover have "Write [9] b' = Inl OutOfBounds" using w by simp
  ultimately show ?thesis using rd by blast
qed

end
