(* ===== verification/Tcp_Conn.thy ===== *)
theory Tcp_Conn
  imports Byte_Buffer
begin

text \<open>
  The class \<open>TCPConn\<close> of \<open>src/tcp_conn.h\<close> and \<open>src/tcp_conn.cc\<close>: one established
  connection with its receive buffer, its two send buffers and its status.

  asio is not part of the repository. A call that a connection makes into it (start an
  asynchronous read or write, close the socket, queue a functor on the loop) is appended to
  the list \<open>tc_calls\<close>, in the order the code makes the calls, together with the invocations
  of the connection's callbacks; what asio later delivers is an argument of the handlers
  (an optional error and a byte count). \<open>in_loop\<close> is the value of
  \<open>loop_->IsInLoopThread()\<close> for the calling thread.

  A callback (\<open>std::function\<close>) is an optional function on the connection's state, since the
  application calls the connection back from inside it (\<open>Send\<close>, \<open>Close\<close>, the receive
  buffer). \<open>tc_env\<close> holds whatever else the callbacks can change: the application, the
  owning server or client.
\<close>

section \<open>State\<close>

datatype conn_type = kIncoming | kOutgoing

datatype conn_status = kDisconnected | kConnecting | kConnected | kDisconnecting

datatype asio_error = eof | operation_aborted | other_error nat

type_synonym endpoint = "string \<times> uint16"

text \<open>
  A \<open>tcp::socket\<close> as the code uses it: whether it is open, and what the two endpoint queries
  answer (\<open>None\<close>: they throw).
\<close>

record asio_socket =
  so_open :: bool
  so_local :: "endpoint option"
  so_remote :: "endpoint option"

text \<open>The functors a connection queues on its loop.\<close>

datatype conn_task = TaskClose | TaskSendString "byte list"

datatype conn_call =
    AsyncReadSome size_t size_t    \<comment> \<open>offset into the receive buffer, length\<close>
  | AsyncWriteSome size_t size_t   \<comment> \<open>offset into the writing buffer, length\<close>
  | SocketClose
  | SetNoDelay bool
  | QueueTask conn_task
  | CallConnFn conn_status         \<comment> \<open>\<open>conn_fn_\<close> invoked, with the status it sees\<close>
  | CallMsgFn
  | CallCloseFn
  | CallHighWaterMarkFn size_t
  | Accepted "byte list"           \<comment> \<open>no call: \<open>SendInLoop\<close> took these bytes over\<close>

record 'w tcpconn =
  tc_loop :: nat
  tc_socket :: asio_socket
  tc_type :: conn_type
  tc_status :: conn_status
  tc_name :: string
  tc_local_ep :: endpoint
  tc_remote_ep :: endpoint
  tc_recv_buffer :: bytebuffer
  tc_async_writing :: bool
  tc_write_buffer :: bytebuffer
  tc_writing_buffer :: bytebuffer
  tc_high_water_mark :: size_t
  tc_calls :: "conn_call list"
  tc_env :: 'w

type_synonym 'w conn_fun = "'w tcpconn \<Rightarrow> 'w tcpconn res"

record 'w conn_callbacks =
  conn_fn :: "'w conn_fun option"
  msg_fn :: "'w conn_fun option"
  write_complete_fn :: "'w conn_fun option"
  high_water_mark_fn :: "(size_t \<Rightarrow> 'w conn_fun) option"
  close_fn :: "'w conn_fun option"

definition no_callbacks :: "'w conn_callbacks" where
  "no_callbacks = \<lparr>conn_fn = None, msg_fn = None, write_complete_fn = None,
     high_water_mark_fn = None, close_fn = None\<rparr>"

definition outgoing_call :: "conn_call \<Rightarrow> 'w tcpconn \<Rightarrow> 'w tcpconn" where
  "outgoing_call x c = c\<lparr>tc_calls := tc_calls c @ [x]\<rparr>"

definition is_open :: "'w tcpconn \<Rightarrow> bool" where
  "is_open c = so_open (tc_socket c)"

lemma outgoing_call_sel [simp]:
  "tc_loop (outgoing_call x c) = tc_loop c" "tc_socket (outgoing_call x c) = tc_socket c"
  "tc_type (outgoing_call x c) = tc_type c" "tc_status (outgoing_call x c) = tc_status c"
  "tc_name (outgoing_call x c) = tc_name c" "tc_local_ep (outgoing_call x c) = tc_local_ep c"
  "tc_remote_ep (outgoing_call x c) = tc_remote_ep c"
  "tc_recv_buffer (outgoing_call x c) = tc_recv_buffer c"
  "tc_async_writing (outgoing_call x c) = tc_async_writing c"
  "tc_write_buffer (outgoing_call x c) = tc_write_buffer c"
  "tc_writing_buffer (outgoing_call x c) = tc_writing_buffer c"
  "tc_high_water_mark (outgoing_call x c) = tc_high_water_mark c"
  "tc_calls (outgoing_call x c) = tc_calls c @ [x]" "tc_env (outgoing_call x c) = tc_env c"
  by (simp_all add: outgoing_call_def)

lemma is_open_simps [simp]:
  "is_open (outgoing_call x c) = is_open c"
  "is_open (c\<lparr>tc_socket := s\<rparr>) = so_open s"
  "is_open (c\<lparr>tc_type := t\<rparr>) = is_open c"
  "is_open (c\<lparr>tc_status := st\<rparr>) = is_open c"
  "is_open (c\<lparr>tc_recv_buffer := b\<rparr>) = is_open c"
  "is_open (c\<lparr>tc_write_buffer := b\<rparr>) = is_open c"
  "is_open (c\<lparr>tc_writing_buffer := b\<rparr>) = is_open c"
  "is_open (c\<lparr>tc_async_writing := aw\<rparr>) = is_open c"
  "is_open (c\<lparr>tc_high_water_mark := m\<rparr>) = is_open c"
  "is_open (c\<lparr>tc_env := w\<rparr>) = is_open c"
  by (simp_all add: is_open_def)

text \<open>\<open>socket_.close(ec)\<close>.\<close>

definition socket_close :: "'w tcpconn \<Rightarrow> 'w tcpconn" where
  "socket_close c = outgoing_call SocketClose (c\<lparr>tc_socket := (tc_socket c)\<lparr>so_open := False\<rparr>\<rparr>)"

section \<open>Construction and queries\<close>

text \<open>The constructor. \<open>local_endpoint()\<close> and \<open>remote_endpoint()\<close> throw on failure.\<close>

definition TCPConn_new :: "nat \<Rightarrow> asio_socket \<Rightarrow> string \<Rightarrow> 'w \<Rightarrow> 'w tcpconn res" where
  "TCPConn_new loop sock name env =
     (case so_local sock of
        None \<Rightarrow> Inl SystemError
      | Some lep \<Rightarrow>
          (case so_remote sock of
             None \<Rightarrow> Inl SystemError
           | Some rep \<Rightarrow>
               Inr \<lparr>tc_loop = loop, tc_socket = sock, tc_type = kIncoming,
                    tc_status = kDisconnected, tc_name = name,
                    tc_local_ep = lep, tc_remote_ep = rep,
                    tc_recv_buffer = ByteBuffer_default, tc_async_writing = False,
                    tc_write_buffer = ByteBuffer_default,
                    tc_writing_buffer = ByteBuffer_default,
                    tc_high_water_mark = 32 * 1024 * 1024,
                    tc_calls = [], tc_env = env\<rparr>))"

text \<open>The destructor's assertions.\<close>

definition TCPConn_destroy :: "'w tcpconn \<Rightarrow> unit res" where
  "TCPConn_destroy c =
     rbind (cassert (tc_status c = kDisconnected)) (\<lambda>_. cassert (\<not> is_open c))"

definition IsConnected :: "'w tcpconn \<Rightarrow> bool" where
  "IsConnected c = (tc_status c = kConnected)"

definition IsConnecting :: "'w tcpconn \<Rightarrow> bool" where
  "IsConnecting c = (tc_status c = kConnecting)"

definition IsDisconnected :: "'w tcpconn \<Rightarrow> bool" where
  "IsDisconnected c = (tc_status c = kDisconnected)"

definition IsDisconnecting :: "'w tcpconn \<Rightarrow> bool" where
  "IsDisconnecting c = (tc_status c = kDisconnecting)"

definition IsIncommingConn :: "'w tcpconn \<Rightarrow> bool" where
  "IsIncommingConn c = (tc_type c = kIncoming)"

definition GetLocalAddress :: "'w tcpconn \<Rightarrow> string" where "GetLocalAddress c = fst (tc_local_ep c)"
definition GetLocalPort :: "'w tcpconn \<Rightarrow> uint16" where "GetLocalPort c = snd (tc_local_ep c)"
definition GetRemoteAddress :: "'w tcpconn \<Rightarrow> string" where "GetRemoteAddress c = fst (tc_remote_ep c)"
definition GetRemotePort :: "'w tcpconn \<Rightarrow> uint16" where "GetRemotePort c = snd (tc_remote_ep c)"
definition GetType :: "'w tcpconn \<Rightarrow> conn_type" where "GetType c = tc_type c"
definition GetStatus :: "'w tcpconn \<Rightarrow> conn_status" where "GetStatus c = tc_status c"
definition GetName :: "'w tcpconn \<Rightarrow> string" where "GetName c = tc_name c"

definition SetType :: "conn_type \<Rightarrow> 'w tcpconn \<Rightarrow> 'w tcpconn" where
  "SetType t c = c\<lparr>tc_type := t\<rparr>"

definition SetMessageCallback :: "'w conn_fun option \<Rightarrow> 'w conn_callbacks \<Rightarrow> 'w conn_callbacks" where
  "SetMessageCallback cb cbs = cbs\<lparr>msg_fn := cb\<rparr>"

definition SetConnCallback :: "'w conn_fun option \<Rightarrow> 'w conn_callbacks \<Rightarrow> 'w conn_callbacks" where
  "SetConnCallback cb cbs = cbs\<lparr>conn_fn := cb\<rparr>"

definition SetCloseCallback :: "'w conn_fun option \<Rightarrow> 'w conn_callbacks \<Rightarrow> 'w conn_callbacks" where
  "SetCloseCallback cb cbs = cbs\<lparr>close_fn := cb\<rparr>"

definition SetHighWaterMarkCallback ::
    "(size_t \<Rightarrow> 'w conn_fun) option \<Rightarrow> size_t \<Rightarrow> 'w conn_callbacks \<times> 'w tcpconn
     \<Rightarrow> 'w conn_callbacks \<times> 'w tcpconn" where
  "SetHighWaterMarkCallback cb mark = (\<lambda>(cbs, c).
     (cbs\<lparr>high_water_mark_fn := cb\<rparr>, c\<lparr>tc_high_water_mark := mark\<rparr>))"

definition SetTCPNoDelay :: "bool \<Rightarrow> 'w tcpconn \<Rightarrow> 'w tcpconn" where
  "SetTCPNoDelay on c = outgoing_call (SetNoDelay on) c"

definition Update :: "'w tcpconn \<Rightarrow> bool" where
  "Update c = (if \<not> is_open c then False else True)"

section \<open>Closing\<close>

definition Close :: "'w tcpconn \<Rightarrow> 'w tcpconn" where
  "Close c = outgoing_call (QueueTask TaskClose) (c\<lparr>tc_status := kDisconnecting\<rparr>)"

text \<open>The functor that \<open>Close\<close> queues.\<close>

definition Close_task :: "bool \<Rightarrow> 'w tcpconn \<Rightarrow> 'w tcpconn res" where
  "Close_task in_loop c = rbind (cassert in_loop) (\<lambda>_. Inr (socket_close c))"

definition HandleClose :: "'w conn_callbacks \<Rightarrow> bool \<Rightarrow> 'w tcpconn \<Rightarrow> 'w tcpconn res" where
  "HandleClose cbs in_loop c =
     rbind (cassert in_loop) (\<lambda>_.
     if tc_status c = kDisconnected then Inr c
     else
       let c1 = (if is_open c then socket_close c else c);
           c2 = c1\<lparr>tc_status := kDisconnecting\<rparr>
       in rbind (case conn_fn cbs of
                   None \<Rightarrow> Inr c2
                 | Some f \<Rightarrow>
                     rbind (cassert (tc_status c2 = kDisconnecting))
                       (\<lambda>_. f (outgoing_call (CallConnFn (tc_status c2)) c2)))
            (\<lambda>c3.
          rbind (case close_fn cbs of
                   None \<Rightarrow> Inr c3
                 | Some f \<Rightarrow> f (outgoing_call CallCloseFn c3))
            (\<lambda>c4. Inr (c4\<lparr>tc_status := kDisconnected\<rparr>))))"

definition HandleError :: "'w conn_callbacks \<Rightarrow> bool \<Rightarrow> 'w tcpconn \<Rightarrow> 'w tcpconn res" where
  "HandleError cbs in_loop c = HandleClose cbs in_loop (c\<lparr>tc_status := kDisconnecting\<rparr>)"

section \<open>Reading and writing\<close>

definition AsyncRead :: "'w tcpconn \<Rightarrow> 'w tcpconn" where
  "AsyncRead c =
     outgoing_call (AsyncReadSome (WriteBegin (tc_recv_buffer c)) (ValidSize (tc_recv_buffer c))) c"

definition AsyncWrite :: "'w tcpconn \<Rightarrow> 'w tcpconn" where
  "AsyncWrite c =
     (if tc_async_writing c \<or> Size (tc_writing_buffer c) \<le> 0 then c
      else outgoing_call
             (AsyncWriteSome (ReadBegin (tc_writing_buffer c)) (Size (tc_writing_buffer c)))
             (c\<lparr>tc_async_writing := True\<rparr>))"

definition swap_buffers :: "'w tcpconn \<Rightarrow> 'w tcpconn" where
  "swap_buffers c =
     (let (w, b) = Swap (tc_writing_buffer c) (tc_write_buffer c)
      in c\<lparr>tc_writing_buffer := w, tc_write_buffer := b\<rparr>)"

definition OnAttachedToLoop :: "'w conn_callbacks \<Rightarrow> bool \<Rightarrow> 'w tcpconn \<Rightarrow> 'w tcpconn res" where
  "OnAttachedToLoop cbs in_loop c =
     rbind (cassert in_loop) (\<lambda>_.
     let c1 = c\<lparr>tc_status := kConnected\<rparr>
     in rbind (case conn_fn cbs of
                 None \<Rightarrow> Inl BadFunctionCall
               | Some f \<Rightarrow> f (outgoing_call (CallConnFn (tc_status c1)) c1))
          (\<lambda>c2. Inr (AsyncRead c2)))"

definition SendInLoop :: "'w conn_callbacks \<Rightarrow> bool \<Rightarrow> byte list \<Rightarrow> 'w tcpconn \<Rightarrow> 'w tcpconn res" where
  "SendInLoop cbs in_loop data c =
     rbind (cassert in_loop) (\<lambda>_.
     if \<not> is_open c then Inr c
     else
       let c = outgoing_call (Accepted data) c
       in if \<not> tc_async_writing c
          then
            let c1 = (if Size (tc_write_buffer c) > 0 then swap_buffers c else c)
            in rbind (Write data (tc_writing_buffer c1))
                 (\<lambda>b. Inr (AsyncWrite (c1\<lparr>tc_writing_buffer := b\<rparr>)))
          else
            rbind (Write data (tc_write_buffer c)) (\<lambda>b.
            let c1 = c\<lparr>tc_write_buffer := b\<rparr>;
                buffer_size = Size (tc_write_buffer c1) + Size (tc_writing_buffer c1)
            in if buffer_size > tc_high_water_mark c1
               then (case high_water_mark_fn cbs of
                       None \<Rightarrow> Inr c1
                     | Some f \<Rightarrow>
                         f buffer_size (outgoing_call (CallHighWaterMarkFn buffer_size) c1))
               else Inr c1))"

definition SendStringInLoop :: "'w conn_callbacks \<Rightarrow> bool \<Rightarrow> byte list \<Rightarrow> 'w tcpconn \<Rightarrow> 'w tcpconn res" where
  "SendStringInLoop cbs in_loop message c = SendInLoop cbs in_loop message c"

text \<open>
  \<open>Send\<close>, both overloads: \<open>data\<close> are the bytes of the pointer and size, or of the string.
  \<open>RunInLoop\<close> compares the calling thread with the loop's once more, with the same answer.
\<close>

definition Send :: "'w conn_callbacks \<Rightarrow> bool \<Rightarrow> byte list \<Rightarrow> 'w tcpconn \<Rightarrow> 'w tcpconn res" where
  "Send cbs in_loop data c =
     (if in_loop then SendInLoop cbs in_loop data c
      else if in_loop then SendStringInLoop cbs in_loop data c
      else Inr (outgoing_call (QueueTask (TaskSendString data)) c))"

definition HandleRead ::
    "'w conn_callbacks \<Rightarrow> bool \<Rightarrow> asio_error option \<Rightarrow> size_t \<Rightarrow> 'w tcpconn \<Rightarrow> 'w tcpconn res" where
  "HandleRead cbs in_loop err trans_bytes c =
     (case err of
        Some e \<Rightarrow>
          (if e = eof then HandleClose cbs in_loop (c\<lparr>tc_status := kDisconnecting\<rparr>)
           else HandleError cbs in_loop c)
      | None \<Rightarrow>
          let c1 = c\<lparr>tc_recv_buffer := WriteBytes trans_bytes (tc_recv_buffer c)\<rparr>
          in rbind (case msg_fn cbs of
                      None \<Rightarrow> Inl BadFunctionCall
                    | Some f \<Rightarrow> f (outgoing_call CallMsgFn c1))
               (\<lambda>c2. Inr (AsyncRead c2)))"

definition HandleWrite ::
    "'w conn_callbacks \<Rightarrow> bool \<Rightarrow> asio_error option \<Rightarrow> size_t \<Rightarrow> 'w tcpconn \<Rightarrow> 'w tcpconn res" where
  "HandleWrite cbs in_loop err trans_bytes c =
     (let c0 = c\<lparr>tc_async_writing := False\<rparr> in
      if err \<noteq> None then HandleError cbs in_loop c0
      else
        let c1 = c0\<lparr>tc_writing_buffer := ReadBytes trans_bytes (tc_writing_buffer c0)\<rparr>
        in if Size (tc_writing_buffer c1) > 0 then Inr (AsyncWrite c1)
           else if Size (tc_write_buffer c1) > 0 then Inr (AsyncWrite (swap_buffers c1))
           else Inr c1)"

text \<open>A functor of the connection, run by its loop.\<close>

fun conn_run_task :: "'w conn_callbacks \<Rightarrow> conn_task \<Rightarrow> 'w tcpconn \<Rightarrow> 'w tcpconn res" where
  "conn_run_task cbs TaskClose c = Close_task True c"
| "conn_run_task cbs (TaskSendString d) c = SendStringInLoop cbs True d c"

end
