(* ===== verification/Conn_Contract.thy ===== *)
theory Conn_Contract
  imports Tcp_Conn
begin

text \<open>
  The contract between a connection and the code it calls back, and the invariant of the
  connection that every handler keeps under it.

  \<open>tx_inv\<close> is the invariant of the sending side, \<open>tx_step\<close> what any part of the code other
  than the completion of a write may do to it. A callback is well behaved when it keeps the
  invariant by such steps: \<open>conn_client\<close> states this for the five callbacks of a connection
  and proves, once, that every handler then keeps the invariant too. Its interpretations are
  the applications and the owners (server, client) modelled in the later theories.
\<close>

section \<open>The environment of a connection\<close>

text \<open>
  What the owner of a connection sees of it in \<open>tc_env\<close>: how often the close callback that the
  owner installed has been called. Applications extend the record with what is theirs.
\<close>

record owner_env =
  oe_removed :: nat

section \<open>Reading the list of calls\<close>

fun accepted_bytes :: "conn_call list \<Rightarrow> byte list" where
  "accepted_bytes [] = []"
| "accepted_bytes (Accepted d # xs) = d @ accepted_bytes xs"
| "accepted_bytes (_ # xs) = accepted_bytes xs"

fun write_requests :: "conn_call list \<Rightarrow> (size_t \<times> size_t) list" where
  "write_requests [] = []"
| "write_requests (AsyncWriteSome off n # xs) = (off, n) # write_requests xs"
| "write_requests (_ # xs) = write_requests xs"

fun read_requests :: "conn_call list \<Rightarrow> (size_t \<times> size_t) list" where
  "read_requests [] = []"
| "read_requests (AsyncReadSome off n # xs) = (off, n) # read_requests xs"
| "read_requests (_ # xs) = read_requests xs"

lemma accepted_bytes_append [simp]:
  "accepted_bytes (xs @ ys) = accepted_bytes xs @ accepted_bytes ys"
  by (induction xs rule: accepted_bytes.induct) simp_all

lemma write_requests_append [simp]:
  "write_requests (xs @ ys) = write_requests xs @ write_requests ys"
  by (induction xs rule: write_requests.induct) simp_all

lemma read_requests_append [simp]:
  "read_requests (xs @ ys) = read_requests xs @ read_requests ys"
  by (induction xs rule: read_requests.induct) simp_all

abbreviation accepted :: "'w tcpconn \<Rightarrow> byte list" where
  "accepted c \<equiv> accepted_bytes (tc_calls c)"

abbreviation writes :: "'w tcpconn \<Rightarrow> (size_t \<times> size_t) list" where
  "writes c \<equiv> write_requests (tc_calls c)"

abbreviation reads :: "'w tcpconn \<Rightarrow> (size_t \<times> size_t) list" where
  "reads c \<equiv> read_requests (tc_calls c)"

section \<open>The invariant of the sending side\<close>

text \<open>The bytes taken over and not yet handed to the socket, in sending order.\<close>

definition pending :: "'w tcpconn \<Rightarrow> byte list" where
  "pending c = readable (tc_writing_buffer c) @ readable (tc_write_buffer c)"

text \<open>The write request that covers exactly the unsent part of the writing buffer.\<close>

definition current_request :: "'w tcpconn \<Rightarrow> size_t \<times> size_t" where
  "current_request c = (ReadBegin (tc_writing_buffer c), Size (tc_writing_buffer c))"

definition tx_inv :: "'w tcpconn \<Rightarrow> bool" where
  "tx_inv c \<longleftrightarrow>
     buf_ok (tc_writing_buffer c) \<and> buf_ok (tc_write_buffer c)
   \<and> unat (bb_wpos (tc_writing_buffer c)) + unat (bb_wpos (tc_write_buffer c)) = length (accepted c)
   \<and> (tc_async_writing c \<longrightarrow>
        readable (tc_writing_buffer c) \<noteq> [] \<and> writes c \<noteq> []
        \<and> last (writes c) = current_request c)
   \<and> (is_open c \<and> \<not> tc_async_writing c \<longrightarrow> pending c = [])
   \<and> (length (accepted c) < 2 ^ 60 \<longrightarrow>
        tight (tc_writing_buffer c) \<and> tight (tc_write_buffer c))"

text \<open>
  What happens between two write completions: bytes are only added at the end, a write in
  progress stays in progress and its buffer is left alone, at most one write is started, the
  receive requests are not touched, and a closed socket stays closed.
\<close>

definition tx_step :: "'w tcpconn \<Rightarrow> 'w tcpconn \<Rightarrow> bool" where
  "tx_step c c' \<longleftrightarrow>
     (\<exists>x. accepted c' = accepted c @ x \<and> pending c' = pending c @ x)
   \<and> length (writes c') + of_bool (tc_async_writing c)
       = length (writes c) + of_bool (tc_async_writing c')
   \<and> (tc_async_writing c \<longrightarrow>
        tc_async_writing c' \<and> tc_writing_buffer c' = tc_writing_buffer c)
   \<and> reads c' = reads c
   \<and> (is_open c' \<longrightarrow> is_open c)"

lemma tx_step_refl [simp]: "tx_step c c"
  by (simp add: tx_step_def)

lemma tx_step_trans: "tx_step a b \<Longrightarrow> tx_step b c \<Longrightarrow> tx_step a c"
  by (auto simp: tx_step_def)

text \<open>
  The invariant and the steps only look at the buffers, the writing flag, the socket and the
  four kinds of entries of the call list above.
\<close>

definition same_tx :: "'w tcpconn \<Rightarrow> 'w tcpconn \<Rightarrow> bool" where
  "same_tx c c' \<longleftrightarrow>
     tc_writing_buffer c' = tc_writing_buffer c \<and> tc_write_buffer c' = tc_write_buffer c
   \<and> tc_async_writing c' = tc_async_writing c \<and> accepted c' = accepted c
   \<and> writes c' = writes c \<and> reads c' = reads c \<and> (is_open c' \<longrightarrow> is_open c)"

lemma same_tx_step: "same_tx c c' \<Longrightarrow> tx_step c c'"
  by (auto simp: same_tx_def tx_step_def pending_def)

lemma same_tx_inv: "same_tx c c' \<Longrightarrow> tx_inv c \<Longrightarrow> tx_inv c'"
  by (auto simp: same_tx_def tx_inv_def pending_def current_request_def)

lemma same_tx_socket_close [simp]: "same_tx c (socket_close c)"
  by (simp add: same_tx_def socket_close_def outgoing_call_def is_open_def)

lemma same_tx_status [simp]: "same_tx c (c\<lparr>tc_status := s\<rparr>)"
  by (simp add: same_tx_def is_open_def)

lemma same_tx_Close [simp]: "same_tx c (Close c)"
  by (simp add: same_tx_def Close_def outgoing_call_def is_open_def)

lemma same_tx_NoDelay [simp]: "same_tx c (SetTCPNoDelay on c)"
  by (simp add: same_tx_def SetTCPNoDelay_def outgoing_call_def is_open_def)

lemma same_tx_recv [simp]: "same_tx c (c\<lparr>tc_recv_buffer := b\<rparr>)"
  by (simp add: same_tx_def is_open_def)

lemma same_tx_mark [simp]: "same_tx c (c\<lparr>tc_high_water_mark := m\<rparr>)"
  by (simp add: same_tx_def)

lemma same_tx_env [simp]: "same_tx c (c\<lparr>tc_env := w\<rparr>)"
  by (simp add: same_tx_def is_open_def)

lemma same_tx_log [simp]:
  "same_tx c (outgoing_call (CallConnFn s) c)"
  "same_tx c (outgoing_call CallMsgFn c)"
  "same_tx c (outgoing_call CallCloseFn c)"
  "same_tx c (outgoing_call (CallHighWaterMarkFn n) c)"
  "same_tx c (outgoing_call (QueueTask t) c)"
  by (simp_all add: same_tx_def outgoing_call_def is_open_def)

lemma same_tx_refl [simp]: "same_tx c c"
  by (simp add: same_tx_def)

lemma same_tx_trans: "same_tx a b \<Longrightarrow> same_tx b c \<Longrightarrow> same_tx a c"
  by (simp add: same_tx_def)


section \<open>Well-behaved callbacks\<close>

text \<open>
  A callback may do anything that keeps the invariant by steps of the kind above. Only the
  message callback is handed the receive buffer; the others have no access to it.
\<close>

definition cb_ok :: "'w conn_fun \<Rightarrow> bool" where
  "cb_ok f \<longleftrightarrow> (\<forall>c c'. tx_inv c \<longrightarrow> f c = Inr c' \<longrightarrow>
     tx_inv c' \<and> tx_step c c' \<and> tc_recv_buffer c' = tc_recv_buffer c)"

definition msg_cb_ok :: "'w conn_fun \<Rightarrow> bool" where
  "msg_cb_ok f \<longleftrightarrow> (\<forall>c c'. tx_inv c \<longrightarrow> f c = Inr c' \<longrightarrow>
     tx_inv c' \<and> tx_step c c' \<and> (buf_ok (tc_recv_buffer c) \<longrightarrow> buf_ok (tc_recv_buffer c')))"

lemma cb_okD:
  "cb_ok f \<Longrightarrow> tx_inv c \<Longrightarrow> f c = Inr c' \<Longrightarrow> tx_inv c'"
  "cb_ok f \<Longrightarrow> tx_inv c \<Longrightarrow> f c = Inr c' \<Longrightarrow> tx_step c c'"
  "cb_ok f \<Longrightarrow> tx_inv c \<Longrightarrow> f c = Inr c' \<Longrightarrow> tc_recv_buffer c' = tc_recv_buffer c"
  unfolding cb_ok_def by blast+

lemma cb_okI:
  assumes "\<And>c c'. tx_inv c \<Longrightarrow> f c = Inr c' \<Longrightarrow>
    tx_inv c' \<and> tx_step c c' \<and> tc_recv_buffer c' = tc_recv_buffer c"
  shows "cb_ok f"
  unfolding cb_ok_def using assms by blast

text \<open>Two callbacks in a row are one.\<close>

lemma cb_ok_rbind:
  assumes "cb_ok f" and "cb_ok g"
  shows "cb_ok (\<lambda>c. rbind (f c) g)"
proof (rule cb_okI)
  fix c c'
  assume inv: "tx_inv c" and "rbind (f c) g = Inr c'"
  then obtain d where d: "f c = Inr d" and c': "g d = Inr c'" by auto
  note f = cb_okD [OF assms(1) inv d]
  note g = cb_okD [OF assms(2) f(1) c']
  show "tx_inv c' \<and> tx_step c c' \<and> tc_recv_buffer c' = tc_recv_buffer c"
    using f g tx_step_trans by metis
qed

lemma cb_ok_Inr [simp]: "cb_ok Inr"
  by (rule cb_okI) simp

lemma cb_ok_same_tx:
  "(\<And>c. same_tx c (f c)) \<Longrightarrow> (\<And>c. tc_recv_buffer (f c) = tc_recv_buffer c) \<Longrightarrow>
   cb_ok (\<lambda>c. Inr (f c))"
  by (rule cb_okI) (auto intro: same_tx_inv same_tx_step)

lemma msg_cb_okI:
  assumes "\<And>c c'. tx_inv c \<Longrightarrow> f c = Inr c' \<Longrightarrow>
    tx_inv c' \<and> tx_step c c' \<and> (buf_ok (tc_recv_buffer c) \<longrightarrow> buf_ok (tc_recv_buffer c'))"
  shows "msg_cb_ok f"
  unfolding msg_cb_ok_def using assms by blast

lemma msg_cb_okD:
  "msg_cb_ok f \<Longrightarrow> tx_inv c \<Longrightarrow> f c = Inr c' \<Longrightarrow> tx_inv c'"
  "msg_cb_ok f \<Longrightarrow> tx_inv c \<Longrightarrow> f c = Inr c' \<Longrightarrow> tx_step c c'"
  "msg_cb_ok f \<Longrightarrow> tx_inv c \<Longrightarrow> f c = Inr c' \<Longrightarrow>
     buf_ok (tc_recv_buffer c) \<Longrightarrow> buf_ok (tc_recv_buffer c')"
  unfolding msg_cb_ok_def by blast+

lemma msg_cb_ok_rbind:
  assumes "msg_cb_ok f" and "msg_cb_ok g"
  shows "msg_cb_ok (\<lambda>c. rbind (f c) g)"
proof (rule msg_cb_okI)
  fix c c'
  assume inv: "tx_inv c" and "rbind (f c) g = Inr c'"
  then obtain d where d: "f c = Inr d" and c': "g d = Inr c'" by auto
  note f = msg_cb_okD [OF assms(1) inv d]
  note g = msg_cb_okD [OF assms(2) f(1) c']
  show "tx_inv c' \<and> tx_step c c' \<and> (buf_ok (tc_recv_buffer c) \<longrightarrow> buf_ok (tc_recv_buffer c'))"
    using f g tx_step_trans by metis
qed

lemma cb_ok_msg: "cb_ok f \<Longrightarrow> msg_cb_ok f"
proof (rule msg_cb_okI)
  fix c c'
  assume "cb_ok f" and "tx_inv c" and "f c = Inr c'"
  note f = cb_okD [OF this]
  show "tx_inv c' \<and> tx_step c c' \<and> (buf_ok (tc_recv_buffer c) \<longrightarrow> buf_ok (tc_recv_buffer c'))"
    using f by simp
qed

section \<open>Handlers that call nothing back\<close>

text \<open>
  \<open>AsyncWrite\<close> on an idle connection: it starts a write exactly when the writing buffer is
  not empty, and leads into the invariant.
\<close>

lemma AsyncWrite_idle:
  assumes idle: "\<not> tc_async_writing c"
    and ok: "buf_ok (tc_writing_buffer c)" "buf_ok (tc_write_buffer c)"
    and total: "unat (bb_wpos (tc_writing_buffer c)) + unat (bb_wpos (tc_write_buffer c))
      = length (accepted c)"
    and order: "is_open c \<longrightarrow> readable (tc_writing_buffer c) = [] \<longrightarrow> readable (tc_write_buffer c) = []"
    and storage: "length (accepted c) < 2 ^ 60 \<longrightarrow>
      tight (tc_writing_buffer c) \<and> tight (tc_write_buffer c)"
  shows "tx_inv (AsyncWrite c)"
    and "accepted (AsyncWrite c) = accepted c"
    and "pending (AsyncWrite c) = pending c"
    and "reads (AsyncWrite c) = reads c"
    and "is_open (AsyncWrite c) = is_open c"
    and "tc_recv_buffer (AsyncWrite c) = tc_recv_buffer c"
    and "length (writes (AsyncWrite c)) = length (writes c) + of_bool (tc_async_writing (AsyncWrite c))"
    and "tc_async_writing (AsyncWrite c) \<longleftrightarrow> readable (tc_writing_buffer c) \<noteq> []"
  using assms Size_eq_0 [OF ok(1)]
  by (auto simp: AsyncWrite_def outgoing_call_def tx_inv_def pending_def is_open_def
      current_request_def)

lemma AsyncRead_same:
  "accepted (AsyncRead c) = accepted c" "pending (AsyncRead c) = pending c"
  "writes (AsyncRead c) = writes c" "is_open (AsyncRead c) = is_open c"
  "tc_async_writing (AsyncRead c) = tc_async_writing c"
  "tc_writing_buffer (AsyncRead c) = tc_writing_buffer c"
  "tc_write_buffer (AsyncRead c) = tc_write_buffer c"
  "tc_recv_buffer (AsyncRead c) = tc_recv_buffer c"
  "tc_status (AsyncRead c) = tc_status c"
  "reads (AsyncRead c) = reads c @ [(WriteBegin (tc_recv_buffer c), ValidSize (tc_recv_buffer c))]"
  by (simp_all add: AsyncRead_def outgoing_call_def pending_def is_open_def)

lemma AsyncRead_inv: "tx_inv (AsyncRead c) = tx_inv c"
  by (simp add: tx_inv_def AsyncRead_same current_request_def)

lemma Close_task_ok: "Close_task in_loop c = Inr c' \<Longrightarrow> same_tx c c' \<and> \<not> is_open c'"
  by (auto simp: Close_task_def) (simp add: socket_close_def outgoing_call_def is_open_def)

text \<open>
  The completion of a write: the request is consumed, and the next one (the rest of the same
  buffer, or the other buffer) covers the bytes that follow.
\<close>

lemma HandleWrite_done:
  assumes inv: "tx_inv c" and aw: "tc_async_writing c"
    and n: "unat n \<le> length (readable (tc_writing_buffer c))"
    and run: "HandleWrite cbs in_loop None n c = Inr c'"
  shows "tx_inv c'" and "accepted c' = accepted c" and "pending c' = drop (unat n) (pending c)"
    and "reads c' = reads c" and "is_open c' = is_open c" and "tc_recv_buffer c' = tc_recv_buffer c"
    and "length (writes c') = length (writes c) + of_bool (tc_async_writing c')"
proof -
  let ?W = "tc_writing_buffer c" and ?B = "tc_write_buffer c"
  have ok: "buf_ok ?W" "buf_ok ?B" using inv by (simp_all add: tx_inv_def)
  let ?W1 = "ReadBytes n ?W"
  let ?c1 = "c\<lparr>tc_async_writing := False, tc_writing_buffer := ?W1\<rparr>"
  note pop = fifo.pop_inv [OF ok(1) n] fifo.pop_content [OF ok(1) n]
  have wp: "bb_wpos ?W1 = bb_wpos ?W" by (simp add: ReadBytes_def)
  have pend: "readable ?W1 @ readable ?B = drop (unat n) (pending c)"
    unfolding pending_def by (rule fifo.pop_front(2) [OF ok(1) n])
  have nonempty: "0 < Size ?W1 \<longleftrightarrow> readable ?W1 \<noteq> []" "0 < Size ?B \<longleftrightarrow> readable ?B \<noteq> []"
    using Size_gt_0 pop(1) ok(2) by auto
  have total: "unat (bb_wpos ?W) + unat (bb_wpos ?B) = length (accepted c)"
    using inv by (simp add: tx_inv_def)
  have sto: "length (accepted c) < 2 ^ 60 \<longrightarrow> tight ?W \<and> tight ?B"
    using inv by (simp add: tx_inv_def)
  define c2 where "c2 = (if readable ?W1 = [] \<and> readable ?B \<noteq> [] then swap_buffers ?c1 else ?c1)"
  have c': "c' = AsyncWrite c2"
  proof (cases "readable ?W1 = [] \<and> readable ?B = []")
    case True
    then have "Size ?W1 = 0" using Size_eq_0 pop(1) by blast
    then have "AsyncWrite ?c1 = ?c1" by (simp add: AsyncWrite_def)
    then show ?thesis using run True nonempty by (simp add: HandleWrite_def c2_def)
  next
    case False
    then show ?thesis using run nonempty by (auto simp: HandleWrite_def c2_def)
  qed
  have c2: "\<not> tc_async_writing c2" "buf_ok (tc_writing_buffer c2)" "buf_ok (tc_write_buffer c2)"
    "unat (bb_wpos (tc_writing_buffer c2)) + unat (bb_wpos (tc_write_buffer c2)) = length (accepted c2)"
    "is_open c2 \<longrightarrow> readable (tc_writing_buffer c2) = [] \<longrightarrow> readable (tc_write_buffer c2) = []"
    "length (accepted c2) < 2 ^ 60 \<longrightarrow> tight (tc_writing_buffer c2) \<and> tight (tc_write_buffer c2)"
    "accepted c2 = accepted c" "writes c2 = writes c" "reads c2 = reads c" "is_open c2 = is_open c"
    "tc_recv_buffer c2 = tc_recv_buffer c" "pending c2 = readable ?W1 @ readable ?B"
    using pop ok total wp sto by (auto simp: c2_def swap_buffers_def pending_def is_open_def)
  note aw = AsyncWrite_idle [OF c2(1-6)]
  show "tx_inv c'" "accepted c' = accepted c" "pending c' = drop (unat n) (pending c)"
    "reads c' = reads c" "is_open c' = is_open c" "tc_recv_buffer c' = tc_recv_buffer c"
    "length (writes c') = length (writes c) + of_bool (tc_async_writing c')"
    unfolding c' using aw c2 pend by simp_all
qed


section \<open>The contract of a connection's callbacks\<close>

text \<open>\<open>SendInLoop\<close> without its callback: the part that changes the buffers.\<close>

lemma SendInLoop_idle:
  assumes inv: "tx_inv c" and op: "is_open c" and idle: "\<not> tc_async_writing c"
    and run: "SendInLoop cbs in_loop d c = Inr c'"
  shows "tx_inv c'" and "tx_step c c'" and "tc_recv_buffer c' = tc_recv_buffer c"
proof -
  let ?W = "tc_writing_buffer c" and ?B = "tc_write_buffer c"
  have ok: "buf_ok ?W" "buf_ok ?B" and empty: "readable ?W = []" "readable ?B = []"
    and total: "unat (bb_wpos ?W) + unat (bb_wpos ?B) = length (accepted c)"
    and sto: "length (accepted c) < 2 ^ 60 \<longrightarrow> tight ?W \<and> tight ?B"
    using inv op idle by (simp_all add: tx_inv_def pending_def)
  have "\<not> 0 < Size ?B" using ok empty Size_gt_0 by blast
  with run op idle obtain b where b: "Write d ?W = Inr b"
    and c': "c' = AsyncWrite ((outgoing_call (Accepted d) c)\<lparr>tc_writing_buffer := b\<rparr>)"
    by (auto simp: SendInLoop_def Let_def)
  note w = Write_InrD [OF ok(1) b]
  let ?c1 = "(outgoing_call (Accepted d) c)\<lparr>tc_writing_buffer := b\<rparr>"
  have c1: "\<not> tc_async_writing ?c1" "buf_ok (tc_writing_buffer ?c1)" "buf_ok (tc_write_buffer ?c1)"
    "unat (bb_wpos (tc_writing_buffer ?c1)) + unat (bb_wpos (tc_write_buffer ?c1)) = length (accepted ?c1)"
    "is_open ?c1 \<longrightarrow> readable (tc_writing_buffer ?c1) = [] \<longrightarrow> readable (tc_write_buffer ?c1) = []"
    "length (accepted ?c1) < 2 ^ 60 \<longrightarrow> tight (tc_writing_buffer ?c1) \<and> tight (tc_write_buffer ?c1)"
    using idle ok empty total w sto Write_tight [OF ok(1) _ _ b] by auto
  note aw = AsyncWrite_idle [OF c1]
  show "tx_inv c'" unfolding c' by (rule aw(1))
  show "tc_recv_buffer c' = tc_recv_buffer c" unfolding c' using aw(6) by simp
  have "accepted c' = accepted c @ d" "pending c' = pending c @ d" "reads c' = reads c"
    "is_open c' = is_open c"
    unfolding c' aw(2,3,4,5) using empty w by (simp_all add: pending_def)
  moreover have "length (writes c') = length (writes c) + of_bool (tc_async_writing c')"
    unfolding c' aw(7) by simp
  ultimately show "tx_step c c'" using idle by (auto simp: tx_step_def)
qed

text \<open>The same when a write is in progress, up to the high-water-mark callback.\<close>

definition send_queued :: "byte list \<Rightarrow> bytebuffer \<Rightarrow> 'w tcpconn \<Rightarrow> 'w tcpconn" where
  "send_queued d b c = (outgoing_call (Accepted d) c)\<lparr>tc_write_buffer := b\<rparr>"

lemma send_queued_step:
  assumes inv: "tx_inv c" and aw: "tc_async_writing c" and b: "Write d (tc_write_buffer c) = Inr b"
  shows "tx_inv (send_queued d b c)" and "tx_step c (send_queued d b c)"
    and "tc_recv_buffer (send_queued d b c) = tc_recv_buffer c"
proof -
  have "buf_ok (tc_write_buffer c)" using inv by (simp add: tx_inv_def)
  note w = Write_InrD [OF this b]
  show "tx_inv (send_queued d b c)"
    using inv aw w Write_tight [OF _ _ _ b] by (auto simp: send_queued_def tx_inv_def current_request_def)
  show "tx_step c (send_queued d b c)"
    using aw w by (simp add: send_queued_def tx_step_def pending_def)
  show "tc_recv_buffer (send_queued d b c) = tc_recv_buffer c"
    by (simp add: send_queued_def)
qed

lemma SendInLoop_busy:
  assumes "is_open c" and "tc_async_writing c" and "SendInLoop cbs in_loop d c = Inr c'"
  obtains b where "Write d (tc_write_buffer c) = Inr b"
    and "c' = send_queued d b c \<or>
      (\<exists>f n. high_water_mark_fn cbs = Some f \<and>
         f n (outgoing_call (CallHighWaterMarkFn n) (send_queued d b c)) = Inr c')"
  using assms
  by (auto simp: SendInLoop_def Let_def send_queued_def split: if_splits option.splits)

text \<open>The state in which \<open>HandleClose\<close> calls back.\<close>

definition closing :: "'w tcpconn \<Rightarrow> 'w tcpconn" where
  "closing c = (if is_open c then socket_close c else c)\<lparr>tc_status := kDisconnecting\<rparr>"

lemma closing_sel [simp]:
  "tc_writing_buffer (closing c) = tc_writing_buffer c"
  "tc_write_buffer (closing c) = tc_write_buffer c"
  "tc_async_writing (closing c) = tc_async_writing c"
  "tc_recv_buffer (closing c) = tc_recv_buffer c"
  "accepted (closing c) = accepted c" "writes (closing c) = writes c" "reads (closing c) = reads c"
  "\<not> is_open (closing c)"
  "tc_status (closing c) = kDisconnecting"
  "current_request (closing c) = current_request c"
  by (simp_all add: closing_def socket_close_def current_request_def)

lemma same_tx_closing [simp]: "same_tx c (closing c)"
  by (simp add: same_tx_def)

locale conn_client =
  fixes cbs :: "'w conn_callbacks"
  assumes conn_fn_ok: "conn_fn cbs = Some f \<Longrightarrow> cb_ok f"
    and msg_fn_ok: "msg_fn cbs = Some f \<Longrightarrow> msg_cb_ok f"
    and hwm_fn_ok: "high_water_mark_fn cbs = Some h \<Longrightarrow> cb_ok (h n)"
    and close_fn_ok: "close_fn cbs = Some f \<Longrightarrow> cb_ok f"
begin

text \<open>Sending is itself a well-behaved thing to do in a callback.\<close>

lemma SendInLoop_ok: "cb_ok (SendInLoop cbs in_loop d)"
proof (rule cb_okI)
  fix c c' :: "'w tcpconn"
  assume inv: "tx_inv c" and run: "SendInLoop cbs in_loop d c = Inr c'"
  consider "\<not> is_open c" | "is_open c" "\<not> tc_async_writing c" | "is_open c" "tc_async_writing c"
    by blast
  then show "tx_inv c' \<and> tx_step c c' \<and> tc_recv_buffer c' = tc_recv_buffer c"
  proof cases
    case 1
    with run have "c' = c" by (simp add: SendInLoop_def)
    with inv show ?thesis by simp
  next
    case 2
    show ?thesis using SendInLoop_idle [OF inv 2 run] by simp
  next
    case 3
    from SendInLoop_busy [OF 3 run] obtain b where b: "Write d (tc_write_buffer c) = Inr b"
      and c': "c' = send_queued d b c \<or> (\<exists>f n. high_water_mark_fn cbs = Some f \<and>
        f n (outgoing_call (CallHighWaterMarkFn n) (send_queued d b c)) = Inr c')" .
    note q = send_queued_step [OF inv 3(2) b]
    from c' show ?thesis
    proof
      assume "c' = send_queued d b c"
      with q show ?thesis by simp
    next
      assume "\<exists>f n. high_water_mark_fn cbs = Some f \<and>
        f n (outgoing_call (CallHighWaterMarkFn n) (send_queued d b c)) = Inr c'"
      then obtain f n where f: "high_water_mark_fn cbs = Some f"
        and r: "f n (outgoing_call (CallHighWaterMarkFn n) (send_queued d b c)) = Inr c'" by blast
      have l: "same_tx (send_queued d b c) (outgoing_call (CallHighWaterMarkFn n) (send_queued d b c))"
        by simp
      note h = cb_okD [OF hwm_fn_ok [OF f] same_tx_inv [OF l q(1)] r]
      have "tx_step c c'"
        using q(2) same_tx_step [OF l] h(2) tx_step_trans by metis
      then show ?thesis using h q(3) by simp
    qed
  qed
qed

lemma Send_ok: "cb_ok (Send cbs in_loop d)"
  using SendInLoop_ok cb_ok_same_tx [of "outgoing_call (QueueTask (TaskSendString d))"]
  by (cases in_loop) (simp_all add: Send_def [abs_def])

text \<open>Invoking an optional callback after noting the call.\<close>

lemma optional_callback_ok:
  assumes "\<And>f. cb = Some f \<Longrightarrow> cb_ok f" and "\<And>c :: 'w tcpconn. same_tx c (note_call c)"
    and "\<And>c. tc_recv_buffer (note_call c) = tc_recv_buffer c"
  shows "cb_ok (\<lambda>c. case cb of None \<Rightarrow> Inr c | Some f \<Rightarrow> f (note_call c))"
proof (cases cb)
  case None
  then show ?thesis by simp
next
  case (Some f)
  have "cb_ok (\<lambda>c. rbind (Inr (note_call c)) f)"
    using cb_ok_rbind [OF cb_ok_same_tx [of note_call, OF assms(2,3)] assms(1) [OF Some]] .
  then show ?thesis using Some by simp
qed

text \<open>
  Closing, from the state with the socket closed on. This is all that is needed of the
  invariant: a failed write leaves unsent bytes behind, and its error path closes the socket
  before it calls anybody back.
\<close>

lemma HandleClose_from:
  assumes inv: "tx_inv (closing c)" and st: "tc_status c \<noteq> kDisconnected"
    and run: "HandleClose cbs in_loop c = Inr c'"
  shows "tx_inv c'" and "tx_step (closing c) c'" and "tc_recv_buffer c' = tc_recv_buffer c"
    and "tc_status c' = kDisconnected" and "\<not> is_open c'"
proof -
  let ?cb1 = "\<lambda>c. case conn_fn cbs of None \<Rightarrow> Inr c
    | Some f \<Rightarrow> f (outgoing_call (CallConnFn kDisconnecting) c)"
  let ?cb2 = "\<lambda>c. case close_fn cbs of None \<Rightarrow> Inr c
    | Some f \<Rightarrow> f (outgoing_call CallCloseFn c)"
  let ?last = "\<lambda>c. Inr (c\<lparr>tc_status := kDisconnected\<rparr>) :: 'w tcpconn res"
  have "cb_ok ?cb1" and "cb_ok ?cb2"
    by (rule optional_callback_ok; simp add: conn_fn_ok close_fn_ok)+
  then have cb: "cb_ok (\<lambda>c. rbind (rbind (?cb1 c) ?cb2) ?last)"
    by (intro cb_ok_rbind cb_ok_same_tx) simp_all
  have r: "rbind (rbind (?cb1 (closing c)) ?cb2) ?last = Inr c'"
    using run st by (auto simp: HandleClose_def Let_def closing_def split: option.splits if_splits)
  note k = cb_okD [OF cb inv r]
  show "tx_inv c'" "tx_step (closing c) c'" by (fact k)+
  show "tc_recv_buffer c' = tc_recv_buffer c" using k(3) by simp
  show "tc_status c' = kDisconnected" using r by auto
  show "\<not> is_open c'" using k(2) by (auto simp: tx_step_def)
qed

lemma HandleClose_ok: "cb_ok (HandleClose cbs in_loop)"
proof (rule cb_okI)
  fix c c' :: "'w tcpconn"
  assume inv: "tx_inv c" and run: "HandleClose cbs in_loop c = Inr c'"
  show "tx_inv c' \<and> tx_step c c' \<and> tc_recv_buffer c' = tc_recv_buffer c"
  proof (cases "tc_status c = kDisconnected")
    case True
    with run inv show ?thesis by (simp add: HandleClose_def)
  next
    case False
    have s: "same_tx c (closing c)" by simp
    note h = HandleClose_from [OF same_tx_inv [OF s inv] False run]
    show ?thesis using h tx_step_trans [OF same_tx_step [OF s] h(2)] by simp
  qed
qed

lemma HandleError_ok: "cb_ok (HandleError cbs in_loop)"
proof -
  have "cb_ok (\<lambda>c. rbind (Inr (c\<lparr>tc_status := kDisconnecting\<rparr>)) (HandleClose cbs in_loop))"
    by (intro cb_ok_rbind cb_ok_same_tx HandleClose_ok) simp_all
  then show ?thesis by (simp add: HandleError_def [abs_def])
qed

text \<open>A failed write: the socket is closed, the unsent bytes are dropped where they are.\<close>

lemma HandleWrite_failed:
  assumes inv: "tx_inv c" and run: "HandleWrite cbs in_loop (Some e) n c = Inr c'"
  shows "tx_inv c'" and "\<exists>x. accepted c' = accepted c @ x \<and> pending c' = pending c @ x"
    and "length (writes c') = length (writes c) + of_bool (tc_async_writing c')"
    and "reads c' = reads c" and "\<not> is_open c'" and "tc_recv_buffer c' = tc_recv_buffer c"
    and "tc_status c' = kDisconnected"
proof -
  let ?c0 = "c\<lparr>tc_async_writing := False, tc_status := kDisconnecting\<rparr>"
  have i: "tx_inv (closing ?c0)"
    using inv by (simp add: tx_inv_def pending_def)
  have r: "HandleClose cbs in_loop ?c0 = Inr c'"
    using run by (simp add: HandleWrite_def HandleError_def)
  note h = HandleClose_from [OF i _ r]
  have t: "tx_step (closing ?c0) c'" by (rule h(2)) simp
  show "tx_inv c'" "\<not> is_open c'" "tc_recv_buffer c' = tc_recv_buffer c" "tc_status c' = kDisconnected"
    using h by simp_all
  show "\<exists>x. accepted c' = accepted c @ x \<and> pending c' = pending c @ x"
    and "length (writes c') = length (writes c) + of_bool (tc_async_writing c')"
    and "reads c' = reads c"
    using t by (auto simp: tx_step_def pending_def)
qed

lemma OnAttachedToLoop_ok:
  assumes inv: "tx_inv c" and run: "OnAttachedToLoop cbs in_loop c = Inr c'"
  shows "tx_inv c'" and "tc_recv_buffer c' = tc_recv_buffer c"
    and "\<exists>d. tx_step c d \<and> c' = AsyncRead d"
proof -
  from run obtain f d where f: "conn_fn cbs = Some f"
    and d: "f (outgoing_call (CallConnFn kConnected) (c\<lparr>tc_status := kConnected\<rparr>)) = Inr d"
    and c': "c' = AsyncRead d"
    by (auto simp: OnAttachedToLoop_def Let_def split: option.splits)
  have s: "same_tx c (outgoing_call (CallConnFn kConnected) (c\<lparr>tc_status := kConnected\<rparr>))"
    using same_tx_trans [OF same_tx_status same_tx_log(1)] .
  note k = cb_okD [OF conn_fn_ok [OF f] same_tx_inv [OF s inv] d]
  show "tx_inv c'" using k by (simp add: c' AsyncRead_inv)
  show "tc_recv_buffer c' = tc_recv_buffer c" using k by (simp add: c' AsyncRead_same)
  show "\<exists>d. tx_step c d \<and> c' = AsyncRead d"
    using c' k(2) tx_step_trans [OF same_tx_step [OF s]] by blast
qed

lemma HandleRead_data:
  assumes inv: "tx_inv c" and run: "HandleRead cbs in_loop None n c = Inr c'"
  shows "tx_inv c'" and "\<exists>d. tx_step c d \<and> c' = AsyncRead d"
    and "buf_ok (WriteBytes n (tc_recv_buffer c)) \<Longrightarrow> buf_ok (tc_recv_buffer c')"
proof -
  let ?c1 = "outgoing_call CallMsgFn (c\<lparr>tc_recv_buffer := WriteBytes n (tc_recv_buffer c)\<rparr>)"
  from run obtain f d where f: "msg_fn cbs = Some f" and d: "f ?c1 = Inr d" and c': "c' = AsyncRead d"
    by (auto simp: HandleRead_def Let_def split: option.splits)
  have s: "same_tx c ?c1"
    using same_tx_trans [OF same_tx_recv same_tx_log(2)] .
  note k = msg_cb_okD [OF msg_fn_ok [OF f] same_tx_inv [OF s inv] d]
  show "tx_inv c'" using k by (simp add: c' AsyncRead_inv)
  show "\<exists>d. tx_step c d \<and> c' = AsyncRead d"
    using c' k(2) tx_step_trans [OF same_tx_step [OF s]] by blast
  show "buf_ok (tc_recv_buffer c')" if "buf_ok (WriteBytes n (tc_recv_buffer c))"
    using k(3) that by (simp add: c' AsyncRead_same)
qed

lemma HandleRead_failed:
  assumes inv: "tx_inv c" and run: "HandleRead cbs in_loop (Some e) n c = Inr c'"
  shows "tx_inv c'" and "tx_step c c'" and "tc_recv_buffer c' = tc_recv_buffer c"
    and "\<not> is_open c'" and "tc_status c' = kDisconnected"
proof -
  let ?c0 = "c\<lparr>tc_status := kDisconnecting\<rparr>"
  have s: "same_tx c (closing ?c0)"
    using same_tx_trans [OF same_tx_status same_tx_closing] .
  have r: "HandleClose cbs in_loop ?c0 = Inr c'"
    using run by (simp add: HandleRead_def HandleError_def split: if_splits)
  note h = HandleClose_from [OF same_tx_inv [OF s inv] _ r]
  show "tx_inv c'" "tc_recv_buffer c' = tc_recv_buffer c" "\<not> is_open c'" "tc_status c' = kDisconnected"
    using h by simp_all
  show "tx_step c c'" using h(2) tx_step_trans [OF same_tx_step [OF s]] by simp
qed

end

section \<open>The owner of a connection\<close>

text \<open>The close callback that the owner of a connection (\<open>TCPServer\<close>, \<open>TCPClient\<close>) binds, as the
  connection sees it.\<close>

definition owner_close_fn :: "'m owner_env_scheme conn_fun" where
  "owner_close_fn c = Inr (c\<lparr>tc_env := (tc_env c)\<lparr>oe_removed := Suc (oe_removed (tc_env c))\<rparr>\<rparr>)"

end
