(* ===== verification/Conn_System.thy ===== *)
theory Conn_System
  imports Conn_Contract
begin

text \<open>
  A connection together with what asio does for it. A state is the connection, the bytes the
  socket has accepted so far, and how many of the requests in \<open>tc_calls\<close> have completed;
  an event is a call of the public interface or the run of a completion handler.

  What is assumed of asio is its documentation: each asynchronous request completes once, a
  write of at most the bytes it was given, read from the buffer no later than the completion;
  a read of at most the bytes it was given room for, placed in the buffer before the handler
  runs; a queued functor runs once. The order of completions is arbitrary, and so is the
  order of queued functors.
\<close>

section \<open>Events and steps\<close>

datatype conn_event =
    EvAttached                   \<comment> \<open>the owner's \<open>OnAttachedToLoop\<close>\<close>
  | EvSend "byte list"           \<comment> \<open>\<open>Send\<close> on the loop's thread\<close>
  | EvSendOther "byte list"      \<comment> \<open>\<open>Send\<close> on another thread\<close>
  | EvClose                      \<comment> \<open>\<open>Close\<close>\<close>
  | EvSetMark size_t             \<comment> \<open>\<open>SetHighWaterMarkCallback\<close>: the same callback, a new mark\<close>
  | EvSetNoDelay bool            \<comment> \<open>\<open>SetTCPNoDelay\<close>\<close>
  | EvTask nat                   \<comment> \<open>a queued functor, by its position\<close>
  | EvWriteDone size_t           \<comment> \<open>\<open>HandleWrite\<close> without error\<close>
  | EvWriteFailed asio_error     \<comment> \<open>\<open>HandleWrite\<close> with an error\<close>
  | EvReadDone "byte list"       \<comment> \<open>\<open>HandleRead\<close> without error\<close>
  | EvReadFailed asio_error      \<comment> \<open>\<open>HandleRead\<close> with an error\<close>

record 'w conn_sys =
  cs_conn :: "'w tcpconn"
  cs_delivered :: "byte list"
  cs_writes_done :: nat
  cs_reads_done :: nat
  cs_tasks_done :: "nat list"

fun queued_tasks :: "conn_call list \<Rightarrow> conn_task list" where
  "queued_tasks [] = []"
| "queued_tasks (QueueTask t # xs) = t # queued_tasks xs"
| "queued_tasks (_ # xs) = queued_tasks xs"

abbreviation tasks :: "'w tcpconn \<Rightarrow> conn_task list" where
  "tasks c \<equiv> queued_tasks (tc_calls c)"

text \<open>How often the owner's close callback has run.\<close>

abbreviation removed_of :: "'m owner_env_scheme conn_sys \<Rightarrow> nat" where
  "removed_of cs \<equiv> oe_removed (tc_env (cs_conn cs))"

fun enabled :: "conn_event \<Rightarrow> 'w conn_sys \<Rightarrow> bool" where
  "enabled EvAttached s = (reads (cs_conn s) = [])"
| "enabled (EvSend d) s = True"
| "enabled (EvSendOther d) s = True"
| "enabled EvClose s = True"
| "enabled (EvSetMark n) s = True"
| "enabled (EvSetNoDelay on) s = True"
| "enabled (EvTask i) s = (i < length (tasks (cs_conn s)) \<and> i \<notin> set (cs_tasks_done s))"
| "enabled (EvWriteDone n) s =
     (cs_writes_done s < length (writes (cs_conn s)) \<and> n \<le> snd (last (writes (cs_conn s))))"
| "enabled (EvWriteFailed e) s = (cs_writes_done s < length (writes (cs_conn s)))"
| "enabled (EvReadDone d) s =
     (cs_reads_done s < length (reads (cs_conn s))
      \<and> length d \<le> unat (snd (last (reads (cs_conn s)))))"
| "enabled (EvReadFailed e) s = (cs_reads_done s < length (reads (cs_conn s)))"

text \<open>asio's part of a completed read: the data is placed at the requested offset.\<close>

definition place_received :: "byte list \<Rightarrow> 'w tcpconn \<Rightarrow> 'w tcpconn res" where
  "place_received d c =
     rbind (mem_write (unat (fst (last (reads c)))) d (bb_storage (tc_recv_buffer c)))
       (\<lambda>st. Inr (c\<lparr>tc_recv_buffer := (tc_recv_buffer c)\<lparr>bb_storage := st\<rparr>\<rparr>))"

text \<open>asio's part of a completed write: it has sent the first \<open>n\<close> bytes of the requested range.\<close>

definition bytes_sent :: "size_t \<Rightarrow> 'w tcpconn \<Rightarrow> byte list res" where
  "bytes_sent n c =
     mem_read (unat (fst (last (writes c)))) (unat n) (bb_storage (tc_writing_buffer c))"

fun conn_step :: "'w conn_callbacks \<Rightarrow> conn_event \<Rightarrow> 'w conn_sys \<Rightarrow> 'w conn_sys res" where
  "conn_step cbs EvAttached s =
     rbind (OnAttachedToLoop cbs True (cs_conn s)) (\<lambda>c. Inr (s\<lparr>cs_conn := c\<rparr>))"
| "conn_step cbs (EvSend d) s =
     rbind (Send cbs True d (cs_conn s)) (\<lambda>c. Inr (s\<lparr>cs_conn := c\<rparr>))"
| "conn_step cbs (EvSendOther d) s =
     rbind (Send cbs False d (cs_conn s)) (\<lambda>c. Inr (s\<lparr>cs_conn := c\<rparr>))"
| "conn_step cbs EvClose s = Inr (s\<lparr>cs_conn := Close (cs_conn s)\<rparr>)"
| "conn_step cbs (EvSetMark n) s =
     Inr (s\<lparr>cs_conn := snd (SetHighWaterMarkCallback (high_water_mark_fn cbs) n (cbs, cs_conn s))\<rparr>)"
| "conn_step cbs (EvSetNoDelay on) s = Inr (s\<lparr>cs_conn := SetTCPNoDelay on (cs_conn s)\<rparr>)"
| "conn_step cbs (EvTask i) s =
     rbind (conn_run_task cbs (tasks (cs_conn s) ! i) (cs_conn s))
       (\<lambda>c. Inr (s\<lparr>cs_conn := c, cs_tasks_done := i # cs_tasks_done s\<rparr>))"
| "conn_step cbs (EvWriteDone n) s =
     rbind (bytes_sent n (cs_conn s)) (\<lambda>d.
     rbind (HandleWrite cbs True None n (cs_conn s))
       (\<lambda>c. Inr (s\<lparr>cs_conn := c, cs_delivered := cs_delivered s @ d,
                  cs_writes_done := Suc (cs_writes_done s)\<rparr>)))"
| "conn_step cbs (EvWriteFailed e) s =
     rbind (HandleWrite cbs True (Some e) 0 (cs_conn s))
       (\<lambda>c. Inr (s\<lparr>cs_conn := c, cs_writes_done := Suc (cs_writes_done s)\<rparr>))"
| "conn_step cbs (EvReadDone d) s =
     rbind (place_received d (cs_conn s)) (\<lambda>c0.
     rbind (HandleRead cbs True None (of_nat (length d)) c0)
       (\<lambda>c. Inr (s\<lparr>cs_conn := c, cs_reads_done := Suc (cs_reads_done s)\<rparr>)))"
| "conn_step cbs (EvReadFailed e) s =
     rbind (HandleRead cbs True (Some e) 0 (cs_conn s))
       (\<lambda>c. Inr (s\<lparr>cs_conn := c, cs_reads_done := Suc (cs_reads_done s)\<rparr>))"

definition initial_sys :: "'w tcpconn \<Rightarrow> 'w conn_sys" where
  "initial_sys c = \<lparr>cs_conn = c, cs_delivered = [], cs_writes_done = 0, cs_reads_done = 0,
     cs_tasks_done = []\<rparr>"

text \<open>
  The states a freshly constructed connection can get into. Its owner sets the type of it: incoming as
  constructed, or outgoing.
\<close>

definition new_conn :: "'w tcpconn \<Rightarrow> bool" where
  "new_conn c \<longleftrightarrow> (\<exists>loop sock name env t c0. TCPConn_new loop sock name env = Inr c0 \<and> c = SetType t c0)"

lemma new_connI: "TCPConn_new loop sock name env = Inr c \<Longrightarrow> new_conn (SetType t c)"
  unfolding new_conn_def by blast

lemma new_connE:
  assumes "new_conn c"
  obtains loop sock name env t c0 where "TCPConn_new loop sock name env = Inr c0" and "c = SetType t c0"
  using assms unfolding new_conn_def by blast

lemma new_conn_incoming: "TCPConn_new loop sock name env = Inr c \<Longrightarrow> new_conn c"
proof -
  assume c: "TCPConn_new loop sock name env = Inr c"
  then have "SetType kIncoming c = c" by (auto simp: TCPConn_new_def SetType_def split: option.splits)
  with new_connI [OF c, of kIncoming] show ?thesis by simp
qed

inductive conn_reachable :: "'w conn_callbacks \<Rightarrow> 'w conn_sys \<Rightarrow> bool" for cbs where
  fresh: "new_conn c \<Longrightarrow> conn_reachable cbs (initial_sys c)"
| event: "conn_reachable cbs s \<Longrightarrow> enabled ev s \<Longrightarrow> conn_step cbs ev s = Inr s' \<Longrightarrow>
    conn_reachable cbs s'"

text \<open>Runs, for concrete executions.\<close>

fun conn_run :: "'w conn_callbacks \<Rightarrow> conn_event list \<Rightarrow> 'w conn_sys \<Rightarrow> 'w conn_sys res" where
  "conn_run cbs [] s = Inr s"
| "conn_run cbs (ev # evs) s =
     (if enabled ev s then rbind (conn_step cbs ev s) (conn_run cbs evs) else Inl AssertFailed)"

lemma conn_run_reachable:
  "conn_reachable cbs s \<Longrightarrow> conn_run cbs evs s = Inr s' \<Longrightarrow> conn_reachable cbs s'"
  by (induction evs arbitrary: s) (auto split: if_splits intro: conn_reachable.event)

section \<open>The invariant of the system\<close>

definition sys_inv :: "'w conn_sys \<Rightarrow> bool" where
  "sys_inv s \<longleftrightarrow> (let c = cs_conn s in
     tx_inv c
   \<and> accepted c = cs_delivered s @ pending c
   \<and> length (writes c) = cs_writes_done s + of_bool (tc_async_writing c)
   \<and> buf_ok (tc_recv_buffer c)
   \<and> cs_reads_done s \<le> length (reads c) \<and> length (reads c) \<le> Suc (cs_reads_done s)
   \<and> (cs_reads_done s < length (reads c) \<longrightarrow>
        last (reads c) = (WriteBegin (tc_recv_buffer c), ValidSize (tc_recv_buffer c))))"

lemma sys_invD:
  assumes "sys_inv s"
  shows "tx_inv (cs_conn s)"
    and "accepted (cs_conn s) = cs_delivered s @ pending (cs_conn s)"
    and "length (writes (cs_conn s)) = cs_writes_done s + of_bool (tc_async_writing (cs_conn s))"
    and "buf_ok (tc_recv_buffer (cs_conn s))"
    and "cs_reads_done s \<le> length (reads (cs_conn s))"
    and "length (reads (cs_conn s)) \<le> Suc (cs_reads_done s)"
    and "cs_reads_done s < length (reads (cs_conn s)) \<Longrightarrow> last (reads (cs_conn s)) =
      (WriteBegin (tc_recv_buffer (cs_conn s)), ValidSize (tc_recv_buffer (cs_conn s)))"
  using assms by (simp_all add: sys_inv_def Let_def)

lemma fresh_sys_inv: "TCPConn_new loop sock name env = Inr c \<Longrightarrow> sys_inv (initial_sys (SetType t c))"
  by (auto simp: SetType_def TCPConn_new_def sys_inv_def initial_sys_def tx_inv_def pending_def
      ByteBuffer_default_ok split: option.splits) (simp add: ByteBuffer_default_def)

lemma initial_sys_inv: "new_conn c \<Longrightarrow> sys_inv (initial_sys c)"
  by (erule new_connE) (simp add: fresh_sys_inv)

text \<open>A step of the kind callbacks may take keeps the invariant of the system.\<close>

lemma sys_inv_tx_step:
  assumes inv: "sys_inv s" and c: "tx_inv c" "tx_step (cs_conn s) c"
    "tc_recv_buffer c = tc_recv_buffer (cs_conn s)"
  shows "sys_inv (s\<lparr>cs_conn := c\<rparr>)"
  using sys_invD [OF inv] c by (auto simp: sys_inv_def Let_def tx_step_def)

text \<open>The same when the step ends by starting the next read.\<close>

lemma sys_inv_next_read:
  assumes inv: "sys_inv s" and c: "tx_inv (AsyncRead c)" "tx_step (cs_conn s) c"
    and rd: "cs_reads_done s' = length (reads (cs_conn s))" and ok: "buf_ok (tc_recv_buffer c)"
    and s': "cs_conn s' = AsyncRead c" "cs_delivered s' = cs_delivered s"
      "cs_writes_done s' = cs_writes_done s"
  shows "sys_inv s'"
  using sys_invD [OF inv] c rd ok s'
  by (auto simp: sys_inv_def Let_def tx_step_def AsyncRead_same)


text \<open>
  Placing received data: the request in progress is the free part of the receive buffer, so
  the data fits and becomes readable with \<open>WriteBytes\<close>.
\<close>

lemma place_received_ok:
  assumes ok: "buf_ok (tc_recv_buffer c)"
    and req: "last (reads c) = (WriteBegin (tc_recv_buffer c), ValidSize (tc_recv_buffer c))"
    and len: "length d \<le> unat (ValidSize (tc_recv_buffer c))"
  obtains st where "place_received d c = Inr (c\<lparr>tc_recv_buffer := (tc_recv_buffer c)\<lparr>bb_storage := st\<rparr>\<rparr>)"
    and "buf_ok (WriteBytes (of_nat (length d)) ((tc_recv_buffer c)\<lparr>bb_storage := st\<rparr>))"
    and "readable (WriteBytes (of_nat (length d)) ((tc_recv_buffer c)\<lparr>bb_storage := st\<rparr>))
      = readable (tc_recv_buffer c) @ d"
proof -
  let ?b = "tc_recv_buffer c"
  have fit: "unat (bb_wpos ?b) + length d \<le> length (bb_storage ?b)"
    using len ok buf_okD(2) [OF ok] by (simp add: unat_ValidSize free_space_def)
  define st where "st = take (unat (bb_wpos ?b)) (bb_storage ?b) @ d
    @ drop (unat (bb_wpos ?b) + length d) (bb_storage ?b)"
  have wr: "mem_write (unat (bb_wpos ?b)) d (bb_storage ?b) = Inr st"
    using fit by (simp add: mem_write_def st_def)
  let ?b1 = "?b\<lparr>bb_storage := st\<rparr>"
  have l: "length st = length (bb_storage ?b)" using wr by (rule mem_write_length)
  have n: "unat (of_nat (length d) :: size_t) = length d"
    using fit buf_okD(4) [OF ok] by (intro unat_of_size) simp
  have ok1: "buf_ok ?b1" using ok l by (simp add: buf_ok_def)
  have fr: "unat (of_nat (length d) :: size_t) \<le> free_space ?b1"
    using fit l n by (simp add: free_space_def)
  have "readable ?b1 = readable ?b" and "take (length d) (drop (unat (bb_wpos ?b)) st) = d"
    using fit by (simp_all add: readable_def st_def)
  then show ?thesis
    using that [of st] wr req WriteBytes_ok [OF ok1 fr] n by (simp add: place_received_def)
qed

text \<open>Reported bytes of a write are those at the front of the unsent part.\<close>

lemma bytes_sent_ok:
  assumes "tx_inv c" and "tc_async_writing c" and "n \<le> snd (last (writes c))"
  shows "unat n \<le> length (readable (tc_writing_buffer c))"
    and "bytes_sent n c = Inr (take (unat n) (pending c))"
proof -
  have ok: "buf_ok (tc_writing_buffer c)" and l: "last (writes c) = current_request c"
    using assms by (simp_all add: tx_inv_def)
  show le: "unat n \<le> length (readable (tc_writing_buffer c))"
    using assms(3) l ok by (simp add: current_request_def length_readable word_le_nat_alt)
  show "bytes_sent n c = Inr (take (unat n) (pending c))"
    using mem_read_readable [OF ok le] l le
    by (simp add: bytes_sent_def current_request_def pending_def)
qed

lemma recv_buffer_frame [simp]:
  "tc_recv_buffer (socket_close c) = tc_recv_buffer c"
  "tc_recv_buffer (Close c) = tc_recv_buffer c"
  "tc_recv_buffer (SetTCPNoDelay on c) = tc_recv_buffer c"
  by (simp_all add: socket_close_def Close_def SetTCPNoDelay_def)

context conn_client
begin

lemma conn_run_task_ok: "cb_ok (conn_run_task cbs t)"
proof (cases t)
  case TaskClose
  have "cb_ok (\<lambda>c :: 'w tcpconn. Inr (socket_close c))"
    by (rule cb_ok_same_tx) simp_all
  moreover have "Close_task True = (\<lambda>c :: 'w tcpconn. Inr (socket_close c))"
    by (simp add: Close_task_def [abs_def])
  moreover have "conn_run_task cbs t = Close_task True"
    using TaskClose by (simp add: fun_eq_iff)
  ultimately show ?thesis by simp
next
  case (TaskSendString d)
  then have "conn_run_task cbs t = SendInLoop cbs True d"
    by (simp add: fun_eq_iff SendStringInLoop_def)
  then show ?thesis using SendInLoop_ok by simp
qed

lemma step_inv_cb:
  assumes "cb_ok f" and "sys_inv s" and "f (cs_conn s) = Inr c"
  shows "sys_inv (s\<lparr>cs_conn := c\<rparr>)"
  using sys_inv_tx_step [OF assms(2)] cb_okD [OF assms(1) sys_invD(1) [OF assms(2)] assms(3)] .

lemma conn_step_inv:
  assumes inv: "sys_inv s" and en: "enabled ev s" and run: "conn_step cbs ev s = Inr s'"
  shows "sys_inv s'"
proof (cases ev)
  case EvAttached
  with run obtain c where c: "OnAttachedToLoop cbs True (cs_conn s) = Inr c"
    and s': "s' = s\<lparr>cs_conn := c\<rparr>" by auto
  note a = OnAttachedToLoop_ok [OF sys_invD(1) [OF inv] c]
  obtain d where d: "tx_step (cs_conn s) d" "c = AsyncRead d" using a(3) by blast
  have "buf_ok (tc_recv_buffer d)"
    using a(2) d(2) sys_invD(4) [OF inv] by (simp add: AsyncRead_same)
  moreover have "cs_reads_done s = length (reads (cs_conn s))"
    using en EvAttached sys_invD(5) [OF inv] by simp
  ultimately show ?thesis
    using sys_inv_next_read [OF inv _ d(1), of s'] a(1) s' d(2) by simp
next
  case (EvSend d)
  then show ?thesis using step_inv_cb [OF Send_ok inv] run by auto
next
  case (EvSendOther d)
  then show ?thesis using step_inv_cb [OF Send_ok inv] run by auto
next
  case EvClose
  have "cb_ok (\<lambda>c. Inr (Close c))"
    by (rule cb_ok_same_tx) simp_all
  then show ?thesis using step_inv_cb [OF _ inv] run EvClose by auto
next
  case (EvSetMark n)
  have "cb_ok (\<lambda>c. Inr (snd (SetHighWaterMarkCallback (high_water_mark_fn cbs) n (cbs, c))))"
    by (rule cb_ok_same_tx) (simp_all add: SetHighWaterMarkCallback_def)
  then show ?thesis using step_inv_cb [OF _ inv] run EvSetMark by auto
next
  case (EvSetNoDelay on)
  have "cb_ok (\<lambda>c. Inr (SetTCPNoDelay on c))"
    by (rule cb_ok_same_tx) simp_all
  then show ?thesis using step_inv_cb [OF _ inv] run EvSetNoDelay by auto
next
  case (EvTask i)
  with run obtain c where c: "conn_run_task cbs (tasks (cs_conn s) ! i) (cs_conn s) = Inr c"
    and s': "s' = s\<lparr>cs_conn := c, cs_tasks_done := i # cs_tasks_done s\<rparr>" by auto
  have "sys_inv (s\<lparr>cs_conn := c\<rparr>)" by (rule step_inv_cb [OF conn_run_task_ok inv c])
  then show ?thesis by (simp add: s' sys_inv_def)
next
  case (EvWriteDone n)
  have aw: "tc_async_writing (cs_conn s)"
    using en EvWriteDone sys_invD(3) [OF inv] by (cases "tc_async_writing (cs_conn s)") auto
  note b = bytes_sent_ok [OF sys_invD(1) [OF inv] aw]
  have n: "n \<le> snd (last (writes (cs_conn s)))" using en EvWriteDone by simp
  from run EvWriteDone b(2) [OF n] obtain c where c: "HandleWrite cbs True None n (cs_conn s) = Inr c"
    and s': "s' = s\<lparr>cs_conn := c, cs_delivered := cs_delivered s @ take (unat n) (pending (cs_conn s)),
      cs_writes_done := Suc (cs_writes_done s)\<rparr>" by auto
  note h = HandleWrite_done [OF sys_invD(1) [OF inv] aw b(1) [OF n] c]
  show ?thesis
    using sys_invD [OF inv] h aw by (simp add: s' sys_inv_def)
next
  case (EvWriteFailed e)
  have aw: "tc_async_writing (cs_conn s)"
    using en EvWriteFailed sys_invD(3) [OF inv] by (cases "tc_async_writing (cs_conn s)") auto
  from run EvWriteFailed obtain c where c: "HandleWrite cbs True (Some e) 0 (cs_conn s) = Inr c"
    and s': "s' = s\<lparr>cs_conn := c, cs_writes_done := Suc (cs_writes_done s)\<rparr>" by auto
  note h = HandleWrite_failed [OF sys_invD(1) [OF inv] c]
  show ?thesis
    using sys_invD [OF inv] h aw by (auto simp: s' sys_inv_def)
next
  case (EvReadDone d)
  let ?c = "cs_conn s"
  have rd: "Suc (cs_reads_done s) = length (reads ?c)"
    using en EvReadDone sys_invD(6) [OF inv] by simp
  have req: "last (reads ?c) = (WriteBegin (tc_recv_buffer ?c), ValidSize (tc_recv_buffer ?c))"
    using sys_invD(7) [OF inv] rd by simp
  have len: "length d \<le> unat (ValidSize (tc_recv_buffer ?c))"
    using en EvReadDone req by simp
  obtain st where st: "place_received d ?c = Inr (?c\<lparr>tc_recv_buffer := (tc_recv_buffer ?c)\<lparr>bb_storage := st\<rparr>\<rparr>)"
    (is "_ = Inr ?placed")
    and ok: "buf_ok (WriteBytes (of_nat (length d)) ((tc_recv_buffer ?c)\<lparr>bb_storage := st\<rparr>))"
    using place_received_ok [OF sys_invD(4) [OF inv] req len] by metis
  with run EvReadDone obtain c where c: "HandleRead cbs True None (of_nat (length d)) ?placed = Inr c"
    and s': "s' = s\<lparr>cs_conn := c, cs_reads_done := Suc (cs_reads_done s)\<rparr>" by auto
  have same: "same_tx ?c ?placed" by simp
  note h = HandleRead_data [OF same_tx_inv [OF same sys_invD(1) [OF inv]] c]
  obtain e where e: "tx_step ?placed e" "c = AsyncRead e" using h(2) by blast
  have "tx_step ?c e" using tx_step_trans [OF same_tx_step [OF same] e(1)] .
  moreover have "buf_ok (tc_recv_buffer e)" using h(3) ok e(2) by (simp add: AsyncRead_same)
  ultimately show ?thesis
    using sys_inv_next_read [OF inv _, of e s'] h(1) e(2) rd s' by simp
next
  case (EvReadFailed e)
  from run EvReadFailed obtain c where c: "HandleRead cbs True (Some e) 0 (cs_conn s) = Inr c"
    and s': "s' = s\<lparr>cs_conn := c, cs_reads_done := Suc (cs_reads_done s)\<rparr>" by auto
  note h = HandleRead_failed [OF sys_invD(1) [OF inv] c]
  have "sys_inv (s\<lparr>cs_conn := c\<rparr>)"
    using sys_inv_tx_step [OF inv h(1,2,3)] .
  moreover have "Suc (cs_reads_done s) = length (reads c)"
    using en EvReadFailed sys_invD(6) [OF inv] h(2) by (simp add: tx_step_def)
  ultimately show ?thesis by (simp add: s' sys_inv_def Let_def)
qed

theorem reachable_inv: "conn_reachable cbs s \<Longrightarrow> sys_inv s"
  by (induction rule: conn_reachable.induct) (auto intro: initial_sys_inv conn_step_inv)

end


section \<open>Events and the write in progress\<close>

lemma conn_run_Cons:
  "enabled ev s \<Longrightarrow> conn_step cbs ev s = Inr s1 \<Longrightarrow> conn_run cbs (ev # evs) s = conn_run cbs evs s1"
  by simp

context conn_client
begin

text \<open>Every event but a write completion leaves the write in progress and its buffer alone.\<close>

lemma step_keeps_write:
  assumes inv: "sys_inv s" and en: "enabled ev s" and run: "conn_step cbs ev s = Inr s'"
    and aw: "tc_async_writing (cs_conn s)"
    and ev: "\<forall>n e. ev \<noteq> EvWriteDone n \<and> ev \<noteq> EvWriteFailed e"
  shows "tc_async_writing (cs_conn s') \<and>
    tc_writing_buffer (cs_conn s') = tc_writing_buffer (cs_conn s)"
proof -
  let ?c = "cs_conn s"
  note i = sys_invD(1) [OF inv]
  have keep: "tc_async_writing d \<and> tc_writing_buffer d = tc_writing_buffer ?c"
    if "tx_step ?c d" for d using that aw by (simp add: tx_step_def)
  show ?thesis
  proof (cases ev)
    case EvAttached
    with run obtain c where c: "OnAttachedToLoop cbs True ?c = Inr c" and s': "cs_conn s' = c" by auto
    from OnAttachedToLoop_ok(3) [OF i c] obtain d where d: "tx_step ?c d" "c = AsyncRead d" by blast
    from keep [OF d(1)] d(2) show ?thesis by (simp add: s' AsyncRead_same)
  next
    case (EvSend d)
    with run obtain c where c: "Send cbs True d ?c = Inr c" and s': "cs_conn s' = c" by auto
    from keep [OF cb_okD(2) [OF Send_ok i c]] show ?thesis by (simp add: s')
  next
    case (EvSendOther d)
    with run obtain c where c: "Send cbs False d ?c = Inr c" and s': "cs_conn s' = c" by auto
    from keep [OF cb_okD(2) [OF Send_ok i c]] show ?thesis by (simp add: s')
  next
    case EvClose
    with run aw show ?thesis by (auto simp: Close_def)
  next
    case (EvSetMark n)
    with run aw show ?thesis by (auto simp: SetHighWaterMarkCallback_def)
  next
    case (EvSetNoDelay on)
    with run aw show ?thesis by (auto simp: SetTCPNoDelay_def)
  next
    case (EvTask k)
    with run obtain c where c: "conn_run_task cbs (tasks ?c ! k) ?c = Inr c" and s': "cs_conn s' = c"
      by auto
    from keep [OF cb_okD(2) [OF conn_run_task_ok i c]] show ?thesis by (simp add: s')
  next
    case (EvReadDone d)
    with run obtain a c where a: "place_received d ?c = Inr a"
      and c: "HandleRead cbs True None (of_nat (length d)) a = Inr c" and s': "cs_conn s' = c" by auto
    have same: "same_tx ?c a" using a by (auto simp: place_received_def)
    from HandleRead_data(2) [OF same_tx_inv [OF same i] c] obtain e
      where e: "tx_step a e" "c = AsyncRead e" by blast
    from keep [OF tx_step_trans [OF same_tx_step [OF same] e(1)]] e(2) show ?thesis
      by (simp add: s' AsyncRead_same)
  next
    case (EvReadFailed e)
    with run obtain c where c: "HandleRead cbs True (Some e) 0 ?c = Inr c" and s': "cs_conn s' = c"
      by auto
    from keep [OF HandleRead_failed(2) [OF i c]] show ?thesis by (simp add: s')
  qed (use ev in auto)
qed

text \<open>Completions of the whole request drain the connection in at most two steps.\<close>

lemma full_write_step:
  assumes inv: "sys_inv s" and aw: "tc_async_writing (cs_conn s)"
  defines "n \<equiv> Size (tc_writing_buffer (cs_conn s))"
  obtains s' where "enabled (EvWriteDone n) s" and "conn_step cbs (EvWriteDone n) s = Inr s'"
    and "sys_inv s'" and "accepted (cs_conn s') = accepted (cs_conn s)"
    and "pending (cs_conn s') = readable (tc_write_buffer (cs_conn s))"
    and "tc_async_writing (cs_conn s') \<longleftrightarrow> readable (tc_write_buffer (cs_conn s)) \<noteq> []"
    and "readable (tc_write_buffer (cs_conn s')) = []"
proof -
  let ?c = "cs_conn s"
  note i = sys_invD [OF inv]
  have ok: "buf_ok (tc_writing_buffer ?c)" and last: "last (writes ?c) = current_request ?c"
    using i(1) aw by (simp_all add: tx_inv_def)
  have n: "n \<le> snd (last (writes ?c))" by (simp add: last current_request_def n_def)
  have en: "enabled (EvWriteDone n) s" using i(3) aw n by simp
  note b = bytes_sent_ok [OF i(1) aw n]
  have full: "unat n = length (readable (tc_writing_buffer ?c))"
    using ok by (simp add: n_def length_readable)
  have empty: "readable (ReadBytes n (tc_writing_buffer ?c)) = []" "buf_ok (ReadBytes n (tc_writing_buffer ?c))"
    using fifo.pop_content [OF ok b(1)] fifo.pop_inv [OF ok b(1)] full by simp_all
  have z: "Size (ReadBytes n (tc_writing_buffer ?c)) = 0" using Size_eq_0 empty by blast
  let ?e = "?c\<lparr>tc_async_writing := False, tc_writing_buffer := ReadBytes n (tc_writing_buffer ?c)\<rparr>"
  define c where "c = (if Size (tc_write_buffer ?c) > 0 then AsyncWrite (swap_buffers ?e) else ?e)"
  have run: "HandleWrite cbs True None n ?c = Inr c"
    using z by (simp add: HandleWrite_def c_def)
  note h = HandleWrite_done [OF i(1) aw b(1) run]
  have B: "0 < Size (tc_write_buffer ?c) \<longleftrightarrow> readable (tc_write_buffer ?c) \<noteq> []"
    using i(1) by (intro Size_gt_0) (simp add: tx_inv_def)
  then have "tc_async_writing c \<longleftrightarrow> readable (tc_write_buffer ?c) \<noteq> []"
    by (auto simp: c_def AsyncWrite_def swap_buffers_def)
  moreover have "readable (tc_write_buffer c) = []"
    using empty B by (auto simp: c_def AsyncWrite_def swap_buffers_def)
  ultimately have wb: "tc_async_writing c \<longleftrightarrow> readable (tc_write_buffer ?c) \<noteq> []"
    "readable (tc_write_buffer c) = []" by blast+
  have st: "conn_step cbs (EvWriteDone n) s =
    Inr (s\<lparr>cs_conn := c, cs_delivered := cs_delivered s @ take (unat n) (pending ?c),
         cs_writes_done := Suc (cs_writes_done s)\<rparr>)"
    using b(2) run by simp
  show ?thesis
    using that [OF en st conn_step_inv [OF inv en st]] h(2,3) wb full by (simp add: pending_def)
qed

lemma drain:
  assumes inv: "sys_inv s" and aw: "tc_async_writing (cs_conn s)"
  shows "\<exists>evs s'. length evs \<le> 2 \<and> (\<forall>ev \<in> set evs. \<exists>n. ev = EvWriteDone n)
    \<and> conn_run cbs evs s = Inr s' \<and> pending (cs_conn s') = []
    \<and> cs_delivered s' = accepted (cs_conn s)"
proof -
  let ?ev1 = "EvWriteDone (Size (tc_writing_buffer (cs_conn s)))"
  obtain s1 where s1: "enabled ?ev1 s" "conn_step cbs ?ev1 s = Inr s1" "sys_inv s1"
    "accepted (cs_conn s1) = accepted (cs_conn s)"
    "pending (cs_conn s1) = readable (tc_write_buffer (cs_conn s))"
    "tc_async_writing (cs_conn s1) \<longleftrightarrow> readable (tc_write_buffer (cs_conn s)) \<noteq> []"
    "readable (tc_write_buffer (cs_conn s1)) = []"
    using full_write_step [OF inv aw] by metis
  show ?thesis
  proof (cases "pending (cs_conn s1) = []")
    case True
    have "conn_run cbs [?ev1] s = Inr s1"
      by (simp only: conn_run_Cons [OF s1(1,2)] conn_run.simps(1))
    moreover have "cs_delivered s1 = accepted (cs_conn s)"
      using sys_invD(2) [OF s1(3)] s1(4) True by simp
    ultimately show ?thesis using True by (intro exI [of _ "[?ev1]"] exI [of _ s1]) auto
  next
    case False
    then have aw1: "tc_async_writing (cs_conn s1)" using s1(5,6) by simp
    let ?ev2 = "EvWriteDone (Size (tc_writing_buffer (cs_conn s1)))"
    obtain s2 where s2: "enabled ?ev2 s1" "conn_step cbs ?ev2 s1 = Inr s2" "sys_inv s2"
      "accepted (cs_conn s2) = accepted (cs_conn s1)"
      "pending (cs_conn s2) = readable (tc_write_buffer (cs_conn s1))"
      using full_write_step [OF s1(3) aw1] by metis
    have p: "pending (cs_conn s2) = []" using s2(5) s1(7) by simp
    have "conn_run cbs [?ev1, ?ev2] s = Inr s2"
      by (simp only: conn_run_Cons [OF s1(1,2)] conn_run_Cons [OF s2(1,2)] conn_run.simps(1))
    moreover have "cs_delivered s2 = accepted (cs_conn s)"
      using sys_invD(2) [OF s2(3)] s1(4) s2(4) p by simp
    ultimately show ?thesis using p by (intro exI [of _ "[?ev1, ?ev2]"] exI [of _ s2]) auto
  qed
qed

end

end
