(* ===== verification/Echo_App.thy ===== *)
theory Echo_App
  imports Conn_System
begin

text \<open>
  The two echo programs of \<open>examples/tcp_echo\<close>: the callbacks they install, as clients of a
  connection. What they print is the list \<open>ap_console\<close> of \<open>tc_env\<close>. Neither sets a high-water-mark callback,
  so their \<open>Send\<close> runs with none. The owner of the connection supplies the close callback.
\<close>

datatype console =
    PrintAccepted string          \<comment> \<open>\<open>conn->GetName() << " connection accepted."\<close>\<close>
  | PrintDisconnecting string     \<comment> \<open>\<open>conn->GetName() << " connection disconnecting."\<close>\<close>
  | PrintRecv "byte list"         \<comment> \<open>\<open>"recv msg " << std::string(buffer.Data(), buffer.Size())\<close>\<close>

record app_env = owner_env +
  ap_console :: "console list"

definition string_bytes :: "string \<Rightarrow> byte list" where
  "string_bytes s = map of_char s"

definition print :: "console \<Rightarrow> 'm app_env_scheme tcpconn \<Rightarrow> 'm app_env_scheme tcpconn" where
  "print x c = c\<lparr>tc_env := (tc_env c)\<lparr>ap_console := ap_console (tc_env c) @ [x]\<rparr>\<rparr>"

text \<open>The part both \<open>OnMessage\<close> functions share: print, consume everything, normalise.\<close>

definition print_and_consume :: "'m app_env_scheme conn_fun" where
  "print_and_consume c =
     (let buffer = tc_recv_buffer c in
      rbind (mem_read (unat (Data buffer)) (unat (Size buffer)) (bb_storage buffer)) (\<lambda>m.
      rbind (Normalize (ReadBytes (Size buffer) buffer)) (\<lambda>b.
      Inr ((print (PrintRecv m) c)\<lparr>tc_recv_buffer := b\<rparr>))))"

definition server_OnConnection :: "'m app_env_scheme conn_fun" where
  "server_OnConnection c =
     (if IsConnected c then Inr (print (PrintAccepted (tc_name c)) c)
      else if IsDisconnecting c then Inr (print (PrintDisconnecting (tc_name c)) c)
      else Inr c)"

definition server_OnMessage :: "'m app_env_scheme conn_fun" where
  "server_OnMessage c =
     rbind (print_and_consume c) (Send no_callbacks True (string_bytes ''server say hello!''))"

definition client_OnConnection :: "'m app_env_scheme conn_fun" where
  "client_OnConnection c =
     (if IsConnected c
      then Send no_callbacks True (string_bytes ''client say hello!'')
             (print (PrintAccepted (tc_name c)) c)
      else if IsDisconnecting c then Inr (print (PrintDisconnecting (tc_name c)) c)
      else Inr c)"

definition client_OnMessage :: "'m app_env_scheme conn_fun" where
  "client_OnMessage c =
     rbind (print_and_consume c) (Send no_callbacks True (string_bytes ''client say hello!''))"

definition echo_server_cbs :: "'m app_env_scheme conn_fun option \<Rightarrow> 'm app_env_scheme conn_callbacks" where
  "echo_server_cbs on_close = SetCloseCallback on_close
     (SetConnCallback (Some server_OnConnection)
       (SetMessageCallback (Some server_OnMessage) no_callbacks))"

definition echo_client_cbs :: "'m app_env_scheme conn_fun option \<Rightarrow> 'm app_env_scheme conn_callbacks" where
  "echo_client_cbs on_close = SetCloseCallback on_close
     (SetConnCallback (Some client_OnConnection)
       (SetMessageCallback (Some client_OnMessage) no_callbacks))"

section \<open>Both programs are well-behaved clients\<close>

lemma same_tx_print [simp]: "same_tx c (print x c)"
  by (simp add: print_def)

lemma print_sel [simp]:
  "tc_recv_buffer (print x c) = tc_recv_buffer c" "tc_status (print x c) = tc_status c"
  by (simp_all add: print_def)

lemma cb_ok_print: "cb_ok (\<lambda>c. Inr (print x c))"
  by (rule cb_ok_same_tx) simp_all

interpretation silent: conn_client "no_callbacks :: 'w conn_callbacks"
  by unfold_locales (simp_all add: no_callbacks_def)

lemma Send_quiet_ok: "cb_ok (Send no_callbacks True d)"
  by (rule silent.Send_ok)

lemma server_OnConnection_ok: "cb_ok server_OnConnection"
proof (rule cb_okI)
  fix c c' assume inv: "tx_inv c" and r: "server_OnConnection c = Inr c'"
  have "c' = c \<or> (\<exists>x. c' = print x c)"
    using r by (auto simp: server_OnConnection_def split: if_splits)
  then show "tx_inv c' \<and> tx_step c c' \<and> tc_recv_buffer c' = tc_recv_buffer c"
    using inv same_tx_inv [OF same_tx_print inv] same_tx_step [OF same_tx_print] by auto
qed

lemma client_OnConnection_ok: "cb_ok client_OnConnection"
proof (rule cb_okI)
  fix c c' assume inv: "tx_inv c" and r: "client_OnConnection c = Inr c'"
  have send: "cb_ok (\<lambda>c. rbind (Inr (print x c)) (Send no_callbacks True d))" for x d
    by (intro cb_ok_rbind cb_ok_print Send_quiet_ok)
  have "c' = c \<or> (\<exists>x. c' = print x c) \<or>
    (\<exists>x d. rbind (Inr (print x c)) (Send no_callbacks True d) = Inr c')"
    using r unfolding client_OnConnection_def rbind_simps by (metis sum.inject(2))
  then consider "c' = c" | x where "c' = print x c"
    | x d where "rbind (Inr (print x c)) (Send no_callbacks True d) = Inr c'"
    by blast
  then show "tx_inv c' \<and> tx_step c c' \<and> tc_recv_buffer c' = tc_recv_buffer c"
  proof cases
    case 1
    with inv show ?thesis by simp
  next
    case (2 x)
    then show ?thesis using same_tx_inv [OF same_tx_print inv] same_tx_step [OF same_tx_print] by simp
  next
    case (3 x d)
    from cb_okD [OF send inv 3] show ?thesis by simp
  qed
qed

lemma print_and_consume_ok: "msg_cb_ok print_and_consume"
proof (rule msg_cb_okI)
  fix c c' assume inv: "tx_inv c" and r: "print_and_consume c = Inr c'"
  let ?b = "tc_recv_buffer c"
  from r obtain m b where b: "Normalize (ReadBytes (Size ?b) ?b) = Inr b"
    and c': "c' = (print (PrintRecv m) c)\<lparr>tc_recv_buffer := b\<rparr>"
    by (auto simp: print_and_consume_def Let_def)
  have s: "same_tx c c'" unfolding c' using same_tx_trans [OF same_tx_print same_tx_recv] .
  have "buf_ok b" if "buf_ok ?b"
  proof -
    have "buf_ok (ReadBytes (Size ?b) ?b)" using ReadBytes_ok(1) [OF that] by simp
    from Normalize_ok [OF this] b show ?thesis by (metis sum.inject(2))
  qed
  then show "tx_inv c' \<and> tx_step c c' \<and> (buf_ok ?b \<longrightarrow> buf_ok (tc_recv_buffer c'))"
    using same_tx_inv [OF s inv] same_tx_step [OF s] by (simp add: c')
qed

lemma OnMessage_ok: "msg_cb_ok server_OnMessage" "msg_cb_ok client_OnMessage"
  unfolding server_OnMessage_def [abs_def] client_OnMessage_def [abs_def]
  by (intro msg_cb_ok_rbind print_and_consume_ok cb_ok_msg Send_quiet_ok)+

lemma echo_server_client: "(\<And>f. on_close = Some f \<Longrightarrow> cb_ok f) \<Longrightarrow> conn_client (echo_server_cbs on_close)"
  by unfold_locales
     (auto simp: echo_server_cbs_def SetCloseCallback_def SetConnCallback_def SetMessageCallback_def
       no_callbacks_def server_OnConnection_ok OnMessage_ok)

lemma echo_client_client: "(\<And>f. on_close = Some f \<Longrightarrow> cb_ok f) \<Longrightarrow> conn_client (echo_client_cbs on_close)"
  by unfold_locales
     (auto simp: echo_client_cbs_def SetCloseCallback_def SetConnCallback_def SetMessageCallback_def
       no_callbacks_def client_OnConnection_ok OnMessage_ok)

interpretation echo_server: conn_client "echo_server_cbs None"
  by (rule echo_server_client) simp

interpretation echo_client: conn_client "echo_client_cbs None"
  by (rule echo_client_client) simp

text \<open>The library's own callbacks that do nothing (\<open>src/tcp_callbacks.h\<close>).\<close>

definition DefaultConnectionCallback :: "'w conn_fun" where
  "DefaultConnectionCallback c = Inr c"

definition DefaultMessageCallback :: "'w conn_fun" where
  "DefaultMessageCallback c = Inr c"

definition default_cbs :: "'w conn_callbacks" where
  "default_cbs = SetConnCallback (Some DefaultConnectionCallback)
     (SetMessageCallback (Some DefaultMessageCallback) no_callbacks)"

interpretation default_app: conn_client "default_cbs :: 'w conn_callbacks"
  by unfold_locales
     (auto simp: default_cbs_def SetConnCallback_def SetMessageCallback_def no_callbacks_def
       DefaultConnectionCallback_def DefaultMessageCallback_def cb_ok_def msg_cb_ok_def)

end
