(* ===== verification/Conn_Owner.thy ===== *)
theory Conn_Owner
  imports Echo_App
begin

text \<open>
  What a connection and its callbacks leave to the owner: the name of the connection, and the
  count of calls of the close callback in its environment. A server or a client finds its
  connection again by these. The count is compared by a relation \<open>R\<close>: equality for what the
  application's callbacks do, \<open>\<le>\<close> for all of a connection with its owner's close callback.
\<close>

definition owner_rel :: "(nat \<Rightarrow> nat \<Rightarrow> bool)
    \<Rightarrow> 'm owner_env_scheme tcpconn \<Rightarrow> 'm owner_env_scheme tcpconn \<Rightarrow> bool" where
  "owner_rel R c c' \<longleftrightarrow> tc_name c' = tc_name c \<and> R (oe_removed (tc_env c)) (oe_removed (tc_env c'))"

definition keeps_owner :: "(nat \<Rightarrow> nat \<Rightarrow> bool) \<Rightarrow> 'm owner_env_scheme conn_fun \<Rightarrow> bool" where
  "keeps_owner R f \<longleftrightarrow> (\<forall>c c'. f c = Inr c' \<longrightarrow> owner_rel R c c')"

lemma keeps_ownerD: "keeps_owner R f \<Longrightarrow> f c = Inr c' \<Longrightarrow> owner_rel R c c'"
  unfolding keeps_owner_def by blast

lemma keeps_owner_mono: "keeps_owner (=) f \<Longrightarrow> keeps_owner (\<le>) f"
  by (simp add: keeps_owner_def owner_rel_def)

locale owner_relation =
  fixes R :: "nat \<Rightarrow> nat \<Rightarrow> bool"
  assumes R_refl [simp]: "R n n" and R_trans: "R a b \<Longrightarrow> R b c \<Longrightarrow> R a c"
begin

lemma owner_refl [simp]: "owner_rel R c c"
  by (simp add: owner_rel_def)

lemma owner_trans: "owner_rel R a b \<Longrightarrow> owner_rel R b c \<Longrightarrow> owner_rel R a c"
  using R_trans by (auto simp: owner_rel_def)

lemma same_name_env: "tc_name c' = tc_name c \<Longrightarrow> tc_env c' = tc_env c \<Longrightarrow> owner_rel R c c'"
  by (simp add: owner_rel_def)

lemma keeps_owner_rbind: "keeps_owner R f \<Longrightarrow> keeps_owner R g \<Longrightarrow> keeps_owner R (\<lambda>c. rbind (f c) g)"
  unfolding keeps_owner_def rbind_eq_Inr by (meson owner_trans)

lemma optional_owner:
  assumes "\<And>f. g = Some f \<Longrightarrow> keeps_owner R f"
    and "(case g of None \<Rightarrow> Inr c | Some f \<Rightarrow> f (outgoing_call x c)) = Inr c'"
  shows "owner_rel R c c'"
proof (cases g)
  case None
  with assms(2) show ?thesis by simp
next
  case (Some f)
  with assms have "keeps_owner R f" "f (outgoing_call x c) = Inr c'" by simp_all
  then show ?thesis using keeps_ownerD by (fastforce simp: owner_rel_def)
qed

lemma print_owner [simp]: "owner_rel R c (print x c)"
  by (simp add: owner_rel_def print_def)

end

text \<open>The pure parts of the handlers.\<close>

lemma name_env_simps [simp]:
  "tc_name (AsyncRead c) = tc_name c" "tc_env (AsyncRead c) = tc_env c"
  "tc_name (AsyncWrite c) = tc_name c" "tc_env (AsyncWrite c) = tc_env c"
  "tc_name (swap_buffers c) = tc_name c" "tc_env (swap_buffers c) = tc_env c"
  "tc_name (socket_close c) = tc_name c" "tc_env (socket_close c) = tc_env c"
  "tc_name (Close c) = tc_name c" "tc_env (Close c) = tc_env c"
  "tc_name (SetTCPNoDelay on c) = tc_name c" "tc_env (SetTCPNoDelay on c) = tc_env c"
  by (simp_all add: AsyncRead_def AsyncWrite_def swap_buffers_def socket_close_def Close_def
      SetTCPNoDelay_def Swap_def Let_def case_prod_unfold)

locale owned_conn = owner_relation R for R :: "nat \<Rightarrow> nat \<Rightarrow> bool" +
  fixes cbs :: "'m owner_env_scheme conn_callbacks"
  assumes conn_fn_owner: "conn_fn cbs = Some f \<Longrightarrow> keeps_owner R f"
    and msg_fn_owner: "msg_fn cbs = Some f \<Longrightarrow> keeps_owner R f"
    and hwm_fn_owner: "high_water_mark_fn cbs = Some h \<Longrightarrow> keeps_owner R (h n)"
    and close_fn_owner: "close_fn cbs = Some f \<Longrightarrow> keeps_owner R f"
begin

lemma SendInLoop_owner: "keeps_owner R (SendInLoop cbs in_loop d)"
proof -
  have "owner_rel R c c'" if r: "SendInLoop cbs in_loop d c = Inr c'" for c c'
  proof -
    define c0 where "c0 = outgoing_call (Accepted d) c"
    have c0: "owner_rel R c c0" by (simp add: c0_def same_name_env)
    consider (shut) "\<not> is_open c" | (idle) "is_open c" "\<not> tc_async_writing c0"
      | (busy) "is_open c" "tc_async_writing c0" by blast
    then show ?thesis
    proof cases
      case shut
      with r show ?thesis by (simp add: SendInLoop_def)
    next
      case idle
      define c1 where "c1 = (if Size (tc_write_buffer c0) > 0 then swap_buffers c0 else c0)"
      from r idle obtain b where "c' = AsyncWrite (c1\<lparr>tc_writing_buffer := b\<rparr>)"
        by (auto simp: SendInLoop_def Let_def c0_def [symmetric] c1_def [symmetric])
      then have "owner_rel R c0 c'" by (simp add: c1_def same_name_env)
      with c0 show ?thesis by (rule owner_trans)
    next
      case busy
      from r busy obtain b where b: "Write d (tc_write_buffer c0) = Inr b"
        by (auto simp: SendInLoop_def Let_def c0_def [symmetric])
      define c1 where "c1 = c0\<lparr>tc_write_buffer := b\<rparr>"
      define n where "n = Size (tc_write_buffer c1) + Size (tc_writing_buffer c1)"
      have run: "(if n > tc_high_water_mark c1
         then case high_water_mark_fn cbs of None \<Rightarrow> Inr c1
              | Some f \<Rightarrow> f n (outgoing_call (CallHighWaterMarkFn n) c1)
         else Inr c1) = Inr c'"
        using r busy b by (auto simp: SendInLoop_def Let_def c0_def [symmetric] c1_def n_def cong: option.case_cong)
      have "owner_rel R c1 c'"
      proof (cases "n > tc_high_water_mark c1 \<and> high_water_mark_fn cbs \<noteq> None")
        case True
        with run obtain h where "high_water_mark_fn cbs = Some h"
          "h n (outgoing_call (CallHighWaterMarkFn n) c1) = Inr c'" by auto
        from keeps_ownerD [OF hwm_fn_owner [OF this(1)] this(2)] show ?thesis by (simp add: owner_rel_def)
      next
        case False
        with run show ?thesis by (auto split: if_splits)
      qed
      moreover have "owner_rel R c0 c1" by (simp add: c1_def same_name_env)
      ultimately show ?thesis using c0 owner_trans by blast
    qed
  qed
  then show ?thesis by (simp add: keeps_owner_def)
qed

lemma Send_owner: "keeps_owner R (Send cbs in_loop d)"
  using SendInLoop_owner [of True d] unfolding keeps_owner_def Send_def
  by (auto simp: same_name_env)

lemma HandleClose_owner: "keeps_owner R (HandleClose cbs in_loop)"
proof -
  have "owner_rel R c c'" if r: "HandleClose cbs in_loop c = Inr c'" for c c'
  proof (cases "tc_status c = kDisconnected")
    case True
    with r show ?thesis by (auto simp: HandleClose_def)
  next
    case False
    define c2 where "c2 = (if is_open c then socket_close c else c)\<lparr>tc_status := kDisconnecting\<rparr>"
    have st: "tc_status c2 = kDisconnecting" by (simp add: c2_def)
    from r False obtain c3 c4 where
        c3: "(case conn_fn cbs of None \<Rightarrow> Inr c2
              | Some f \<Rightarrow> f (outgoing_call (CallConnFn kDisconnecting) c2)) = Inr c3"
      and c4: "(case close_fn cbs of None \<Rightarrow> Inr c3 | Some f \<Rightarrow> f (outgoing_call CallCloseFn c3)) = Inr c4"
      and c': "c' = c4\<lparr>tc_status := kDisconnected\<rparr>"
      by (auto simp: HandleClose_def Let_def c2_def [symmetric] st cong: option.case_cong)
    have "owner_rel R c c2" by (simp add: c2_def same_name_env)
    moreover have "owner_rel R c2 c3" by (rule optional_owner [OF conn_fn_owner c3])
    moreover have "owner_rel R c3 c4" by (rule optional_owner [OF close_fn_owner c4])
    moreover have "owner_rel R c4 c'" by (simp add: c' same_name_env)
    ultimately show ?thesis using owner_trans by blast
  qed
  then show ?thesis by (simp add: keeps_owner_def)
qed

lemma HandleClose_from_owner:
  assumes "HandleClose cbs in_loop d = Inr c'" and "tc_name d = tc_name c" and "tc_env d = tc_env c"
  shows "owner_rel R c c'"
  using keeps_ownerD [OF HandleClose_owner assms(1)] assms(2,3) by (simp add: owner_rel_def)

lemma OnAttachedToLoop_owner: "keeps_owner R (OnAttachedToLoop cbs in_loop)"
  unfolding keeps_owner_def
  using keeps_ownerD [OF conn_fn_owner]
  by (fastforce simp: OnAttachedToLoop_def Let_def owner_rel_def split: option.splits)

lemma HandleRead_owner: "keeps_owner R (HandleRead cbs in_loop err n)"
proof -
  have "owner_rel R c c'" if r: "HandleRead cbs in_loop err n c = Inr c'" for c c'
  proof (cases err)
    case None
    with r show ?thesis using keeps_ownerD [OF msg_fn_owner]
      by (fastforce simp: HandleRead_def Let_def owner_rel_def split: option.splits)
  next
    case (Some e)
    with r have "HandleClose cbs in_loop (c\<lparr>tc_status := kDisconnecting\<rparr>) = Inr c'"
      by (simp add: HandleRead_def HandleError_def split: if_splits)
    then show ?thesis by (rule HandleClose_from_owner) simp_all
  qed
  then show ?thesis by (simp add: keeps_owner_def)
qed

lemma HandleWrite_owner: "keeps_owner R (HandleWrite cbs in_loop err n)"
proof -
  have "owner_rel R c c'" if r: "HandleWrite cbs in_loop err n c = Inr c'" for c c'
  proof (cases err)
    case None
    with r show ?thesis by (auto simp: HandleWrite_def Let_def same_name_env split: if_splits)
  next
    case (Some e)
    with r have "HandleClose cbs in_loop (c\<lparr>tc_async_writing := False, tc_status := kDisconnecting\<rparr>) = Inr c'"
      by (simp add: HandleWrite_def HandleError_def Let_def)
    then show ?thesis by (rule HandleClose_from_owner) simp_all
  qed
  then show ?thesis by (simp add: keeps_owner_def)
qed

lemma conn_step_owner:
  assumes "conn_step cbs ev s = Inr s'"
  shows "owner_rel R (cs_conn s) (cs_conn s')"
proof (cases ev)
  case EvAttached
  with assms show ?thesis using keeps_ownerD [OF OnAttachedToLoop_owner] by auto
next
  case (EvSend d)
  with assms show ?thesis using keeps_ownerD [OF Send_owner] by auto
next
  case (EvSendOther d)
  with assms show ?thesis using keeps_ownerD [OF Send_owner] by auto
next
  case (EvTask i)
  with assms show ?thesis using keeps_ownerD [OF SendInLoop_owner]
    by (cases "tasks (cs_conn s) ! i") (auto simp: Close_task_def SendStringInLoop_def same_name_env)
next
  case (EvWriteDone n)
  with assms show ?thesis using keeps_ownerD [OF HandleWrite_owner] by auto
next
  case (EvWriteFailed e)
  with assms show ?thesis using keeps_ownerD [OF HandleWrite_owner] by auto
next
  case (EvReadDone d)
  with assms obtain c0 c' where "place_received d (cs_conn s) = Inr c0"
    and c': "HandleRead cbs True None (of_nat (length d)) c0 = Inr c'" "cs_conn s' = c'" by auto
  then have "tc_name c0 = tc_name (cs_conn s)" "tc_env c0 = tc_env (cs_conn s)"
    by (auto simp: place_received_def)
  with keeps_ownerD [OF HandleRead_owner c'(1)] c'(2) show ?thesis by (simp add: owner_rel_def)
next
  case (EvReadFailed e)
  with assms show ?thesis using keeps_ownerD [OF HandleRead_owner] by auto
qed (use assms in \<open>auto simp: same_name_env SetHighWaterMarkCallback_def\<close>)

end

interpretation owner_eq: owner_relation "(=)"
  by unfold_locales simp_all

interpretation owner_le: owner_relation "(\<le>)"
  by unfold_locales simp_all

section \<open>The echo programs\<close>

text \<open>They leave the owner's part of the environment as it is.\<close>

interpretation quiet_owner: owned_conn "(=)" "no_callbacks :: 'm owner_env_scheme conn_callbacks"
  by unfold_locales (simp_all add: no_callbacks_def)

lemma server_OnConnection_owner: "keeps_owner (=) server_OnConnection"
  by (auto simp: keeps_owner_def server_OnConnection_def)

lemma client_OnConnection_owner: "keeps_owner (=) (client_OnConnection :: 'a app_env_scheme conn_fun)"
proof -
  have send: "owner_rel (=) c c'" if "Send no_callbacks True d (print x c) = Inr c'"
    for c c' :: "'a app_env_scheme tcpconn" and d x
    using keeps_ownerD [OF quiet_owner.Send_owner that] owner_eq.owner_trans [OF owner_eq.print_owner] by blast
  show ?thesis
    unfolding keeps_owner_def client_OnConnection_def using send by auto
qed

lemma print_and_consume_owner: "keeps_owner (=) print_and_consume"
  by (auto simp: keeps_owner_def print_and_consume_def Let_def owner_rel_def print_def)

lemma OnMessage_owner: "keeps_owner (=) server_OnMessage" "keeps_owner (=) client_OnMessage"
  unfolding server_OnMessage_def [abs_def] client_OnMessage_def [abs_def]
  by (intro owner_eq.keeps_owner_rbind print_and_consume_owner quiet_owner.Send_owner)+

text \<open>The callbacks an owner gives a connection: the application's two, and its own for closing.\<close>

definition owner_cbs :: "'m owner_env_scheme conn_fun option \<Rightarrow> 'm owner_env_scheme conn_fun option
    \<Rightarrow> 'm owner_env_scheme conn_fun \<Rightarrow> 'm owner_env_scheme conn_callbacks" where
  "owner_cbs cf mf close = SetCloseCallback (Some close)
     (SetConnCallback cf (SetMessageCallback mf no_callbacks))"

lemma owner_cbs_sel [simp]:
  "conn_fn (owner_cbs cf mf close) = cf" "msg_fn (owner_cbs cf mf close) = mf"
  "close_fn (owner_cbs cf mf close) = Some close" "high_water_mark_fn (owner_cbs cf mf close) = None"
  by (simp_all add: owner_cbs_def SetCloseCallback_def SetConnCallback_def SetMessageCallback_def
      no_callbacks_def)

lemma owner_cbs_owned:
  assumes "\<And>f. cf = Some f \<Longrightarrow> keeps_owner (=) f" and "\<And>f. mf = Some f \<Longrightarrow> keeps_owner (=) f"
    and "keeps_owner (\<le>) close"
  shows "owned_conn (\<le>) (owner_cbs cf mf close)"
  by unfold_locales (use assms keeps_owner_mono in auto)

end
