(* ===== verification/Tcp_Client.thy ===== *)
theory Tcp_Client
  imports Conn_Owner
begin

text \<open>
  The class \<open>TCPClient\<close> of \<open>src/tcp_client.h\<close> and \<open>src/tcp_client.cc\<close>: it connects, keeps the
  one connection, and tries again when the connection is refused or ends.

  As for the server, the connections a client has made are a store (\<open>cl_heap\<close>) and \<open>conn_\<close> a
  position in it; the calls of the close callback, \<open>OnRemoveConn\<close>, are counted in the
  environment of the connection and carried out at the end of the handler that made them.
  \<open>cl_connecting\<close> counts the \<open>async_connect\<close> in progress, \<open>cl_waits\<close> the waits of the reconnect
  timer whose handler has not run. That handler is bound without the error code, so it does the
  same whether the wait ended by itself or was cancelled.

  \<open>rs\<close> is the name resolution: whether \<open>resolve\<close> finds endpoints for a host and a service; if
  not it throws.
\<close>

section \<open>State\<close>

datatype client_task = TaskDisconnectInLoop

record 'm client_conn =
  cc_cbs :: "'m owner_env_scheme conn_callbacks"
  cc_sys :: "'m owner_env_scheme conn_sys"

record 'm tcp_client =
  cl_remote_addr :: string
  cl_remote_port :: uint16
  cl_name :: string
  cl_auto_reconnect :: bool
  cl_reconnect_interval :: uint64
  cl_reconnecting_times :: int
  cl_conn :: "nat option"
  cl_conn_fn :: "'m owner_env_scheme conn_fun option"
  cl_msg_fn :: "'m owner_env_scheme conn_fun option"
  cl_heap :: "'m client_conn list"
  cl_connecting :: nat
  cl_waits :: "uint64 list"                  \<comment> \<open>their durations in seconds\<close>
  cl_posted :: "client_task list"
  cl_env :: "'m owner_env_scheme"

type_synonym resolver = "string \<Rightarrow> string \<Rightarrow> bool"

definition default_max_reconnect_time :: int where
  "default_max_reconnect_time = 5"

section \<open>Operations\<close>

definition TCPClient_new :: "string \<Rightarrow> uint16 \<Rightarrow> string \<Rightarrow> 'm owner_env_scheme \<Rightarrow> 'm tcp_client" where
  "TCPClient_new addr port name env =
     \<lparr>cl_remote_addr = addr, cl_remote_port = port, cl_name = name, cl_auto_reconnect = False,
      cl_reconnect_interval = 3, cl_reconnecting_times = 0, cl_conn = None, cl_conn_fn = None,
      cl_msg_fn = None, cl_heap = [], cl_connecting = 0, cl_waits = [], cl_posted = [], cl_env = env\<rparr>"

definition conn_of :: "'m tcp_client \<Rightarrow> nat \<Rightarrow> 'm owner_env_scheme tcpconn" where
  "conn_of s i = cs_conn (cc_sys (cl_heap s ! i))"

definition update_conn :: "nat \<Rightarrow> ('m client_conn \<Rightarrow> 'm client_conn) \<Rightarrow> 'm tcp_client \<Rightarrow> 'm tcp_client" where
  "update_conn i f s = s\<lparr>cl_heap := (cl_heap s)[i := f (cl_heap s ! i)]\<rparr>"

text \<open>\<open>GetTCPConn\<close>: the lock it takes on other threads does not change what it returns.\<close>

definition GetTCPConn :: "bool \<Rightarrow> 'm tcp_client \<Rightarrow> nat option" where
  "GetTCPConn in_loop s = (if in_loop then cl_conn s else cl_conn s)"

text \<open>The destructor; \<open>use_count\<close> is the reference count it reads off the shared pointer.\<close>

definition TCPClient_destroy :: "bool \<Rightarrow> nat \<Rightarrow> 'm tcp_client \<Rightarrow> 'm tcp_client res" where
  "TCPClient_destroy in_loop use_count s =
     (let s1 = s\<lparr>cl_auto_reconnect := False\<rparr>
      in rbind (case GetTCPConn in_loop s1 of
                  None \<Rightarrow> Inr s1
                | Some i \<Rightarrow>
                    (let c = conn_of s1 i in
                     rbind (cassert (IsDisconnected c \<or> IsDisconnecting c)) (\<lambda>_.
                     if IsDisconnecting c
                     then rbind (cassert (use_count \<ge> 3)) (\<lambda>_.
                          Inr (update_conn i (\<lambda>cc. cc\<lparr>cc_cbs := SetCloseCallback None (cc_cbs cc)\<rparr>) s1))
                     else Inr s1)))
           (\<lambda>s2. Inr (s2\<lparr>cl_conn := None\<rparr>)))"

definition TCPClient_Connect :: "resolver \<Rightarrow> 'm tcp_client \<Rightarrow> 'm tcp_client res" where
  "TCPClient_Connect rs s =
     (if \<not> rs (cl_remote_addr s) (decimal (unat (cl_remote_port s))) then Inl SystemError
      else Inr (s\<lparr>cl_connecting := Suc (cl_connecting s)\<rparr>))"

definition Reconnect :: "resolver \<Rightarrow> 'm tcp_client \<Rightarrow> 'm tcp_client res" where
  "Reconnect rs s =
     TCPClient_Connect rs (s\<lparr>cl_reconnecting_times := cl_reconnecting_times s + 1\<rparr>)"

definition OnRemoveConn :: "resolver \<Rightarrow> bool \<Rightarrow> nat \<Rightarrow> 'm tcp_client \<Rightarrow> 'm tcp_client res" where
  "OnRemoveConn rs in_loop i s =
     (case cl_conn s of
        None \<Rightarrow> Inr s
      | Some j \<Rightarrow>
          rbind (cassert (i = j)) (\<lambda>_.
          rbind (cassert in_loop) (\<lambda>_.
          let s1 = s\<lparr>cl_conn := None\<rparr>
          in if cl_auto_reconnect s1 then Reconnect rs s1 else Inr s1)))"

text \<open>One event of the connection at position \<open>i\<close>, and the calls of \<open>OnRemoveConn\<close> it makes.\<close>

fun remove_times :: "resolver \<Rightarrow> nat \<Rightarrow> nat \<Rightarrow> 'm tcp_client \<Rightarrow> 'm tcp_client res" where
  "remove_times rs i 0 s = Inr s"
| "remove_times rs i (Suc k) s = rbind (OnRemoveConn rs True i s) (remove_times rs i k)"

definition client_conn_event :: "resolver \<Rightarrow> nat \<Rightarrow> conn_event \<Rightarrow> 'm tcp_client \<Rightarrow> 'm tcp_client res" where
  "client_conn_event rs i ev s =
     (let cc = cl_heap s ! i in
      rbind (conn_step (cc_cbs cc) ev (cc_sys cc)) (\<lambda>sys.
      remove_times rs i (removed_of sys - removed_of (cc_sys cc))
        (update_conn i (\<lambda>cc. cc\<lparr>cc_sys := sys\<rparr>) s)))"

text \<open>
  \<open>HandleConn\<close>. For a socket that is not open it builds a connection only to show it to the
  connection callback.
\<close>

definition HandleConn :: "resolver \<Rightarrow> bool \<Rightarrow> asio_socket \<Rightarrow> 'm tcp_client \<Rightarrow> 'm tcp_client res" where
  "HandleConn rs in_loop socket s =
     (if \<not> so_open socket
      then rbind (TCPConn_new 0 socket (cl_name s) (cl_env s)) (\<lambda>c.
           case cl_conn_fn s of
             None \<Rightarrow> Inl BadFunctionCall
           | Some f \<Rightarrow> rbind (f c) (\<lambda>_. Inr s))
      else
        rbind (cassert in_loop) (\<lambda>_.
        rbind (TCPConn_new 0 socket (cl_name s) (cl_env s)) (\<lambda>c.
        let cbs = SetCloseCallback (Some owner_close_fn)
                    (SetConnCallback (cl_conn_fn s) (SetMessageCallback (cl_msg_fn s) no_callbacks));
            i = length (cl_heap s);
            cc = \<lparr>cc_cbs = cbs, cc_sys = initial_sys (SetType kOutgoing c)\<rparr>
        in client_conn_event rs i EvAttached (s\<lparr>cl_heap := cl_heap s @ [cc], cl_conn := Some i\<rparr>))))"

text \<open>The completion handler of \<open>async_connect\<close>: \<open>None\<close> is an error.\<close>

definition connect_handler :: "resolver \<Rightarrow> asio_socket option \<Rightarrow> 'm tcp_client \<Rightarrow> 'm tcp_client res" where
  "connect_handler rs result s =
     (case result of
        Some socket \<Rightarrow> HandleConn rs True socket (s\<lparr>cl_reconnecting_times := 0\<rparr>)
      | None \<Rightarrow>
          if cl_auto_reconnect s \<and> cl_reconnecting_times s < default_max_reconnect_time
          then Inr (s\<lparr>cl_waits := cl_waits s @ [cl_reconnect_interval s]\<rparr>)
          else Inr s)"

definition DisconnectInLoop :: "bool \<Rightarrow> 'm tcp_client \<Rightarrow> 'm tcp_client res" where
  "DisconnectInLoop in_loop s =
     rbind (cassert in_loop) (\<lambda>_.
     let s1 = s\<lparr>cl_auto_reconnect := False\<rparr>
     in case cl_conn s1 of
          None \<Rightarrow> Inr s1
        | Some i \<Rightarrow>
            rbind (cassert (\<not> IsDisconnected (conn_of s1 i) \<and> \<not> IsDisconnecting (conn_of s1 i))) (\<lambda>_.
            Inr (update_conn i (\<lambda>cc. cc\<lparr>cc_sys := (cc_sys cc)\<lparr>cs_conn := Close (cs_conn (cc_sys cc))\<rparr>\<rparr>) s1)))"

definition Disconnect :: "bool \<Rightarrow> 'm tcp_client \<Rightarrow> 'm tcp_client res" where
  "Disconnect in_loop s =
     (if in_loop then DisconnectInLoop True s
      else Inr (s\<lparr>cl_posted := cl_posted s @ [TaskDisconnectInLoop]\<rparr>))"

definition client_SetConnCallback :: "'m owner_env_scheme conn_fun option \<Rightarrow> 'm tcp_client \<Rightarrow> 'm tcp_client" where
  "client_SetConnCallback cb s =
     (let s1 = s\<lparr>cl_conn_fn := cb\<rparr>
      in case cl_conn s1 of
           None \<Rightarrow> s1
         | Some i \<Rightarrow> update_conn i (\<lambda>cc. cc\<lparr>cc_cbs := SetConnCallback (cl_conn_fn s1) (cc_cbs cc)\<rparr>) s1)"

definition client_SetMessageCallback :: "'m owner_env_scheme conn_fun option \<Rightarrow> 'm tcp_client \<Rightarrow> 'm tcp_client" where
  "client_SetMessageCallback cb s = s\<lparr>cl_msg_fn := cb\<rparr>"

definition GetAutoReconnect :: "'m tcp_client \<Rightarrow> bool" where
  "GetAutoReconnect s = cl_auto_reconnect s"

definition SetAutoReconnect :: "bool \<Rightarrow> 'm tcp_client \<Rightarrow> 'm tcp_client" where
  "SetAutoReconnect v s = s\<lparr>cl_auto_reconnect := v\<rparr>"

definition GetReconnectInterval :: "'m tcp_client \<Rightarrow> uint64" where
  "GetReconnectInterval s = cl_reconnect_interval s"

definition SetReconnectInterval :: "uint64 \<Rightarrow> 'm tcp_client \<Rightarrow> 'm tcp_client" where
  "SetReconnectInterval timeout s = s\<lparr>cl_reconnect_interval := timeout\<rparr>"

definition RemoteAddress :: "'m tcp_client \<Rightarrow> string" where
  "RemoteAddress s = cl_remote_addr s"

definition RemotePort :: "'m tcp_client \<Rightarrow> uint16" where
  "RemotePort s = cl_remote_port s"

definition client_GetName :: "'m tcp_client \<Rightarrow> string" where
  "client_GetName s = cl_name s"

section \<open>The client at work\<close>

datatype 'm client_event =
    ClConnect                                \<comment> \<open>the application calls \<open>Connect\<close>\<close>
  | ClConnected asio_socket                  \<comment> \<open>\<open>async_connect\<close> completes\<close>
  | ClConnectFailed
  | ClWaitEnds                               \<comment> \<open>the handler of the reconnect timer runs\<close>
  | ClConn nat conn_event
  | ClDisconnect bool                        \<comment> \<open>\<open>Disconnect\<close>, on the loop's thread or not\<close>
  | ClTask                                   \<comment> \<open>the oldest functor queued on the loop runs\<close>
  | ClSetAutoReconnect bool
  | ClSetReconnectInterval uint64
  | ClSetConnCallback "'m owner_env_scheme conn_fun option"
  | ClSetMessageCallback "'m owner_env_scheme conn_fun option"

text \<open>What the client has going on: attempts, waits, and its connection.\<close>

definition activity :: "'m tcp_client \<Rightarrow> nat" where
  "activity s = cl_connecting s + length (cl_waits s) + (if cl_conn s = None then 0 else 1)"

text \<open>The application calls \<open>Connect\<close> when nothing is going on; everything else may happen at any time.\<close>

fun client_enabled :: "'m client_event \<Rightarrow> 'm tcp_client \<Rightarrow> bool" where
  "client_enabled ClConnect s = (activity s = 0)"
| "client_enabled (ClConnected sock) s = (0 < cl_connecting s)"
| "client_enabled ClConnectFailed s = (0 < cl_connecting s)"
| "client_enabled ClWaitEnds s = (cl_waits s \<noteq> [])"
| "client_enabled (ClConn i ev) s =
     (i < length (cl_heap s) \<and> ev \<noteq> EvAttached \<and> enabled ev (cc_sys (cl_heap s ! i)))"
| "client_enabled ClTask s = (cl_posted s \<noteq> [])"
| "client_enabled ev s = True"

fun client_step :: "resolver \<Rightarrow> 'm client_event \<Rightarrow> 'm tcp_client \<Rightarrow> 'm tcp_client res" where
  "client_step rs ClConnect s = TCPClient_Connect rs s"
| "client_step rs (ClConnected sock) s =
     connect_handler rs (Some sock) (s\<lparr>cl_connecting := cl_connecting s - 1\<rparr>)"
| "client_step rs ClConnectFailed s =
     connect_handler rs None (s\<lparr>cl_connecting := cl_connecting s - 1\<rparr>)"
| "client_step rs ClWaitEnds s = Reconnect rs (s\<lparr>cl_waits := tl (cl_waits s)\<rparr>)"
| "client_step rs (ClConn i ev) s = client_conn_event rs i ev s"
| "client_step rs (ClDisconnect in_loop) s = Disconnect in_loop s"
| "client_step rs ClTask s = DisconnectInLoop True (s\<lparr>cl_posted := tl (cl_posted s)\<rparr>)"
| "client_step rs (ClSetAutoReconnect v) s = Inr (SetAutoReconnect v s)"
| "client_step rs (ClSetReconnectInterval n) s = Inr (SetReconnectInterval n s)"
| "client_step rs (ClSetConnCallback cb) s = Inr (client_SetConnCallback cb s)"
| "client_step rs (ClSetMessageCallback cb) s = Inr (client_SetMessageCallback cb s)"

fun client_run :: "resolver \<Rightarrow> 'm client_event list \<Rightarrow> 'm tcp_client \<Rightarrow> 'm tcp_client res" where
  "client_run rs [] s = Inr s"
| "client_run rs (ev # evs) s =
     (if client_enabled ev s then rbind (client_step rs ev s) (client_run rs evs) else Inl AssertFailed)"

inductive client_reachable :: "resolver \<Rightarrow> 'm tcp_client \<Rightarrow> bool" for rs where
  fresh: "client_reachable rs (TCPClient_new addr port name env)"
| event: "client_reachable rs s \<Longrightarrow> client_enabled ev s \<Longrightarrow> client_step rs ev s = Inr s' \<Longrightarrow>
    client_reachable rs s'"

lemma client_run_reachable:
  "client_reachable rs s \<Longrightarrow> client_run rs evs s = Inr s' \<Longrightarrow> client_reachable rs s'"
  by (induction evs arbitrary: s) (auto split: if_splits intro: client_reachable.event)

end
