(* ===== verification/Client_Properties.thy ===== *)
theory Client_Properties
  imports Tcp_Client
begin

text \<open>
  The properties of \<open>TCPClient\<close>: one thing at a time, a bounded number of attempts, and what
  \<open>Disconnect\<close> does and does not do.
\<close>

section \<open>The invariant\<close>

definition client_inv :: "'m tcp_client \<Rightarrow> bool" where
  "client_inv s \<longleftrightarrow> activity s \<le> 1 \<and> 0 \<le> cl_reconnecting_times s
     \<and> cl_reconnecting_times s \<le> default_max_reconnect_time
     \<and> (cl_waits s \<noteq> [] \<longrightarrow> cl_reconnecting_times s < default_max_reconnect_time)
     \<and> (\<forall>i. cl_conn s = Some i \<longrightarrow> i < length (cl_heap s) \<and> cl_reconnecting_times s = 0)"

lemma update_conn_sel [simp]:
  "cl_connecting (update_conn i f s) = cl_connecting s" "cl_waits (update_conn i f s) = cl_waits s"
  "cl_conn (update_conn i f s) = cl_conn s" "cl_posted (update_conn i f s) = cl_posted s"
  "cl_reconnecting_times (update_conn i f s) = cl_reconnecting_times s"
  "cl_auto_reconnect (update_conn i f s) = cl_auto_reconnect s"
  "length (cl_heap (update_conn i f s)) = length (cl_heap s)"
  "activity (update_conn i f s) = activity s"
  by (simp_all add: update_conn_def activity_def)

lemma update_conn_inv [simp]: "client_inv (update_conn i f s) = client_inv s"
  by (simp add: client_inv_def)

text \<open>What a run of the client keeps, from one fixed rule: \<open>Q\<close> is kept when the connection is lost.\<close>

lemma OnRemoveConn_cases:
  assumes "OnRemoveConn rs in_loop i s = Inr s'"
  obtains "cl_conn s = None" "s' = s"
  | "cl_conn s = Some i" "cl_auto_reconnect s"
    "s' = s\<lparr>cl_conn := None, cl_reconnecting_times := cl_reconnecting_times s + 1,
             cl_connecting := Suc (cl_connecting s)\<rparr>"
  | "cl_conn s = Some i" "\<not> cl_auto_reconnect s" "s' = s\<lparr>cl_conn := None\<rparr>"
  using assms
  by (auto simp: OnRemoveConn_def Let_def Reconnect_def TCPClient_Connect_def cassert_def
      split: option.splits if_splits)

lemma OnRemoveConn_inv:
  assumes "client_inv s" and "OnRemoveConn rs in_loop i s = Inr s'"
  shows "client_inv s'"
  using assms(2)
proof (cases rule: OnRemoveConn_cases)
  case 1
  with assms(1) show ?thesis by simp
next
  case 2
  with assms(1) show ?thesis
    by (auto simp: client_inv_def activity_def default_max_reconnect_time_def)
next
  case 3
  with assms(1) show ?thesis by (auto simp: client_inv_def activity_def)
qed

lemma remove_times_inv: "client_inv s \<Longrightarrow> remove_times rs i k s = Inr s' \<Longrightarrow> client_inv s'"
  by (induction k arbitrary: s) (auto intro: OnRemoveConn_inv)

lemma client_conn_event_inv:
  assumes "client_inv s" and "client_conn_event rs i ev s = Inr s'"
  shows "client_inv s'"
proof -
  from assms(2) obtain k f where "remove_times rs i k (update_conn i f s) = Inr s'"
    by (auto simp: client_conn_event_def Let_def)
  from remove_times_inv [OF _ this] assms(1) show ?thesis by simp
qed

lemma connecting_alone:
  assumes "client_inv s" and "0 < cl_connecting s"
  shows "cl_connecting s = 1" "cl_waits s = []" "cl_conn s = None"
  using assms by (cases "cl_waits s"; auto simp: client_inv_def activity_def split: if_splits)+

lemma waiting_alone:
  assumes "client_inv s" and "cl_waits s \<noteq> []"
  shows "length (cl_waits s) = 1" "cl_connecting s = 0" "cl_conn s = None" "cl_reconnecting_times s < 5"
  using assms
  by (cases "cl_waits s"; auto simp: client_inv_def activity_def default_max_reconnect_time_def split: if_splits)+

lemma HandleConn_cases:
  assumes "HandleConn rs in_loop socket s = Inr s'"
  obtains "\<not> so_open socket" "s' = s"
  | cc where "so_open socket" "client_conn_event rs (length (cl_heap s)) EvAttached
      (s\<lparr>cl_heap := cl_heap s @ [cc], cl_conn := Some (length (cl_heap s))\<rparr>) = Inr s'"
  using assms by (auto simp: HandleConn_def Let_def split: option.splits if_splits)

lemma client_step_inv:
  assumes inv: "client_inv s" and en: "client_enabled ev s" and run: "client_step rs ev s = Inr s'"
  shows "client_inv s'"
proof (cases ev)
  case ClConnect
  then have a: "activity s = 0" using en by simp
  have s': "s' = s\<lparr>cl_connecting := Suc (cl_connecting s)\<rparr>"
    using run ClConnect by (auto simp: TCPClient_Connect_def split: if_splits)
  show ?thesis using inv a by (auto simp: s' client_inv_def activity_def split: if_splits)
next
  case (ClConnected sock)
  let ?s = "s\<lparr>cl_connecting := cl_connecting s - 1, cl_reconnecting_times := 0\<rparr>"
  have h: "HandleConn rs True sock ?s = Inr s'" using run ClConnected by (simp add: connect_handler_def)
  have one: "cl_connecting s = 1" "cl_waits s = []" "cl_conn s = None"
    using connecting_alone [OF inv] en ClConnected by simp_all
  from h show ?thesis
  proof (cases rule: HandleConn_cases)
    case 1
    with one show ?thesis by (simp add: client_inv_def activity_def default_max_reconnect_time_def)
  next
    case (2 cc)
    have "client_inv (?s\<lparr>cl_heap := cl_heap ?s @ [cc], cl_conn := Some (length (cl_heap ?s))\<rparr>)"
      using one by (simp add: client_inv_def activity_def default_max_reconnect_time_def)
    from client_conn_event_inv [OF this 2(2)] show ?thesis .
  qed
next
  case ClConnectFailed
  have one: "cl_connecting s = 1" "cl_waits s = []" "cl_conn s = None"
    using connecting_alone [OF inv] en ClConnectFailed by simp_all
  with inv run ClConnectFailed show ?thesis
    by (auto simp: connect_handler_def client_inv_def activity_def split: if_splits)
next
  case ClWaitEnds
  then obtain w where w: "cl_waits s = [w]" "cl_connecting s = 0" "cl_conn s = None"
    using inv en by (cases "cl_waits s") (auto simp: client_inv_def activity_def split: if_splits)
  with inv run ClWaitEnds show ?thesis
    by (auto simp: Reconnect_def TCPClient_Connect_def client_inv_def activity_def split: if_splits)
next
  case (ClConn i e)
  with run client_conn_event_inv [OF inv] show ?thesis by simp
next
  case (ClDisconnect l)
  with inv run show ?thesis
    by (cases "cl_conn s") (auto simp: Disconnect_def DisconnectInLoop_def Let_def client_inv_def activity_def
        split: if_splits)
next
  case ClTask
  with inv run show ?thesis
    by (cases "cl_conn s") (auto simp: DisconnectInLoop_def Let_def client_inv_def activity_def)
next
  case (ClSetConnCallback cb)
  with inv run show ?thesis
    by (cases "cl_conn s") (auto simp: client_SetConnCallback_def Let_def client_inv_def activity_def)
qed (use inv run in \<open>auto simp: SetAutoReconnect_def SetReconnectInterval_def client_SetMessageCallback_def
    client_inv_def activity_def\<close>)

lemma client_reachable_inv: "client_reachable rs s \<Longrightarrow> client_inv s"
proof (induction rule: client_reachable.induct)
  case (fresh addr port name env)
  show ?case by (simp add: TCPClient_new_def client_inv_def activity_def default_max_reconnect_time_def)
next
  case (event s ev s')
  then show ?case using client_step_inv by blast
qed


section \<open>Trying again\<close>

definition retry_measure :: "'m tcp_client \<Rightarrow> nat" where
  "retry_measure s = (if 0 < cl_connecting s then 2 * nat (5 - cl_reconnecting_times s) + 1
     else if cl_waits s \<noteq> [] then 2 * nat (5 - cl_reconnecting_times s) else 0)"

lemma retry_step:
  assumes inv: "client_inv s" and ev: "ev = ClConnectFailed \<or> ev = ClWaitEnds" and en: "client_enabled ev s"
    and run: "client_step rs ev s = Inr s'"
  shows "retry_measure s' < retry_measure s"
  using ev
proof
  assume f: "ev = ClConnectFailed"
  then have "cl_connecting s = 1" "cl_waits s = []"
    using connecting_alone [OF inv] en by simp_all
  with run f show ?thesis
    by (auto simp: retry_measure_def connect_handler_def default_max_reconnect_time_def split: if_splits)
next
  assume w: "ev = ClWaitEnds"
  then have "cl_connecting s = 0" "cl_waits s \<noteq> []" "cl_reconnecting_times s < 5"
    using waiting_alone [OF inv] en by simp_all
  with run w show ?thesis
    by (auto simp: retry_measure_def Reconnect_def TCPClient_Connect_def split: if_splits)
qed

lemma retries_bounded:
  assumes "client_run rs evs s = Inr s'" and "client_inv s"
    and "\<forall>ev \<in> set evs. ev = ClConnectFailed \<or> ev = ClWaitEnds"
  shows "length evs + retry_measure s' \<le> retry_measure s"
  using assms
proof (induction evs arbitrary: s)
  case Nil
  then show ?case by simp
next
  case (Cons ev evs)
  then obtain s1 where en: "client_enabled ev s" and st: "client_step rs ev s = Inr s1"
    and r: "client_run rs evs s1 = Inr s'" by (auto split: if_splits)
  have "retry_measure s1 < retry_measure s" using retry_step [OF Cons.prems(2) _ en st] Cons.prems(3) by simp
  moreover have "length evs + retry_measure s' \<le> retry_measure s1"
    using Cons.IH [OF r client_step_inv [OF Cons.prems(2) en st]] Cons.prems(3) by simp
  ultimately show ?case by simp
qed

lemma retries_reach_end:
  assumes "client_inv s" and "cl_connecting s = 1" and "cl_auto_reconnect s"
    and "rs (cl_remote_addr s) (decimal (unat (cl_remote_port s)))"
    and "cl_reconnecting_times s = 5 - int n"
  shows "\<exists>s'. client_run rs (concat (replicate n [ClConnectFailed, ClWaitEnds]) @ [ClConnectFailed]) s = Inr s'
    \<and> activity s' = 0 \<and> cl_reconnecting_times s' = 5"
  using assms
proof (induction n arbitrary: s)
  case 0
  then have "cl_waits s = []" "cl_conn s = None"
    using connecting_alone [of s] by simp_all
  with 0 show ?case by (simp add: connect_handler_def default_max_reconnect_time_def activity_def)
next
  case (Suc n)
  have idle: "cl_waits s = []" "cl_conn s = None"
    using connecting_alone [OF Suc.prems(1)] Suc.prems(2) by simp_all
  define s2 where "s2 = s\<lparr>cl_waits := [], cl_reconnecting_times := cl_reconnecting_times s + 1, cl_connecting := Suc 0\<rparr>"
  have "client_run rs (ClConnectFailed # ClWaitEnds # evs) s = client_run rs evs s2" for evs
    using Suc.prems(2-5) idle
    by (simp add: connect_handler_def default_max_reconnect_time_def Reconnect_def TCPClient_Connect_def s2_def)
  moreover have "\<exists>s'. client_run rs (concat (replicate n [ClConnectFailed, ClWaitEnds]) @ [ClConnectFailed]) s2 = Inr s'
    \<and> activity s' = 0 \<and> cl_reconnecting_times s' = 5"
    by (rule Suc.IH) (use Suc.prems idle in
      \<open>auto simp: s2_def client_inv_def activity_def default_max_reconnect_time_def\<close>)
  ultimately show ?case by simp
qed

text \<open>C24. Trying again ends. While a client that reconnects is connecting for the \<open>k\<close>-th time, at most
  \<open>2 * (5 - k) + 1\<close> failures and waits follow each other; if all attempts fail, exactly that many
  do, after which the client does nothing any more.\<close>

theorem client_retries_terminate:
  assumes "client_reachable rs s" and "cl_connecting s = 1" and "cl_auto_reconnect s"
    and "rs (cl_remote_addr s) (decimal (unat (cl_remote_port s)))"
  defines "k \<equiv> nat (cl_reconnecting_times s)"
  shows "(\<forall>evs s'. set evs \<subseteq> {ClConnectFailed, ClWaitEnds} \<and> client_run rs evs s = Inr s' \<longrightarrow>
      length evs \<le> 2 * (5 - k) + 1)
    \<and> (\<exists>s'. client_run rs (concat (replicate (5 - k) [ClConnectFailed, ClWaitEnds]) @ [ClConnectFailed]) s = Inr s'
      \<and> activity s' = 0 \<and> cl_reconnecting_times s' = 5)"
proof -
  have inv: "client_inv s" using client_reachable_inv [OF assms(1)] .
  have t: "0 \<le> cl_reconnecting_times s" "cl_reconnecting_times s \<le> 5"
    using inv by (simp_all add: client_inv_def default_max_reconnect_time_def)
  have "retry_measure s = 2 * (5 - k) + 1" using assms(2) t by (simp add: retry_measure_def k_def nat_diff_distrib)
  moreover have "length evs \<le> retry_measure s"
    if "set evs \<subseteq> {ClConnectFailed, ClWaitEnds}" "client_run rs evs s = Inr s'" for evs s'
  proof -
    have "\<forall>ev \<in> set evs. ev = ClConnectFailed \<or> ev = ClWaitEnds" using that(1) by auto
    from retries_bounded [OF that(2) inv this] show ?thesis by simp
  qed
  moreover have "cl_reconnecting_times s = 5 - int (5 - k)" using t by (simp add: k_def of_nat_diff nat_le_iff)
  ultimately show ?thesis using retries_reach_end [where rs = rs and s = s and n = "5 - k"] inv assms(2-4) by auto
qed

section \<open>Disconnecting\<close>

text \<open>C25. \<open>Disconnect\<close> does not end what is going on. Called while the client waits for its next
  attempt it only clears the flag: the handler of the timer runs later and connects all the
  same, and when the attempt succeeds the client has a connection although it was disconnected
  last. Called twice on a connected client, before the closing has reached the connection's
  handlers, it fails its own assertion.\<close>

theorem client_disconnect:
  assumes "client_reachable rs s"
  shows "(cl_waits s \<noteq> [] \<and> rs (cl_remote_addr s) (decimal (unat (cl_remote_port s))) \<longrightarrow>
      (\<exists>s1. client_run rs [ClDisconnect True, ClWaitEnds] s = Inr s1
        \<and> cl_connecting s1 = 1 \<and> \<not> cl_auto_reconnect s1
        \<and> (\<forall>sock f. so_open sock \<and> so_local sock \<noteq> None \<and> so_remote sock \<noteq> None
            \<and> cl_conn_fn s = Some f \<and> keeps_owner (=) f \<and> (\<forall>c. \<exists>c'. f c = Inr c') \<longrightarrow>
            (\<exists>s2. client_run rs [ClConnected sock] s1 = Inr s2 \<and> cl_conn s2 \<noteq> None))))
    \<and> (\<forall>i. cl_conn s = Some i \<and> IsConnected (conn_of s i) \<longrightarrow>
        client_run rs [ClDisconnect True, ClDisconnect True] s = Inl AssertFailed)"
proof (intro conjI allI impI, goal_cases)
  case 1
  have inv: "client_inv s" using client_reachable_inv [OF assms] .
  note alone = waiting_alone [OF inv conjunct1 [OF 1]]
  let ?s1 = "s\<lparr>cl_auto_reconnect := False, cl_waits := tl (cl_waits s),
    cl_reconnecting_times := cl_reconnecting_times s + 1, cl_connecting := 1\<rparr>"
  have r: "client_run rs [ClDisconnect True, ClWaitEnds] s = Inr ?s1"
    using 1 alone by (simp add: Disconnect_def DisconnectInLoop_def cassert_def Let_def Reconnect_def
        TCPClient_Connect_def)
  have "\<exists>s2. client_run rs [ClConnected sock] ?s1 = Inr s2 \<and> cl_conn s2 \<noteq> None"
    if sock: "so_open sock" "so_local sock \<noteq> None" "so_remote sock \<noteq> None"
      and f: "cl_conn_fn s = Some f" "keeps_owner (=) f" "\<forall>c. \<exists>c'. f c = Inr c'" for sock f
  proof -
    obtain c where c: "TCPConn_new 0 sock (cl_name s) (cl_env s) = Inr c"
      using sock by (auto simp: TCPConn_new_def)
    let ?c = "outgoing_call (CallConnFn kConnected) ((SetType kOutgoing c)\<lparr>tc_status := kConnected\<rparr>)"
    obtain c' where c': "f ?c = Inr c'" using f(3) by blast
    then have "oe_removed (tc_env (AsyncRead c')) = oe_removed (tc_env (SetType kOutgoing c))"
      using keeps_ownerD [OF f(2) c'] by (simp add: owner_rel_def AsyncRead_def SetType_def)
    then show ?thesis
      using sock f(1) c c'
      by (simp add: connect_handler_def HandleConn_def Let_def client_conn_event_def initial_sys_def
          OnAttachedToLoop_def SetCloseCallback_def SetConnCallback_def SetMessageCallback_def
          update_conn_def cassert_def)
  qed
  with r show ?case by (intro exI [of _ ?s1]) simp
next
  case (2 i)
  have "i < length (cl_heap s)" using client_reachable_inv [OF assms] 2 by (simp add: client_inv_def)
  with 2 show ?case
    by (simp add: Disconnect_def DisconnectInLoop_def cassert_def Let_def conn_of_def update_conn_def
        IsConnected_def IsDisconnected_def IsDisconnecting_def Close_def)
qed

section \<open>A client of the echo example\<close>

abbreviation resolves :: resolver where
  "resolves \<equiv> \<lambda>host service. True"

abbreviation demo_setup :: "unit app_env_ext client_event list" where
  "demo_setup \<equiv> [ClSetConnCallback (Some server_OnConnection), ClSetAutoReconnect True, ClConnect]"

definition fresh_client :: "unit app_env_ext tcp_client" where
  "fresh_client = TCPClient_new ''127.0.0.1'' 3001 ''echo'' \<lparr>oe_removed = 0, ap_console = []\<rparr>"

lemmas client_eval = fresh_client_def TCPClient_new_def client_SetConnCallback_def Let_def
  SetAutoReconnect_def TCPClient_Connect_def connect_handler_def default_max_reconnect_time_def
  activity_def Reconnect_def

lemma fresh_client_reachable: "client_run rs evs fresh_client = Inr s \<Longrightarrow> client_reachable rs s"
  unfolding fresh_client_def by (rule client_run_reachable [OF client_reachable.fresh])


theorem client_retries_terminate_witness:
  "\<exists>s s'. client_run resolves demo_setup fresh_client = Inr s
     \<and> client_run resolves (concat (replicate 5 [ClConnectFailed, ClWaitEnds]) @ [ClConnectFailed]) s = Inr s'
     \<and> activity s' = 0"
proof -
  obtain s where s: "client_run resolves demo_setup fresh_client = Inr s"
    and w: "cl_connecting s = 1" "cl_auto_reconnect s" "cl_reconnecting_times s = 0"
    by (simp add: client_eval)
  from client_retries_terminate [OF fresh_client_reachable [OF s] w(1,2)] w s show ?thesis by auto
qed

theorem client_disconnect_witness:
  "\<exists>s s1. client_run resolves (demo_setup @ [ClConnectFailed]) fresh_client = Inr s
     \<and> client_run resolves [ClDisconnect True, ClWaitEnds] s = Inr s1 \<and> cl_connecting s1 = 1
     \<and> \<not> cl_auto_reconnect s1"
proof -
  obtain s where s: "client_run resolves (demo_setup @ [ClConnectFailed]) fresh_client = Inr s"
    and w: "cl_waits s \<noteq> []" by (simp add: client_eval)
  from client_disconnect [OF fresh_client_reachable [OF s]] w s show ?thesis by blast
qed

end
