(* ===== verification/Event_Loop.thy ===== *)
theory Event_Loop
  imports Asio_Base
begin

text \<open>
  The class \<open>EventLoop\<close> of \<open>src/event_loop.h\<close> and \<open>src/event_loop.cc\<close>: the wrapper of one
  \<open>asio::io_service\<close> that runs functors on the thread that called \<open>Run\<close>.

  The \<open>io_service\<close> is not part of the repository; the calls made to it are listed in
  \<open>el_calls\<close>. \<open>StopService\<close> stands for \<open>io_service::stop()\<close>, the call asio documents as the
  one that makes \<open>run()\<close> return. The member \<open>work_\<close> keeps the service from running out of
  work for the lifetime of the loop.

  Threads are numbered; \<open>self\<close> is the calling thread. A functor is either the bound member
  \<open>EventLoop::StopInLoop\<close> or one of the application's, whose effect on the loop and the rest
  of the program (\<open>'w\<close>) is the argument \<open>exec\<close>.
\<close>

section \<open>State and operations\<close>

type_synonym thread_id = nat

datatype 'f loop_functor = StopFunctor | Functor 'f

datatype 'f loop_call =
    Post "'f loop_functor"     \<comment> \<open>\<open>io_service_.post(f)\<close>\<close>
  | RunService            \<comment> \<open>\<open>io_service_.run(ec)\<close> entered\<close>
  | QueryStopped          \<comment> \<open>\<open>io_service_.stopped()\<close>\<close>
  | StopService           \<comment> \<open>\<open>io_service_.stop()\<close>\<close>

record 'f event_loop =
  el_running :: bool
  el_tid :: thread_id
  el_calls :: "'f loop_call list"

type_synonym ('f, 'w) loop_exec =
  "'f \<Rightarrow> 'f event_loop \<times> 'w \<Rightarrow> ('f event_loop \<times> 'w) res"

definition EventLoop_new :: "thread_id \<Rightarrow> 'f event_loop" where
  "EventLoop_new self = \<lparr>el_running = False, el_tid = self, el_calls = []\<rparr>"

definition loop_call :: "'f loop_call \<Rightarrow> 'f event_loop \<Rightarrow> 'f event_loop" where
  "loop_call x el = el\<lparr>el_calls := el_calls el @ [x]\<rparr>"

definition IsInLoopThread :: "thread_id \<Rightarrow> 'f event_loop \<Rightarrow> bool" where
  "IsInLoopThread self el = (el_tid el = self)"

definition AssertInLoopThread :: "thread_id \<Rightarrow> 'f event_loop \<Rightarrow> unit res" where
  "AssertInLoopThread self el = cassert (IsInLoopThread self el)"

definition EventLoop_IsRunning :: "'f event_loop \<Rightarrow> bool" where
  "EventLoop_IsRunning el = el_running el"

definition EventLoop_IsStopped :: "'f event_loop \<Rightarrow> bool" where
  "EventLoop_IsStopped el = (\<not> EventLoop_IsRunning el)"

text \<open>\<open>Run\<close>, up to the call of \<open>io_service_.run(ec)\<close> and from its return on.\<close>

definition EventLoop_Run_begin :: "thread_id \<Rightarrow> 'f event_loop \<Rightarrow> 'f event_loop" where
  "EventLoop_Run_begin self el = loop_call RunService (el\<lparr>el_tid := self, el_running := True\<rparr>)"

definition EventLoop_Run_end :: "'f event_loop \<Rightarrow> 'f event_loop" where
  "EventLoop_Run_end el = el\<lparr>el_running := False\<rparr>"

definition QueueInLoop :: "'f loop_functor \<Rightarrow> 'f event_loop \<Rightarrow> 'f event_loop" where
  "QueueInLoop f el = loop_call (Post f) el"

text \<open>\<open>StopInLoop\<close>: its body is the single statement \<open>io_service_.stopped();\<close>.\<close>

definition StopInLoop :: "'f event_loop \<Rightarrow> 'f event_loop" where
  "StopInLoop el = loop_call QueryStopped el"

fun run_functor :: "('f, 'w) loop_exec \<Rightarrow> 'f loop_functor \<Rightarrow> 'f event_loop \<times> 'w \<Rightarrow> ('f event_loop \<times> 'w) res" where
  "run_functor exec StopFunctor (el, w) = Inr (StopInLoop el, w)"
| "run_functor exec (Functor f) (el, w) = exec f (el, w)"

definition RunInLoop ::
    "('f, 'w) loop_exec \<Rightarrow> thread_id \<Rightarrow> 'f loop_functor \<Rightarrow> 'f event_loop \<times> 'w \<Rightarrow> ('f event_loop \<times> 'w) res" where
  "RunInLoop exec self f = (\<lambda>(el, w).
     if IsInLoopThread self el then run_functor exec f (el, w)
     else Inr (QueueInLoop f el, w))"

definition EventLoop_Stop ::
    "('f, 'w) loop_exec \<Rightarrow> thread_id \<Rightarrow> 'f event_loop \<times> 'w \<Rightarrow> ('f event_loop \<times> 'w) res" where
  "EventLoop_Stop exec self = (\<lambda>(el, w).
     rbind (cassert (el_running el)) (\<lambda>_. RunInLoop exec self StopFunctor (el, w)))"

section \<open>Frame lemmas\<close>

fun posted :: "'f loop_call list \<Rightarrow> 'f loop_functor list" where
  "posted [] = []"
| "posted (Post f # xs) = f # posted xs"
| "posted (_ # xs) = posted xs"

lemma posted_append [simp]: "posted (xs @ ys) = posted xs @ posted ys"
  by (induction xs rule: posted.induct) simp_all

lemma loop_call_sel [simp]:
  "el_running (loop_call x el) = el_running el" "el_tid (loop_call x el) = el_tid el"
  "el_calls (loop_call x el) = el_calls el @ [x]"
  by (simp_all add: loop_call_def)

lemma loop_sel [simp]:
  "el_tid (QueueInLoop f el) = el_tid el" "el_running (QueueInLoop f el) = el_running el"
  "el_tid (StopInLoop el) = el_tid el" "el_running (StopInLoop el) = el_running el"
  "el_tid (EventLoop_Run_begin self el) = self" "el_running (EventLoop_Run_begin self el) = True"
  "el_tid (EventLoop_Run_end el) = el_tid el" "el_running (EventLoop_Run_end el) = False"
  by (simp_all add: QueueInLoop_def StopInLoop_def EventLoop_Run_begin_def EventLoop_Run_end_def)

lemma loop_calls [simp]:
  "el_calls (QueueInLoop f el) = el_calls el @ [Post f]"
  "el_calls (StopInLoop el) = el_calls el @ [QueryStopped]"
  "el_calls (EventLoop_Run_begin self el) = el_calls el @ [RunService]"
  "el_calls (EventLoop_Run_end el) = el_calls el"
  by (simp_all add: QueueInLoop_def StopInLoop_def EventLoop_Run_begin_def EventLoop_Run_end_def)

section \<open>The loop and the threads that use it\<close>

text \<open>
  A program around one loop: the thread \<open>ls_runner\<close> that is inside \<open>Run\<close>, if any, how many of
  the posted functors it has run, and, for every functor run so far, the thread that ran it
  and the thread inside \<open>Run\<close> at that moment.
  As asio documents \<open>post\<close> and \<open>run\<close>, for a service run by one thread: posted functors run
  in the order they were posted, each once, on the thread inside \<open>run\<close>, and \<open>run\<close> returns
  once the service has been stopped (it never runs out of work, for \<open>work_\<close>).
\<close>

record ('f, 'w) loop_sys =
  ls_loop :: "'f event_loop"
  ls_world :: 'w
  ls_runner :: "thread_id option"
  ls_done :: nat
  ls_ran_on :: "('f loop_functor \<times> thread_id \<times> thread_id option) list"

inductive loop_step :: "('f, 'w) loop_exec \<Rightarrow> ('f, 'w) loop_sys \<Rightarrow> ('f, 'w) loop_sys \<Rightarrow> bool" for exec where
  enter: "ls_runner s = None \<Longrightarrow>
    loop_step exec s (s\<lparr>ls_loop := EventLoop_Run_begin t (ls_loop s), ls_runner := Some t\<rparr>)"
| queue: "loop_step exec s (s\<lparr>ls_loop := QueueInLoop f (ls_loop s)\<rparr>)"
| run_here: "IsInLoopThread t (ls_loop s) \<Longrightarrow>
    RunInLoop exec t f (ls_loop s, ls_world s) = Inr (el, w) \<Longrightarrow>
    loop_step exec s (s\<lparr>ls_loop := el, ls_world := w, ls_ran_on := ls_ran_on s @ [(f, t, ls_runner s)]\<rparr>)"
| run_other: "\<not> IsInLoopThread t (ls_loop s) \<Longrightarrow>
    RunInLoop exec t f (ls_loop s, ls_world s) = Inr (el, w) \<Longrightarrow>
    loop_step exec s (s\<lparr>ls_loop := el, ls_world := w\<rparr>)"
| stop: "EventLoop_Stop exec t (ls_loop s, ls_world s) = Inr (el, w) \<Longrightarrow>
    loop_step exec s (s\<lparr>ls_loop := el, ls_world := w\<rparr>)"
| dispatch: "ls_runner s = Some t \<Longrightarrow> ls_done s < length (posted (el_calls (ls_loop s))) \<Longrightarrow>
    posted (el_calls (ls_loop s)) ! ls_done s = f \<Longrightarrow>
    run_functor exec f (ls_loop s, ls_world s) = Inr (el, w) \<Longrightarrow>
    loop_step exec s (s\<lparr>ls_loop := el, ls_world := w, ls_done := Suc (ls_done s),
      ls_ran_on := ls_ran_on s @ [(f, t, ls_runner s)]\<rparr>)"
| leave: "ls_runner s = Some t \<Longrightarrow> StopService \<in> set (el_calls (ls_loop s)) \<Longrightarrow>
    loop_step exec s (s\<lparr>ls_loop := EventLoop_Run_end (ls_loop s), ls_runner := None\<rparr>)"

inductive_cases loop_stepE: "loop_step exec s s'"

definition initial_loop :: "thread_id \<Rightarrow> 'w \<Rightarrow> ('f, 'w) loop_sys" where
  "initial_loop self w = \<lparr>ls_loop = EventLoop_new self, ls_world = w, ls_runner = None,
     ls_done = 0, ls_ran_on = []\<rparr>"

inductive loop_reachable :: "('f, 'w) loop_exec \<Rightarrow> ('f, 'w) loop_sys \<Rightarrow> bool" for exec where
  start: "loop_reachable exec (initial_loop self w)"
| step: "loop_reachable exec s \<Longrightarrow> loop_step exec s s' \<Longrightarrow> loop_reachable exec s'"

text \<open>
  What the application's functors may do to the loop they run on: call the members of
  \<open>EventLoop\<close>, which leave the thread and the running flag alone and only add to the list of
  calls. Going around the class, to \<open>io_service().stop()\<close>, is not part of that interface.
\<close>

definition loop_extends :: "'f event_loop \<Rightarrow> 'f event_loop \<Rightarrow> bool" where
  "loop_extends el el' \<longleftrightarrow> el_tid el' = el_tid el \<and> el_running el' = el_running el
     \<and> (\<exists>xs. el_calls el' = el_calls el @ xs \<and> StopService \<notin> set xs)"

lemma loop_extends_refl [simp]: "loop_extends el el"
  by (simp add: loop_extends_def)

lemma loop_extends_trans: "loop_extends a b \<Longrightarrow> loop_extends b c \<Longrightarrow> loop_extends a c"
  by (auto simp: loop_extends_def)

lemma loop_extends_ops [simp]:
  "loop_extends el (QueueInLoop f el)" "loop_extends el (StopInLoop el)"
  by (simp_all add: loop_extends_def)

text \<open>
  The invariant: while a thread is inside \<open>Run\<close>, functors ran on that thread only, and nobody
  stopped the service.
\<close>

definition loop_inv :: "('f, 'w) loop_sys \<Rightarrow> bool" where
  "loop_inv s \<longleftrightarrow>
     (\<forall>t. ls_runner s = Some t \<longrightarrow> el_tid (ls_loop s) = t \<and> el_running (ls_loop s))
   \<and> (\<forall>(f, t, r) \<in> set (ls_ran_on s). r = None \<or> r = Some t)
   \<and> StopService \<notin> set (el_calls (ls_loop s))
   \<and> ls_done s \<le> length (posted (el_calls (ls_loop s)))"

lemma loop_inv_extends:
  assumes "loop_inv s" and "loop_extends (ls_loop s) el"
  shows "loop_inv (s\<lparr>ls_loop := el, ls_world := w\<rparr>)"
  using assms by (auto simp: loop_inv_def loop_extends_def)

lemma loop_inv_ran:
  "loop_inv s \<Longrightarrow> el_tid (ls_loop s) = t \<Longrightarrow>
   loop_inv (s\<lparr>ls_ran_on := ls_ran_on s @ [(f, t, ls_runner s)]\<rparr>)"
  by (cases "ls_runner s") (auto simp: loop_inv_def)

locale loop_client =
  fixes exec :: "('f, 'w) loop_exec"
  assumes exec_extends: "exec f (el, w) = Inr (el', w') \<Longrightarrow> loop_extends el el'"
begin

lemma run_functor_extends: "run_functor exec f (el, w) = Inr (el', w') \<Longrightarrow> loop_extends el el'"
  by (cases f) (auto intro: exec_extends)

lemma RunInLoop_extends: "RunInLoop exec self f (el, w) = Inr (el', w') \<Longrightarrow> loop_extends el el'"
  by (auto simp: RunInLoop_def split: if_splits intro: run_functor_extends)

lemma Stop_extends: "EventLoop_Stop exec self (el, w) = Inr (el', w') \<Longrightarrow> loop_extends el el'"
  by (auto simp: EventLoop_Stop_def intro: RunInLoop_extends)

lemma loop_step_inv: "loop_step exec s s' \<Longrightarrow> loop_inv s \<Longrightarrow> loop_inv s'"
proof (induction rule: loop_step.induct)
  case (enter s t)
  then show ?case by (auto simp: loop_inv_def)
next
  case (queue s f)
  then show ?case by (auto simp: loop_inv_def)
next
  case (run_here t s f el w)
  note e = RunInLoop_extends [OF run_here(2)]
  have "el_tid el = t" using run_here(1) e by (simp add: IsInLoopThread_def loop_extends_def)
  with loop_inv_ran [OF loop_inv_extends [OF run_here(3) e]] show ?case by simp
next
  case (run_other t s f el w)
  from loop_inv_extends [OF run_other(3) RunInLoop_extends [OF run_other(2)]]
  show ?case .
next
  case (stop t s el w)
  from loop_inv_extends [OF stop(2) Stop_extends [OF stop(1)]]
  show ?case .
next
  case (dispatch s t f el w)
  note e = run_functor_extends [OF dispatch(4)]
  then have "Suc (ls_done s) \<le> length (posted (el_calls el))"
    using dispatch(2) by (auto simp: loop_extends_def)
  moreover have "el_tid el = t"
    using e dispatch(1,5) by (auto simp: loop_extends_def loop_inv_def)
  ultimately show ?case
    using loop_inv_ran [OF loop_inv_extends [OF dispatch(5) e]] by (simp add: loop_inv_def)
next
  case (leave s t)
  then show ?case by (simp add: loop_inv_def)
qed

lemma loop_reachable_inv: "loop_reachable exec s \<Longrightarrow> loop_inv s"
proof (induction rule: loop_reachable.induct)
  case (start self w)
  show ?case by (simp add: loop_inv_def initial_loop_def EventLoop_new_def)
next
  case (step s s')
  then show ?case by (blast intro: loop_step_inv)
qed

text \<open>Once a thread is inside \<open>Run\<close>, it stays there.\<close>

lemma stays_inside:
  assumes "loop_reachable exec s" and "ls_runner s = Some t" and "(loop_step exec)\<^sup>*\<^sup>* s s'"
  shows "ls_runner s' = Some t \<and> el_running (ls_loop s') \<and> loop_reachable exec s'"
  using assms(3)
proof (induction rule: rtranclp_induct)
  case base
  show ?case using loop_reachable_inv [OF assms(1)] assms(1,2) by (simp add: loop_inv_def)
next
  case (step s1 s2)
  then have inv: "loop_inv s1" and r2: "loop_reachable exec s2"
    using loop_reachable_inv loop_reachable.step by blast+
  have "ls_runner s2 = Some t"
    using step.hyps(2) step.IH inv by (auto elim!: loop_stepE simp: loop_inv_def)
  then show ?case using loop_reachable_inv [OF r2] r2 by (simp add: loop_inv_def)
qed

end

end
