(* ===== verification/Loop_Thread.thy ===== *)
theory Loop_Thread
  imports Event_Loop
begin

text \<open>
  The class \<open>EventLoopThread\<close> of \<open>src/event_loop_thread.h\<close> and \<open>src/event_loop_thread.cc\<close>: a loop
  and the thread that runs it.

  Two threads work on the object: its owner, which calls \<open>Start\<close>, \<open>SetName\<close> and \<open>Stop\<close>, and the
  worker, which executes \<open>EventLoopThread::Run\<close>. Both are modelled statement by statement
  (\<open>owner_pc\<close>, \<open>worker_pc\<close>), so every interleaving of their accesses to \<open>status_\<close>, \<open>name_\<close> and
  \<open>ev_loop_\<close> is a sequence of events. The two \<open>sleep_for\<close> calls have no effect on the state.
  \<open>tid_string\<close> is \<open>operator<<\<close> of \<open>std::thread::id\<close>, which the standard leaves open.
\<close>

section \<open>State\<close>

datatype thread_status = kRunning | kStopping | kStopped

text \<open>
  \<open>lt_loop\<close> is \<open>None\<close> once \<open>ev_loop_\<close> was reset; \<open>lt_thread\<close> is \<open>None\<close> while \<open>thread_\<close> is null, and
  otherwise says whether the \<open>std::thread\<close> is joinable.
\<close>

record 'f loop_thread =
  lt_loop :: "'f event_loop option"
  lt_thread :: "bool option"
  lt_status :: thread_status
  lt_name :: string

text \<open>Where the worker is in \<open>Run\<close>: the statement it executes next.\<close>

datatype worker_pc =
    WNone          \<comment> \<open>no thread was created\<close>
  | WNameTest      \<comment> \<open>\<open>if (name_.empty())\<close>\<close>
  | WNameSet       \<comment> \<open>\<open>name_ = os.str()\<close>\<close>
  | WSetRunning    \<comment> \<open>\<open>status_ = kRunning\<close>\<close>
  | WPre           \<comment> \<open>\<open>if (pre) pre()\<close>\<close>
  | WRunTid        \<comment> \<open>in \<open>EventLoop::Run\<close>: \<open>tid_ = get_id()\<close>\<close>
  | WRunFlag       \<comment> \<open>in \<open>EventLoop::Run\<close>: \<open>running_ = true\<close>, then \<open>io_service_.run(ec)\<close>\<close>
  | WService       \<comment> \<open>inside \<open>io_service_.run(ec)\<close>\<close>
  | WRunEnd        \<comment> \<open>in \<open>EventLoop::Run\<close>: \<open>running_ = false\<close>\<close>
  | WPost          \<comment> \<open>\<open>if (post) post()\<close>\<close>
  | WReset         \<comment> \<open>\<open>ev_loop_.reset()\<close>\<close>
  | WSetStopped    \<comment> \<open>\<open>status_ = kStopped\<close>\<close>
  | WDone

text \<open>Where the owner is; the flag of the stopping stages is \<open>wait_thread_exit\<close>.\<close>

datatype owner_pc =
    OIdle
  | OStartPoll           \<comment> \<open>the \<open>while (wait_thread_started)\<close> of \<open>Start\<close>\<close>
  | OStopAssert bool     \<comment> \<open>\<open>assert(status_ == kRunning && IsRunning())\<close>\<close>
  | OStopStatus bool     \<comment> \<open>\<open>status_ = kStopping\<close>\<close>
  | OStopCall bool       \<comment> \<open>\<open>ev_loop_->Stop()\<close>\<close>
  | OStopPoll            \<comment> \<open>\<open>while (!IsStopped())\<close>\<close>
  | OJoin                \<comment> \<open>\<open>if (thread_->joinable()) thread_->join()\<close>\<close>

datatype owner_return = RetStart bool | RetStop bool

record ('f, 'w) thread_sys =
  ts_thread :: "'f loop_thread"
  ts_world :: 'w
  ts_worker :: worker_pc
  ts_tid :: thread_id
  ts_pre :: "'f option"
  ts_post :: "'f option"
  ts_done :: nat                        \<comment> \<open>posted functors run so far\<close>
  ts_owner :: owner_pc
  ts_owner_tid :: thread_id
  ts_returned :: "owner_return list"    \<comment> \<open>the calls of the owner that have returned\<close>
  ts_app_stop :: bool                   \<comment> \<open>the application called \<open>io_service().stop()\<close> itself\<close>

section \<open>Operations\<close>

definition EventLoopThread_new :: "thread_id \<Rightarrow> 'f loop_thread" where
  "EventLoopThread_new self = \<lparr>lt_loop = Some (EventLoop_new self), lt_thread = None,
     lt_status = kStopped, lt_name = []\<rparr>"

definition EventLoopThread_SetName :: "string \<Rightarrow> 'f loop_thread \<Rightarrow> 'f loop_thread" where
  "EventLoopThread_SetName n t = t\<lparr>lt_name := n\<rparr>"

definition EventLoopThread_name :: "'f loop_thread \<Rightarrow> string" where
  "EventLoopThread_name t = lt_name t"

text \<open>The raw pointer \<open>ev_loop_.get()\<close>, null after the reset.\<close>

definition GetEventLoop :: "'f loop_thread \<Rightarrow> 'f event_loop option" where
  "GetEventLoop t = lt_loop t"

definition deref_loop :: "'f loop_thread \<Rightarrow> 'f event_loop res" where
  "deref_loop t = (case lt_loop t of None \<Rightarrow> Inl NullDeref | Some el \<Rightarrow> Inr el)"

definition EventLoopThread_IsRunning :: "'f loop_thread \<Rightarrow> bool res" where
  "EventLoopThread_IsRunning t = rbind (deref_loop t) (\<lambda>el. Inr (EventLoop_IsRunning el))"

definition EventLoopThread_IsStopped :: "'f loop_thread \<Rightarrow> bool" where
  "EventLoopThread_IsStopped t = (lt_status t = kStopped)"

text \<open>A functor argument of \<open>Start\<close>, called on the worker.\<close>

definition call_optional ::
    "('f, 'w) loop_exec \<Rightarrow> 'f option \<Rightarrow> ('f, 'w) thread_sys \<Rightarrow> ('f, 'w) thread_sys res" where
  "call_optional exec g s =
     (case g of
        None \<Rightarrow> Inr s
      | Some f \<Rightarrow>
          rbind (deref_loop (ts_thread s)) (\<lambda>el.
          rbind (exec f (el, ts_world s)) (\<lambda>(el', w).
          Inr (s\<lparr>ts_thread := (ts_thread s)\<lparr>lt_loop := Some el'\<rparr>, ts_world := w\<rparr>))))"

definition set_loop :: "'f event_loop \<Rightarrow> ('f, 'w) thread_sys \<Rightarrow> ('f, 'w) thread_sys" where
  "set_loop el s = s\<lparr>ts_thread := (ts_thread s)\<lparr>lt_loop := Some el\<rparr>\<rparr>"

text \<open>
  One step inside \<open>io_service_.run(ec)\<close>: \<open>run\<close> returns once the service is stopped, otherwise
  the next posted functor is run, if there is one.
\<close>

definition service_step ::
    "('f, 'w) loop_exec \<Rightarrow> ('f, 'w) thread_sys \<Rightarrow> ('f, 'w) thread_sys res" where
  "service_step exec s =
     rbind (deref_loop (ts_thread s)) (\<lambda>el.
     if StopService \<in> set (el_calls el) then Inr (s\<lparr>ts_worker := WRunEnd\<rparr>)
     else if ts_done s < length (posted (el_calls el)) then
       rbind (run_functor exec (posted (el_calls el) ! ts_done s) (el, ts_world s)) (\<lambda>(el', w).
       Inr ((set_loop el' s)\<lparr>ts_world := w, ts_done := Suc (ts_done s)\<rparr>))
     else Inr s)"

text \<open>\<open>EventLoopThread::Run\<close>, one statement.\<close>

definition worker_step ::
    "('f, 'w) loop_exec \<Rightarrow> (thread_id \<Rightarrow> string) \<Rightarrow> ('f, 'w) thread_sys \<Rightarrow> ('f, 'w) thread_sys res" where
  "worker_step exec tid_string s =
     (let t = ts_thread s in
      case ts_worker s of
        WNone \<Rightarrow> Inr s
      | WNameTest \<Rightarrow> Inr (s\<lparr>ts_worker := if lt_name t = [] then WNameSet else WSetRunning\<rparr>)
      | WNameSet \<Rightarrow>
          Inr (s\<lparr>ts_thread := t\<lparr>lt_name := ''thread-'' @ tid_string (ts_tid s)\<rparr>, ts_worker := WSetRunning\<rparr>)
      | WSetRunning \<Rightarrow> Inr (s\<lparr>ts_thread := t\<lparr>lt_status := kRunning\<rparr>, ts_worker := WPre\<rparr>)
      | WPre \<Rightarrow> rbind (call_optional exec (ts_pre s) s) (\<lambda>s'. Inr (s'\<lparr>ts_worker := WRunTid\<rparr>))
      | WRunTid \<Rightarrow> rbind (deref_loop t) (\<lambda>el.
          Inr ((set_loop (el\<lparr>el_tid := ts_tid s\<rparr>) s)\<lparr>ts_worker := WRunFlag\<rparr>))
      | WRunFlag \<Rightarrow> rbind (deref_loop t) (\<lambda>el.
          Inr ((set_loop (loop_call RunService (el\<lparr>el_running := True\<rparr>)) s)\<lparr>ts_worker := WService\<rparr>))
      | WService \<Rightarrow> service_step exec s
      | WRunEnd \<Rightarrow> rbind (deref_loop t) (\<lambda>el.
          Inr ((set_loop (EventLoop_Run_end el) s)\<lparr>ts_worker := WPost\<rparr>))
      | WPost \<Rightarrow> rbind (call_optional exec (ts_post s) s) (\<lambda>s'. Inr (s'\<lparr>ts_worker := WReset\<rparr>))
      | WReset \<Rightarrow> Inr (s\<lparr>ts_thread := t\<lparr>lt_loop := None\<rparr>, ts_worker := WSetStopped\<rparr>)
      | WSetStopped \<Rightarrow> Inr (s\<lparr>ts_thread := t\<lparr>lt_status := kStopped\<rparr>, ts_worker := WDone\<rparr>)
      | WDone \<Rightarrow> Inr s)"

text \<open>
  \<open>Start\<close>, up to its loop. \<open>thread_.reset\<close> destroys the \<open>std::thread\<close> held before, which
  terminates the program if that one is still joinable.
\<close>

definition EventLoopThread_Start ::
    "bool \<Rightarrow> 'f option \<Rightarrow> 'f option \<Rightarrow> thread_id \<Rightarrow> ('f, 'w) thread_sys \<Rightarrow> ('f, 'w) thread_sys res" where
  "EventLoopThread_Start wait pre post tid s =
     (if lt_thread (ts_thread s) = Some True then Inl Terminated
      else
        let s' = s\<lparr>ts_thread := (ts_thread s)\<lparr>lt_thread := Some True\<rparr>, ts_worker := WNameTest,
                  ts_tid := tid, ts_pre := pre, ts_post := post\<rparr>
        in if wait then Inr (s'\<lparr>ts_owner := OStartPoll\<rparr>)
           else Inr (s'\<lparr>ts_returned := ts_returned s @ [RetStart False]\<rparr>))"

text \<open>The owner's statements inside \<open>Start\<close> and \<open>Stop\<close>.\<close>

definition owner_step ::
    "('f, 'w) loop_exec \<Rightarrow> ('f, 'w) thread_sys \<Rightarrow> ('f, 'w) thread_sys res" where
  "owner_step exec s =
     (let t = ts_thread s in
      case ts_owner s of
        OIdle \<Rightarrow> Inr s
      | OStartPoll \<Rightarrow>
          rbind (EventLoopThread_IsRunning t) (\<lambda>r.
          Inr (if r then s\<lparr>ts_owner := OIdle, ts_returned := ts_returned s @ [RetStart True]\<rparr> else s))
      | OStopAssert w \<Rightarrow>
          rbind (if lt_status t = kRunning then EventLoopThread_IsRunning t else Inr False) (\<lambda>ok.
          rbind (cassert ok) (\<lambda>_. Inr (s\<lparr>ts_owner := OStopStatus w\<rparr>)))
      | OStopStatus w \<Rightarrow> Inr (s\<lparr>ts_thread := t\<lparr>lt_status := kStopping\<rparr>, ts_owner := OStopCall w\<rparr>)
      | OStopCall w \<Rightarrow>
          rbind (deref_loop t) (\<lambda>el.
          rbind (EventLoop_Stop exec (ts_owner_tid s) (el, ts_world s)) (\<lambda>(el', wo).
          let s' = (set_loop el' s)\<lparr>ts_world := wo\<rparr>
          in Inr (if w then s'\<lparr>ts_owner := OStopPoll\<rparr>
                  else s'\<lparr>ts_owner := OIdle, ts_returned := ts_returned s @ [RetStop False]\<rparr>)))
      | OStopPoll \<Rightarrow> Inr (if EventLoopThread_IsStopped t then s\<lparr>ts_owner := OJoin\<rparr> else s)
      | OJoin \<Rightarrow>
          (case lt_thread t of
             None \<Rightarrow> Inl NullDeref
           | Some joinable \<Rightarrow>
               Inr (if joinable \<and> ts_worker s \<noteq> WDone then s
                    else s\<lparr>ts_thread := t\<lparr>lt_thread := Some False\<rparr>, ts_owner := OIdle,
                           ts_returned := ts_returned s @ [RetStop True]\<rparr>)))"

text \<open>
  The destructor joins a joinable thread: it returns when there is none or the worker is
  done, and blocks otherwise (\<open>None\<close>).
\<close>

definition EventLoopThread_destroy :: "('f, 'w) thread_sys \<Rightarrow> unit option" where
  "EventLoopThread_destroy s =
     (if lt_thread (ts_thread s) = Some True \<and> ts_worker s \<noteq> WDone then None else Some ())"

section \<open>Interleavings\<close>

datatype 'f thread_event =
    Worker | Owner
  | CallStart bool "'f option" "'f option" thread_id
  | CallStop bool
  | CallSetName string
  | PostOther "'f loop_functor"     \<comment> \<open>another thread queues a functor\<close>
  | AppStop                         \<comment> \<open>the application calls \<open>io_service().stop()\<close>\<close>

fun thread_step :: "('f, 'w) loop_exec \<Rightarrow> (thread_id \<Rightarrow> string) \<Rightarrow> 'f thread_event
    \<Rightarrow> ('f, 'w) thread_sys \<Rightarrow> ('f, 'w) thread_sys res" where
  "thread_step exec ids Worker s = worker_step exec ids s"
| "thread_step exec ids Owner s = owner_step exec s"
| "thread_step exec ids (CallStart wait pre post tid) s = EventLoopThread_Start wait pre post tid s"
| "thread_step exec ids (CallStop wait) s = Inr (s\<lparr>ts_owner := OStopAssert wait\<rparr>)"
| "thread_step exec ids (CallSetName n) s =
     Inr (s\<lparr>ts_thread := EventLoopThread_SetName n (ts_thread s)\<rparr>)"
| "thread_step exec ids (PostOther f) s =
     rbind (deref_loop (ts_thread s)) (\<lambda>el. Inr (set_loop (QueueInLoop f el) s))"
| "thread_step exec ids AppStop s =
     rbind (deref_loop (ts_thread s)) (\<lambda>el.
     Inr ((set_loop (loop_call StopService el) s)\<lparr>ts_app_stop := True\<rparr>))"

text \<open>The owner makes one call at a time, and starts the thread once, with a thread id of its own.\<close>

fun thread_enabled :: "'f thread_event \<Rightarrow> ('f, 'w) thread_sys \<Rightarrow> bool" where
  "thread_enabled (CallStart wait pre post tid) s =
     (ts_owner s = OIdle \<and> lt_thread (ts_thread s) = None \<and> tid \<noteq> ts_owner_tid s)"
| "thread_enabled (CallStop wait) s = (ts_owner s = OIdle)"
| "thread_enabled (CallSetName n) s = (ts_owner s = OIdle)"
| "thread_enabled _ s = True"

fun thread_run :: "('f, 'w) loop_exec \<Rightarrow> (thread_id \<Rightarrow> string) \<Rightarrow> 'f thread_event list
    \<Rightarrow> ('f, 'w) thread_sys \<Rightarrow> ('f, 'w) thread_sys res" where
  "thread_run exec ids [] s = Inr s"
| "thread_run exec ids (ev # evs) s = rbind (thread_step exec ids ev s) (thread_run exec ids evs)"

definition initial_thread :: "thread_id \<Rightarrow> 'w \<Rightarrow> ('f, 'w) thread_sys" where
  "initial_thread self w = \<lparr>ts_thread = EventLoopThread_new self, ts_world = w, ts_worker = WNone,
     ts_tid = self, ts_pre = None, ts_post = None, ts_done = 0, ts_owner = OIdle,
     ts_owner_tid = self, ts_returned = [], ts_app_stop = False\<rparr>"

inductive thread_reachable ::
    "('f, 'w) loop_exec \<Rightarrow> (thread_id \<Rightarrow> string) \<Rightarrow> ('f, 'w) thread_sys \<Rightarrow> bool" for exec ids where
  created: "thread_reachable exec ids (initial_thread self w)"
| event: "thread_reachable exec ids s \<Longrightarrow> thread_enabled ev s \<Longrightarrow>
    thread_step exec ids ev s = Inr s' \<Longrightarrow> thread_reachable exec ids s'"


section \<open>The invariant\<close>

text \<open>The statements of \<open>Run\<close>, numbered in program order.\<close>

fun stage :: "worker_pc \<Rightarrow> nat" where
  "stage WNone = 0" | "stage WNameTest = 1" | "stage WNameSet = 2" | "stage WSetRunning = 3"
| "stage WPre = 4" | "stage WRunTid = 5" | "stage WRunFlag = 6" | "stage WService = 7"
| "stage WRunEnd = 8" | "stage WPost = 9" | "stage WReset = 10" | "stage WSetStopped = 11"
| "stage WDone = 12"

fun stopping :: "owner_pc \<Rightarrow> bool" where
  "stopping (OStopStatus w) = True"
| "stopping (OStopCall w) = True"
| "stopping OStopPoll = True"
| "stopping OJoin = True"
| "stopping _ = False"

definition loop_at :: "('f, 'w) thread_sys \<Rightarrow> 'f event_loop \<Rightarrow> bool" where
  "loop_at s el \<longleftrightarrow>
     (el_running el \<longleftrightarrow> ts_worker s = WService \<or> ts_worker s = WRunEnd)
   \<and> (6 \<le> stage (ts_worker s) \<longrightarrow> el_tid el = ts_tid s)
   \<and> (StopService \<in> set (el_calls el) \<longleftrightarrow> ts_app_stop s)"

definition thread_inv :: "('f, 'w) thread_sys \<Rightarrow> bool" where
  "thread_inv s \<longleftrightarrow>
     (lt_thread (ts_thread s) = None \<longleftrightarrow> ts_worker s = WNone)
   \<and> (lt_loop (ts_thread s) = None \<longleftrightarrow> 11 \<le> stage (ts_worker s))
   \<and> (\<forall>el. lt_loop (ts_thread s) = Some el \<longrightarrow> loop_at s el)
   \<and> (8 \<le> stage (ts_worker s) \<longrightarrow> ts_app_stop s)
   \<and> (lt_status (ts_thread s) = kStopped \<longrightarrow> stage (ts_worker s) \<le> 3 \<or> ts_worker s = WDone)
   \<and> (stage (ts_worker s) \<le> 3 \<longrightarrow> lt_status (ts_thread s) = kStopped)
   \<and> (stopping (ts_owner s) \<longrightarrow> 7 \<le> stage (ts_worker s))
   \<and> (ts_owner s = OStartPoll \<longrightarrow> 1 \<le> stage (ts_worker s))
   \<and> (ts_owner s = OJoin \<longrightarrow> ts_worker s = WDone)
   \<and> (ts_owner s = OStopPoll \<and> ts_worker s = WDone \<longrightarrow> lt_status (ts_thread s) = kStopped)
   \<and> (ts_worker s = WDone \<longrightarrow> lt_status (ts_thread s) \<noteq> kRunning)
   \<and> (RetStart True \<in> set (ts_returned s) \<longrightarrow> 7 \<le> stage (ts_worker s))
   \<and> (RetStop True \<in> set (ts_returned s) \<longrightarrow> ts_worker s = WDone)"

lemma set_loop_sel [simp]:
  "ts_thread (set_loop el s) = (ts_thread s)\<lparr>lt_loop := Some el\<rparr>"
  "ts_world (set_loop el s) = ts_world s" "ts_worker (set_loop el s) = ts_worker s"
  "ts_tid (set_loop el s) = ts_tid s" "ts_owner (set_loop el s) = ts_owner s"
  "ts_returned (set_loop el s) = ts_returned s" "ts_app_stop (set_loop el s) = ts_app_stop s"
  "ts_pre (set_loop el s) = ts_pre s" "ts_post (set_loop el s) = ts_post s"
  "ts_owner_tid (set_loop el s) = ts_owner_tid s" "ts_done (set_loop el s) = ts_done s"
  by (simp_all add: set_loop_def)

lemma deref_loop_Inr [simp]: "deref_loop t = Inr el \<longleftrightarrow> lt_loop t = Some el"
  by (simp add: deref_loop_def split: option.split)

lemma loop_at_extends:
  "loop_at s el \<Longrightarrow> loop_extends el el' \<Longrightarrow> loop_at s el'"
  by (auto simp: loop_at_def loop_extends_def)

lemma loop_at_cong:
  "ts_worker s' = ts_worker s \<Longrightarrow> ts_tid s' = ts_tid s \<Longrightarrow> ts_app_stop s' = ts_app_stop s \<Longrightarrow>
   loop_at s' el = loop_at s el"
  by (simp add: loop_at_def)

text \<open>Replacing the loop by one that was only called, and anything in the application's world.\<close>

lemma thread_inv_loop:
  assumes "thread_inv s" and "lt_loop (ts_thread s) = Some el" and "loop_extends el el'"
  shows "thread_inv ((set_loop el' s)\<lparr>ts_world := w, ts_done := n\<rparr>)"
    and "thread_inv ((set_loop el' s)\<lparr>ts_world := w\<rparr>)" and "thread_inv (set_loop el' s)"
  using assms loop_at_extends [of s el el']
  by (auto simp: thread_inv_def set_loop_def loop_at_def)


lemma thread_inv_loop_at: "thread_inv s \<Longrightarrow> lt_loop (ts_thread s) = Some el \<Longrightarrow> loop_at s el"
  unfolding thread_inv_def by blast

lemma running_stage:
  assumes "thread_inv s" and "lt_loop (ts_thread s) = Some el" and "el_running el"
  shows "7 \<le> stage (ts_worker s)"
proof -
  have "ts_worker s = WService \<or> ts_worker s = WRunEnd"
    using thread_inv_loop_at [OF assms(1,2)] assms(3) unfolding loop_at_def by blast
  then show ?thesis by auto
qed

context loop_client begin

lemma call_optional_inv:
  assumes "thread_inv s" and "call_optional exec g s = Inr s'"
  shows "thread_inv s'" and "ts_worker s' = ts_worker s" and "lt_name (ts_thread s') = lt_name (ts_thread s)"
    and "lt_loop (ts_thread s') = None \<longleftrightarrow> lt_loop (ts_thread s) = None"
    and "ts_owner s' = ts_owner s" and "ts_returned s' = ts_returned s"
proof -
  from assms(2) have "s' = s \<or> (\<exists>f el el' w. lt_loop (ts_thread s) = Some el
      \<and> exec f (el, ts_world s) = Inr (el', w) \<and> s' = (set_loop el' s)\<lparr>ts_world := w\<rparr>)"
    by (cases g) (auto simp: call_optional_def set_loop_def)
  then show "thread_inv s'" "ts_worker s' = ts_worker s" "lt_name (ts_thread s') = lt_name (ts_thread s)"
    "lt_loop (ts_thread s') = None \<longleftrightarrow> lt_loop (ts_thread s) = None"
    "ts_owner s' = ts_owner s" "ts_returned s' = ts_returned s"
    using thread_inv_loop(2) [OF assms(1) _ exec_extends] assms(1) by (auto simp: set_loop_def)
qed

lemma service_step_inv:
  assumes inv: "thread_inv s" and w: "ts_worker s = WService" and "service_step exec s = Inr s'"
  shows "thread_inv s'"
proof -
  from assms(3) obtain el where el: "lt_loop (ts_thread s) = Some el" by (auto simp: service_step_def)
  consider "StopService \<in> set (el_calls el)" "s' = s\<lparr>ts_worker := WRunEnd\<rparr>"
    | f el' wo where "run_functor exec f (el, ts_world s) = Inr (el', wo)"
      "s' = (set_loop el' s)\<lparr>ts_world := wo, ts_done := Suc (ts_done s)\<rparr>"
    | "s' = s"
  proof -
    have "service_step exec s = (if StopService \<in> set (el_calls el) then Inr (s\<lparr>ts_worker := WRunEnd\<rparr>)
      else if ts_done s < length (posted (el_calls el)) then
        rbind (run_functor exec (posted (el_calls el) ! ts_done s) (el, ts_world s)) (\<lambda>(el', w).
        Inr ((set_loop el' s)\<lparr>ts_world := w, ts_done := Suc (ts_done s)\<rparr>))
      else Inr s)"
      using el by (simp add: service_step_def deref_loop_def)
    with assms(3) that show thesis by (fastforce split: if_splits)
  qed
  then show ?thesis
  proof cases
    case 1
    with inv w el show ?thesis by (simp add: thread_inv_def loop_at_def)
  next
    case (2 f el' wo)
    from thread_inv_loop(1) [OF inv el run_functor_extends [OF 2(1)]] 2(2) show ?thesis by simp
  next
    case 3
    with inv show ?thesis by simp
  qed
qed

lemma worker_step_inv:
  assumes inv: "thread_inv s" and st: "worker_step exec ids s = Inr s'"
  shows "thread_inv s'"
proof (cases "ts_worker s")
  case WService
  with inv st service_step_inv show ?thesis by (simp add: worker_step_def)
next
  case WPre
  with st obtain s1 where "call_optional exec (ts_pre s) s = Inr s1" "s' = s1\<lparr>ts_worker := WRunTid\<rparr>"
    by (auto simp: worker_step_def)
  with call_optional_inv [OF inv this(1)] WPre show ?thesis
    by (simp add: thread_inv_def loop_at_def)
next
  case WPost
  with st obtain s1 where "call_optional exec (ts_post s) s = Inr s1" "s' = s1\<lparr>ts_worker := WReset\<rparr>"
    by (auto simp: worker_step_def)
  with call_optional_inv [OF inv this(1)] WPost show ?thesis
    by (simp add: thread_inv_def loop_at_def)
next
  case WRunTid
  with st obtain el where "lt_loop (ts_thread s) = Some el"
    "s' = (set_loop (el\<lparr>el_tid := ts_tid s\<rparr>) s)\<lparr>ts_worker := WRunFlag\<rparr>"
    by (auto simp: worker_step_def)
  with inv WRunTid show ?thesis by (simp add: thread_inv_def loop_at_def)
next
  case WRunFlag
  with st obtain el where "lt_loop (ts_thread s) = Some el"
    "s' = (set_loop (loop_call RunService (el\<lparr>el_running := True\<rparr>)) s)\<lparr>ts_worker := WService\<rparr>"
    by (auto simp: worker_step_def)
  with inv WRunFlag show ?thesis by (simp add: thread_inv_def loop_at_def)
next
  case WRunEnd
  with st obtain el where "lt_loop (ts_thread s) = Some el"
    "s' = (set_loop (EventLoop_Run_end el) s)\<lparr>ts_worker := WPost\<rparr>"
    by (auto simp: worker_step_def)
  with inv WRunEnd show ?thesis by (simp add: thread_inv_def loop_at_def)
next
  case WNameTest
  with assms show ?thesis
    by (cases "lt_name (ts_thread s) = []") (clarsimp simp: worker_step_def thread_inv_def loop_at_def)+
next
  case WNameSet
  then have "s' = s\<lparr>ts_thread := (ts_thread s)\<lparr>lt_name := ''thread-'' @ ids (ts_tid s)\<rparr>,
      ts_worker := WSetRunning\<rparr>"
    using st by (simp add: worker_step_def)
  with inv WNameSet show ?thesis by (simp add: thread_inv_def loop_at_def)
next
  case WSetRunning
  then have "s' = s\<lparr>ts_thread := (ts_thread s)\<lparr>lt_status := kRunning\<rparr>, ts_worker := WPre\<rparr>"
    using st by (simp add: worker_step_def)
  with inv WSetRunning show ?thesis by (simp add: thread_inv_def loop_at_def)
next
  case WReset
  then have "s' = s\<lparr>ts_thread := (ts_thread s)\<lparr>lt_loop := None\<rparr>, ts_worker := WSetStopped\<rparr>"
    using st by (simp add: worker_step_def)
  with inv WReset show ?thesis by (simp add: thread_inv_def loop_at_def)
next
  case WSetStopped
  then have "s' = s\<lparr>ts_thread := (ts_thread s)\<lparr>lt_status := kStopped\<rparr>, ts_worker := WDone\<rparr>"
    using st by (simp add: worker_step_def)
  with inv WSetStopped show ?thesis by (simp add: thread_inv_def loop_at_def)
qed (use assms in \<open>simp_all add: worker_step_def\<close>)

lemma owner_step_inv:
  assumes inv: "thread_inv s" and st: "owner_step exec s = Inr s'"
  shows "thread_inv s'"
proof (cases "ts_owner s")
  case (OStopCall w)
  with st obtain el el' wo where el: "lt_loop (ts_thread s) = Some el"
    and call: "EventLoop_Stop exec (ts_owner_tid s) (el, ts_world s) = Inr (el', wo)"
    and s': "s' = (if w then (set_loop el' s)\<lparr>ts_world := wo\<rparr>\<lparr>ts_owner := OStopPoll\<rparr>
      else (set_loop el' s)\<lparr>ts_world := wo\<rparr>\<lparr>ts_owner := OIdle,
        ts_returned := ts_returned s @ [RetStop False]\<rparr>)"
    by (fastforce simp: owner_step_def Let_def)
  let ?s1 = "(set_loop el' s)\<lparr>ts_world := wo\<rparr>"
  have "thread_inv ?s1" by (rule thread_inv_loop(2) [OF inv el Stop_extends [OF call]])
  moreover have "ts_owner ?s1 = OStopCall w" using OStopCall by (simp add: set_loop_def)
  moreover have "\<not> 11 \<le> stage (ts_worker s)" using inv el by (simp add: thread_inv_def)
  then have "ts_worker s \<noteq> WDone" by auto
  moreover have "\<not> stage (ts_worker s) \<le> 3"
    using inv OStopCall by (simp add: thread_inv_def)
  ultimately show ?thesis unfolding s' by (cases w) (simp_all add: thread_inv_def loop_at_def)
next
  case OStartPoll
  with st obtain el where el: "lt_loop (ts_thread s) = Some el" and s': "s' = (if el_running el then
      s\<lparr>ts_owner := OIdle, ts_returned := ts_returned s @ [RetStart True]\<rparr> else s)"
    by (auto simp: owner_step_def EventLoopThread_IsRunning_def EventLoop_IsRunning_def)
  show ?thesis
  proof (cases "el_running el")
    case True
    then have "7 \<le> stage (ts_worker s)" by (rule running_stage [OF inv el])
    moreover have "s' = s\<lparr>ts_owner := OIdle, ts_returned := ts_returned s @ [RetStart True]\<rparr>"
      using True s' by simp
    ultimately show ?thesis using inv by (auto simp: thread_inv_def loop_at_def)
  qed (use inv s' in simp)
next
  case (OStopAssert w)
  have "lt_status (ts_thread s) = kRunning" using st OStopAssert
    by (auto simp: owner_step_def Let_def split: if_splits)
  with st OStopAssert obtain el where el: "lt_loop (ts_thread s) = Some el" "el_running el"
    and s': "s' = s\<lparr>ts_owner := OStopStatus w\<rparr>"
    by (auto simp: owner_step_def EventLoopThread_IsRunning_def EventLoop_IsRunning_def)
  have "7 \<le> stage (ts_worker s)" by (rule running_stage [OF inv el])
  with inv s' OStopAssert show ?thesis by (simp add: thread_inv_def loop_at_def)
next
  case (OStopStatus w)
  have n: "7 \<le> stage (ts_worker s)" using inv OStopStatus by (simp add: thread_inv_def)
  from st OStopStatus have s': "s' = s\<lparr>ts_thread := (ts_thread s)\<lparr>lt_status := kStopping\<rparr>, ts_owner := OStopCall w\<rparr>"
    by (auto simp: owner_step_def)
  show ?thesis unfolding s' using inv n by (simp add: thread_inv_def loop_at_def)
next
  case OStopPoll
  then have "7 \<le> stage (ts_worker s)" using inv by (simp add: thread_inv_def)
  moreover have "lt_status (ts_thread s) = kStopped \<longrightarrow> stage (ts_worker s) \<le> 3 \<or> ts_worker s = WDone"
    using inv by (simp add: thread_inv_def)
  ultimately have "lt_status (ts_thread s) = kStopped \<longrightarrow> ts_worker s = WDone" by auto
  moreover have "s' = (if lt_status (ts_thread s) = kStopped then s\<lparr>ts_owner := OJoin\<rparr> else s)"
    using st OStopPoll by (simp add: owner_step_def Let_def EventLoopThread_IsStopped_def)
  ultimately show ?thesis using inv by (cases "lt_status (ts_thread s) = kStopped")
    (simp_all add: thread_inv_def loop_at_def)
next
  case OJoin
  then have "ts_worker s = WDone" using inv by (simp add: thread_inv_def)
  moreover from calculation st OJoin have "s' = s\<lparr>ts_thread := (ts_thread s)\<lparr>lt_thread := Some False\<rparr>,
      ts_owner := OIdle, ts_returned := ts_returned s @ [RetStop True]\<rparr>"
    by (simp add: owner_step_def Let_def split: option.splits)
  ultimately show ?thesis using inv by (simp add: thread_inv_def loop_at_def)
qed (use assms in \<open>simp add: owner_step_def\<close>)

lemma thread_step_inv:
  assumes inv: "thread_inv s" and en: "thread_enabled ev s" and st: "thread_step exec ids ev s = Inr s'"
  shows "thread_inv s'"
proof (cases ev)
  case Worker
  with inv st worker_step_inv show ?thesis by simp
next
  case Owner
  with inv st owner_step_inv show ?thesis by simp
next
  case (PostOther f)
  with inv st thread_inv_loop(3) [OF inv _ loop_extends_ops(1)] show ?thesis by auto
next
  case (CallStart wait pre post tid)
  then have "ts_owner s = OIdle" "lt_thread (ts_thread s) = None" using en by simp_all
  moreover from this inv have w: "ts_worker s = WNone" by (simp add: thread_inv_def)
  ultimately have s': "s' = s\<lparr>ts_thread := (ts_thread s)\<lparr>lt_thread := Some True\<rparr>, ts_worker := WNameTest,
      ts_tid := tid, ts_pre := pre, ts_post := post,
      ts_owner := if wait then OStartPoll else OIdle,
      ts_returned := if wait then ts_returned s else ts_returned s @ [RetStart False]\<rparr>"
    using st [unfolded CallStart thread_step.simps EventLoopThread_Start_def Let_def]
    by (cases wait) (auto split: if_splits)
  show ?thesis unfolding s' using inv w by (cases wait) (simp_all add: thread_inv_def loop_at_def)
next
  case (CallStop wait)
  then have s': "s' = s\<lparr>ts_owner := OStopAssert wait\<rparr>" using st by auto
  show ?thesis unfolding s' using inv by (simp add: thread_inv_def loop_at_def)
next
  case (CallSetName n)
  then have s': "s' = s\<lparr>ts_thread := (ts_thread s)\<lparr>lt_name := n\<rparr>\<rparr>"
    using st by (auto simp: EventLoopThread_SetName_def)
  show ?thesis unfolding s' using inv by (simp add: thread_inv_def loop_at_def)
next
  case AppStop
  with st obtain el where "lt_loop (ts_thread s) = Some el"
    "s' = (set_loop (loop_call StopService el) s)\<lparr>ts_app_stop := True\<rparr>" by auto
  with inv show ?thesis by (simp add: thread_inv_def loop_at_def)
qed

lemma thread_reachable_inv: "thread_reachable exec ids s \<Longrightarrow> thread_inv s"
proof (induction rule: thread_reachable.induct)
  case (created self w)
  show ?case by (simp add: thread_inv_def initial_thread_def EventLoopThread_new_def loop_at_def
    EventLoop_new_def)
next
  case (event s ev s')
  then show ?case by (blast intro: thread_step_inv)
qed

end


section \<open>The worker advances\<close>

text \<open>A functor argument that never fails.\<close>

definition never_fails :: "('f, 'w) loop_exec \<Rightarrow> 'f option \<Rightarrow> bool" where
  "never_fails exec g \<longleftrightarrow> (\<forall>f x. g = Some f \<longrightarrow> (\<exists>y. exec f x = Inr y))"

lemma never_fails_None [simp]: "never_fails exec None"
  by (simp add: never_fails_def)

definition same_owner :: "('f, 'w) thread_sys \<Rightarrow> ('f, 'w) thread_sys \<Rightarrow> bool" where
  "same_owner s s' \<longleftrightarrow> ts_owner s' = ts_owner s \<and> ts_pre s' = ts_pre s \<and> ts_post s' = ts_post s
     \<and> ts_app_stop s' = ts_app_stop s \<and> ts_returned s' = ts_returned s"

lemma call_optional_total:
  assumes "never_fails exec g" and "lt_loop (ts_thread s) \<noteq> None"
  shows "\<exists>s'. call_optional exec g s = Inr s' \<and> same_owner s s'"
proof (cases g)
  case (Some f)
  from assms(2) obtain el where el: "lt_loop (ts_thread s) = Some el" by blast
  obtain el' w where "exec f (el, ts_world s) = Inr (el', w)"
    using assms(1) Some unfolding never_fails_def by fast
  with Some el show ?thesis by (simp add: call_optional_def deref_loop_def same_owner_def)
qed (simp add: call_optional_def same_owner_def)

context loop_client begin

text \<open>Every statement of \<open>Run\<close> but the wait inside the service leads to a later one.\<close>

lemma worker_advances:
  assumes inv: "thread_inv s" and pc: "1 \<le> stage (ts_worker s)" "stage (ts_worker s) < 12"
    and go: "ts_worker s = WService \<longrightarrow> ts_app_stop s"
    and fs: "never_fails exec (ts_pre s)" "never_fails exec (ts_post s)"
  shows "\<exists>s'. worker_step exec ids s = Inr s' \<and> same_owner s s' \<and> stage (ts_worker s) < stage (ts_worker s')
    \<and> (stage (ts_worker s) < 7 \<longrightarrow> stage (ts_worker s') \<le> 7)"
proof -
  have loop: "\<not> 11 \<le> stage (ts_worker s) \<longrightarrow> (\<exists>el. lt_loop (ts_thread s) = Some el)"
    using inv by (auto simp: thread_inv_def)
  show ?thesis
  proof (cases "ts_worker s")
    case WPre
    with call_optional_total [OF fs(1), of s] loop obtain s1
      where "call_optional exec (ts_pre s) s = Inr s1" "same_owner s s1" by fastforce
    with WPre show ?thesis by (simp add: worker_step_def same_owner_def)
  next
    case WPost
    with call_optional_total [OF fs(2), of s] loop obtain s1
      where "call_optional exec (ts_post s) s = Inr s1" "same_owner s s1" by fastforce
    with WPost show ?thesis by (simp add: worker_step_def same_owner_def)
  next
    case WService
    with loop obtain el where el: "lt_loop (ts_thread s) = Some el" by auto
    from thread_inv_loop_at [OF inv el] go WService have "StopService \<in> set (el_calls el)"
      by (simp add: loop_at_def)
    with el WService show ?thesis
      by (simp add: worker_step_def service_step_def deref_loop_def same_owner_def)
  next
    case WRunTid
    with loop obtain el where "lt_loop (ts_thread s) = Some el" by auto
    with WRunTid show ?thesis by (simp add: worker_step_def deref_loop_def same_owner_def)
  next
    case WRunFlag
    with loop obtain el where "lt_loop (ts_thread s) = Some el" by auto
    with WRunFlag show ?thesis by (simp add: worker_step_def deref_loop_def same_owner_def)
  next
    case WRunEnd
    with loop obtain el where "lt_loop (ts_thread s) = Some el" by auto
    with WRunEnd show ?thesis by (simp add: worker_step_def deref_loop_def same_owner_def)
  qed (use pc in \<open>simp_all add: worker_step_def same_owner_def\<close>)
qed

lemma thread_run_append:
  "thread_run exec ids (xs @ ys) s = rbind (thread_run exec ids xs s) (thread_run exec ids ys)"
  by (induction xs arbitrary: s) (auto simp: rbind_def split: sum.splits)

text \<open>Between the return of \<open>Start(true)\<close> and a stop of the service by the application.\<close>

lemma started_loop:
  assumes "thread_reachable exec ids s" and "RetStart True \<in> set (ts_returned s)" and "\<not> ts_app_stop s"
  shows "\<exists>el. lt_loop (ts_thread s) = Some el \<and> el_running el \<and> el_tid el = ts_tid s"
    and "ts_worker s = WService" and "\<not> EventLoopThread_IsStopped (ts_thread s)"
proof -
  note inv = thread_reachable_inv [OF assms(1)]
  have "7 \<le> stage (ts_worker s)" "\<not> 8 \<le> stage (ts_worker s)"
    using inv assms(2,3) unfolding thread_inv_def by blast+
  then show w: "ts_worker s = WService" by (cases "ts_worker s") simp_all
  then have "lt_loop (ts_thread s) \<noteq> None" and "lt_status (ts_thread s) \<noteq> kStopped"
    using inv by (auto simp: thread_inv_def)
  then obtain el where el: "lt_loop (ts_thread s) = Some el" by blast
  with thread_inv_loop_at [OF inv el] w
  show "\<exists>el. lt_loop (ts_thread s) = Some el \<and> el_running el \<and> el_tid el = ts_tid s"
    by (simp add: loop_at_def)
  show "\<not> EventLoopThread_IsStopped (ts_thread s)"
    using \<open>lt_status (ts_thread s) \<noteq> kStopped\<close> by (simp add: EventLoopThread_IsStopped_def)
qed

text \<open>
  So the worker reaches the service from any earlier statement, and its end from any later
  one once the service is stopped, in as many steps as there are statements in between.
\<close>

lemma worker_reaches:
  assumes "thread_inv s" and "1 \<le> stage (ts_worker s)" and "stage (ts_worker s) \<le> k"
    and "k = 7 \<or> k = 12 \<and> ts_app_stop s"
    and "never_fails exec (ts_pre s)" and "never_fails exec (ts_post s)"
  shows "\<exists>n s'. n \<le> k - stage (ts_worker s) \<and> thread_run exec ids (replicate n Worker) s = Inr s'
    \<and> stage (ts_worker s') = k \<and> same_owner s s' \<and> thread_inv s'"
  using assms
proof (induction "k - stage (ts_worker s)" arbitrary: s rule: less_induct)
  case less
  show ?case
  proof (cases "stage (ts_worker s) = k")
    case True
    with less.prems show ?thesis by (intro exI [of _ 0] exI [of _ s]) (simp add: same_owner_def)
  next
    case False
    with less.prems(3) have lt: "stage (ts_worker s) < k" by simp
    have "stage (ts_worker s) < 12" "ts_worker s = WService \<longrightarrow> ts_app_stop s"
      using lt less.prems(4) by auto
    from worker_advances [OF less.prems(1,2) this less.prems(5,6), of ids] obtain s1
      where s1: "worker_step exec ids s = Inr s1" "same_owner s s1"
        "stage (ts_worker s) < stage (ts_worker s1)"
        "stage (ts_worker s) < 7 \<longrightarrow> stage (ts_worker s1) \<le> 7" by blast
    have inv1: "thread_inv s1" by (rule worker_step_inv [OF less.prems(1) s1(1)])
    have "stage (ts_worker s1) \<le> 12" by (cases "ts_worker s1") simp_all
    with s1(4) lt less.prems(4) have le: "stage (ts_worker s1) \<le> k" by auto
    have "\<exists>n s'. n \<le> k - stage (ts_worker s1) \<and> thread_run exec ids (replicate n Worker) s1 = Inr s'
        \<and> stage (ts_worker s') = k \<and> same_owner s1 s' \<and> thread_inv s'"
      using less.hyps [OF _ inv1 _ le] s1(2,3) lt less.prems(2,4-6) by (simp add: same_owner_def)
    then obtain n s' where n: "n \<le> k - stage (ts_worker s1)"
      "thread_run exec ids (replicate n Worker) s1 = Inr s'" "stage (ts_worker s') = k"
      "same_owner s1 s'" "thread_inv s'" by blast
    then have "thread_run exec ids (replicate (Suc n) Worker) s = Inr s'" using s1(1) by simp
    moreover have "Suc n \<le> k - stage (ts_worker s)" using n(1) s1(3) le by simp
    moreover have "same_owner s s'" using s1(2) n(4) by (simp add: same_owner_def)
    ultimately show ?thesis using n(3,5) by blast
  qed
qed

text \<open>The owner's polls, once the worker is where they look for it.\<close>

lemma start_poll_returns:
  assumes "thread_inv s" and "ts_owner s = OStartPoll" and "stage (ts_worker s) = 7"
  shows "owner_step exec s = Inr (s\<lparr>ts_owner := OIdle, ts_returned := ts_returned s @ [RetStart True]\<rparr>)"
proof -
  have w: "ts_worker s = WService" using assms(3) by (cases "ts_worker s") simp_all
  have "lt_loop (ts_thread s) \<noteq> None" using assms(1) w by (auto simp: thread_inv_def)
  then obtain el where el: "lt_loop (ts_thread s) = Some el" by blast
  have "el_running el" using thread_inv_loop_at [OF assms(1) el] w by (simp add: loop_at_def)
  then show ?thesis using assms(2) el
    by (simp add: owner_step_def EventLoopThread_IsRunning_def deref_loop_def EventLoop_IsRunning_def)
qed

lemma stop_poll_returns:
  assumes "thread_inv s" and "ts_owner s = OStopPoll" and "stage (ts_worker s) = 12"
  shows "\<exists>s'. thread_run exec ids [Owner, Owner] s = Inr s' \<and> ts_owner s' = OIdle
    \<and> ts_returned s' = ts_returned s @ [RetStop True]"
proof -
  have w: "ts_worker s = WDone" using assms(3) by (cases "ts_worker s") simp_all
  have "lt_status (ts_thread s) = kStopped" "lt_thread (ts_thread s) \<noteq> None"
    using assms(1,2) w by (simp_all add: thread_inv_def)
  then show ?thesis using assms(2) w
    by (auto simp: owner_step_def EventLoopThread_IsStopped_def)
qed

end

end
