(* ===== verification/Conn_Properties.thy ===== *)
theory Conn_Properties
  imports Echo_App
begin

text \<open>
  The properties of a connection, each with a run of the echo server's callbacks on a fresh
  connection as its witness. \<open>conn_client cbs\<close> is the contract of the callbacks
  (\<open>Conn_Contract\<close>), \<open>conn_reachable cbs s\<close> says that \<open>s\<close> is a state some sequence of calls
  and completions leads to (\<open>Conn_System\<close>).
\<close>

section \<open>Concrete runs\<close>

definition demo_socket :: asio_socket where
  "demo_socket = \<lparr>so_open = True, so_local = Some (''10.0.0.1'', 7788),
     so_remote = Some (''10.0.0.2'', 4000)\<rparr>"

definition demo_conn :: "app_env tcpconn" where
  "demo_conn = \<lparr>tc_loop = 0, tc_socket = demo_socket, tc_type = kIncoming,
     tc_status = kDisconnected, tc_name = ''conn'',
     tc_local_ep = (''10.0.0.1'', 7788), tc_remote_ep = (''10.0.0.2'', 4000),
     tc_recv_buffer = ByteBuffer_default, tc_async_writing = False,
     tc_write_buffer = ByteBuffer_default, tc_writing_buffer = ByteBuffer_default,
     tc_high_water_mark = 32 * 1024 * 1024, tc_calls = [],
     tc_env = \<lparr>oe_removed = 0, ap_console = []\<rparr>\<rparr>"

lemma demo_conn_new: "TCPConn_new 0 demo_socket ''conn'' \<lparr>oe_removed = 0, ap_console = []\<rparr> = Inr demo_conn"
  by (simp add: TCPConn_new_def demo_socket_def demo_conn_def)

lemma demo_reachable:
  "conn_run cbs evs (initial_sys demo_conn) = Inr s \<Longrightarrow> conn_reachable cbs s"
  by (rule conn_run_reachable [OF conn_reachable.fresh [OF new_conn_incoming [OF demo_conn_new]]])

text \<open>The defining equations needed to run a connection on concrete events.\<close>

lemmas buffer_eval = ByteBuffer_default_def Write_def EstimateSize_def Resize_def vec_resize_def
  mem_write_def mem_read_def ValidSize_def Capacity_def Size_def ReadBegin_def WriteBegin_def
  Data_def WriteBytes_def ReadBytes_def Normalize_def vec_max_size_def Let_def

lemmas conn_eval = OnAttachedToLoop_def SendInLoop_def SendStringInLoop_def Send_def AsyncWrite_def
  AsyncRead_def HandleWrite_def HandleRead_def HandleClose_def HandleError_def bytes_sent_def
  place_received_def socket_close_def swap_buffers_def outgoing_call_def is_open_def
  IsConnected_def IsDisconnecting_def Close_def Close_task_def SetHighWaterMarkCallback_def

lemmas echo_eval = echo_server_cbs_def SetCloseCallback_def SetConnCallback_def
  SetMessageCallback_def no_callbacks_def server_OnConnection_def server_OnMessage_def
  print_and_consume_def print_def string_bytes_def

lemmas demo_eval = buffer_eval conn_eval echo_eval demo_conn_def demo_socket_def initial_sys_def

section \<open>Sending\<close>

text \<open>C1. Stream integrity. Whatever the interleaving of sends (on the loop's thread or queued
  from others), partial writes, reads, errors and closing, the bytes that the connection has
  taken over are exactly those the socket has accepted followed by those still buffered: none
  is lost, duplicated or reordered by the two-buffer scheme.\<close>

theorem conn_stream_integrity:
  assumes "conn_client cbs" and "conn_reachable cbs s"
  shows "accepted (cs_conn s) = cs_delivered s @ pending (cs_conn s)"
  using sys_invD(2) [OF conn_client.reachable_inv [OF assms]] .

theorem conn_stream_integrity_witness:
  "\<exists>s. conn_run (echo_server_cbs None)
         [EvAttached, EvSend [1, 2, 3], EvSend [4], EvWriteDone 2] (initial_sys demo_conn) = Inr s
     \<and> cs_delivered s = [1, 2] \<and> [1, 2, 3, 4] = cs_delivered s @ pending (cs_conn s)"
proof -
  let ?evs = "[EvAttached, EvSend [1, 2, 3], EvSend [4], EvWriteDone 2]"
  obtain s where run: "conn_run (echo_server_cbs None) ?evs (initial_sys demo_conn) = Inr s"
    and "cs_delivered s = [1, 2]" and "accepted (cs_conn s) = [1, 2, 3, 4]"
    by (simp add: demo_eval)
  with conn_stream_integrity [OF echo_server.conn_client_axioms demo_reachable [OF run]]
  show ?thesis by metis
qed

text \<open>C6. At most one asynchronous write is in progress, exactly when \<open>async_writing_\<close> is set;
  it covers exactly the unsent bytes of \<open>writing_buffer_\<close>, inside its storage; and no event
  other than its own completion changes that buffer, so the memory handed to asio stays valid
  and unchanged while the write is in progress.\<close>

theorem conn_write_in_progress:
  assumes "conn_client cbs" and "conn_reachable cbs s"
  defines "W \<equiv> tc_writing_buffer (cs_conn s)"
  shows "length (writes (cs_conn s)) = cs_writes_done s + of_bool (tc_async_writing (cs_conn s))
    \<and> (tc_async_writing (cs_conn s) \<longrightarrow>
          last (writes (cs_conn s)) = (ReadBegin W, Size W)
        \<and> unat (ReadBegin W) + unat (Size W) \<le> length (bb_storage W)
        \<and> (\<forall>ev s'. enabled ev s \<longrightarrow> conn_step cbs ev s = Inr s' \<longrightarrow>
              (\<forall>n e. ev \<noteq> EvWriteDone n \<and> ev \<noteq> EvWriteFailed e) \<longrightarrow>
              tc_writing_buffer (cs_conn s') = W))"
proof (intro conjI impI allI)
  note inv = conn_client.reachable_inv [OF assms(1,2)]
  note i = sys_invD(1) [OF inv]
  have ok: "buf_ok W" using i by (simp add: tx_inv_def W_def)
  show "length (writes (cs_conn s)) = cs_writes_done s + of_bool (tc_async_writing (cs_conn s))"
    using sys_invD(3) [OF inv] .
  assume aw: "tc_async_writing (cs_conn s)"
  show "last (writes (cs_conn s)) = (ReadBegin W, Size W)"
    using i aw by (simp add: tx_inv_def current_request_def W_def)
  show "unat (ReadBegin W) + unat (Size W) \<le> length (bb_storage W)"
    using buf_okD(1,2) [OF ok] by (simp add: unat_Size [OF ok])
  fix ev s'
  assume "enabled ev s" "conn_step cbs ev s = Inr s'"
    "\<forall>n e. ev \<noteq> EvWriteDone n \<and> ev \<noteq> EvWriteFailed e"
  from conn_client.step_keeps_write [OF assms(1) inv this(1,2) aw this(3)]
  show "tc_writing_buffer (cs_conn s') = W" by (simp add: W_def)
qed

theorem conn_write_in_progress_witness:
  "\<exists>s s'. conn_run (echo_server_cbs None) [EvAttached, EvSend [1, 2, 3]] (initial_sys demo_conn) = Inr s
     \<and> conn_step (echo_server_cbs None) (EvSend [4]) s = Inr s'
     \<and> last (writes (cs_conn s)) = (0, 3) \<and> length (writes (cs_conn s)) = 1
     \<and> tc_writing_buffer (cs_conn s') = tc_writing_buffer (cs_conn s)"
proof -
  let ?cbs = "echo_server_cbs None"
  obtain s where run: "conn_run ?cbs [EvAttached, EvSend [1, 2, 3]] (initial_sys demo_conn) = Inr s"
    and aw: "tc_async_writing (cs_conn s)" and d: "cs_writes_done s = 0"
    and b: "ReadBegin (tc_writing_buffer (cs_conn s)) = 0" "Size (tc_writing_buffer (cs_conn s)) = 3"
    and ex: "\<exists>s'. conn_step ?cbs (EvSend [4]) s = Inr s'"
    by (simp add: demo_eval)
  from ex obtain s' where st: "conn_step ?cbs (EvSend [4]) s = Inr s'" by blast
  note t = conn_write_in_progress [OF echo_server.conn_client_axioms demo_reachable [OF run]]
  moreover have "enabled (EvSend [4]) s" "\<forall>n e. EvSend [4] \<noteq> EvWriteDone n \<and> EvSend [4] \<noteq> EvWriteFailed e"
    by simp_all
  ultimately have "tc_writing_buffer (cs_conn s') = tc_writing_buffer (cs_conn s)"
    using aw st by blast
  then show ?thesis using run st t aw d b by auto
qed


text \<open>C2. No lost wake-up, and draining. While the socket is open, buffered bytes always have a
  write in progress, so their sending never depends on a further call of \<open>Send\<close>; and at
  most two completions of the full request deliver everything taken over so far.\<close>

theorem conn_no_lost_wakeup:
  assumes "conn_client cbs" and "conn_reachable cbs s"
    and "is_open (cs_conn s)" and "pending (cs_conn s) \<noteq> []"
  shows "tc_async_writing (cs_conn s) \<and> cs_writes_done s < length (writes (cs_conn s))
    \<and> (\<exists>evs s'. length evs \<le> 2 \<and> (\<forall>ev \<in> set evs. \<exists>n. ev = EvWriteDone n)
        \<and> conn_run cbs evs s = Inr s' \<and> pending (cs_conn s') = []
        \<and> cs_delivered s' = accepted (cs_conn s))"
proof -
  note inv = conn_client.reachable_inv [OF assms(1,2)]
  have aw: "tc_async_writing (cs_conn s)"
    using sys_invD(1) [OF inv] assms(3,4) by (auto simp: tx_inv_def)
  then show ?thesis
    using sys_invD(3) [OF inv] conn_client.drain [OF assms(1) inv aw] by simp
qed

theorem conn_no_lost_wakeup_witness:
  "\<exists>s. conn_run (echo_server_cbs None) [EvAttached, EvSend [1, 2, 3], EvSend [4]] (initial_sys demo_conn) = Inr s
     \<and> (\<exists>evs s'. length evs \<le> 2 \<and> conn_run (echo_server_cbs None) evs s = Inr s'
          \<and> cs_delivered s' = [1, 2, 3, 4])"
proof -
  obtain s where run: "conn_run (echo_server_cbs None) [EvAttached, EvSend [1, 2, 3], EvSend [4]]
      (initial_sys demo_conn) = Inr s"
    and o: "is_open (cs_conn s)" and p: "pending (cs_conn s) \<noteq> []"
    and a: "accepted (cs_conn s) = [1, 2, 3, 4]"
    by (simp add: demo_eval pending_def readable_def)
  from conn_no_lost_wakeup [OF echo_server.conn_client_axioms demo_reachable [OF run] o p] a run
  show ?thesis by metis
qed

text \<open>\<open>SendInLoop\<close> as one equation per branch, on an open connection.\<close>

lemma SendInLoop_idle_eq:
  assumes "tx_inv c" and "is_open c" and "\<not> tc_async_writing c"
  shows "SendInLoop cbs True d c = rbind (Write d (tc_writing_buffer c))
    (\<lambda>b. Inr (AsyncWrite ((outgoing_call (Accepted d) c)\<lparr>tc_writing_buffer := b\<rparr>)))"
proof -
  have "\<not> 0 < Size (tc_write_buffer c)"
    using assms Size_gt_0 [of "tc_write_buffer c"] by (simp add: tx_inv_def pending_def)
  with assms show ?thesis by (simp add: SendInLoop_def Let_def)
qed

lemma Size_of_nat: "buf_ok b \<Longrightarrow> Size b = of_nat (length (readable b))"
  by (simp add: length_readable)

lemma SendInLoop_busy_eq:
  assumes inv: "tx_inv c" and "is_open c" and "tc_async_writing c"
    and b: "Write d (tc_write_buffer c) = Inr b"
  defines "n \<equiv> of_nat (length (pending c) + length d) :: size_t"
  shows "SendInLoop cbs True d c =
    (if tc_high_water_mark c < n
     then case high_water_mark_fn cbs of
            None \<Rightarrow> Inr (send_queued d b c)
          | Some h \<Rightarrow> h n (outgoing_call (CallHighWaterMarkFn n) (send_queued d b c))
     else Inr (send_queued d b c))"
    and "tc_high_water_mark c < n \<longleftrightarrow> unat (tc_high_water_mark c) < length (pending c) + length d"
proof -
  have ok: "buf_ok (tc_writing_buffer c)" "buf_ok (tc_write_buffer c)"
    using inv by (simp_all add: tx_inv_def)
  note w = Write_InrD [OF ok(2) b]
  have n: "Size b + Size (tc_writing_buffer c) = n"
    using w ok by (simp add: Size_of_nat n_def pending_def)
  show "SendInLoop cbs True d c =
    (if tc_high_water_mark c < n
     then case high_water_mark_fn cbs of
            None \<Rightarrow> Inr (send_queued d b c)
          | Some h \<Rightarrow> h n (outgoing_call (CallHighWaterMarkFn n) (send_queued d b c))
     else Inr (send_queued d b c))"
    using assms(2,3) b n by (simp add: SendInLoop_def Let_def send_queued_def split: option.split)
  have "length (readable b) < 2 ^ 63" "length (readable (tc_writing_buffer c)) < 2 ^ 63"
    using buf_okD(2,3) [OF w(1)] buf_okD(2,3) [OF ok(1)] by (simp_all add: readable_def)
  then have "unat n = length (pending c) + length d"
    unfolding n_def using w(2) by (intro unat_of_size) (simp add: pending_def)
  then show "tc_high_water_mark c < n \<longleftrightarrow> unat (tc_high_water_mark c) < length (pending c) + length d"
    by (simp add: word_less_nat_alt)
qed

lemma Send_total:
  assumes "conn_client cbs" and inv: "tx_inv c"
    and "length (accepted c) + length d < 2 ^ 60"
    and "\<forall>h n c. high_water_mark_fn cbs = Some h \<longrightarrow> tx_inv c \<longrightarrow> (\<exists>c'. h n c = Inr c')"
  shows "\<exists>c' x. Send cbs True d c = Inr c' \<and> tx_inv c'
    \<and> (is_open c \<longrightarrow> accepted c' = accepted c @ d @ x)"
proof -
  have ok: "buf_ok (tc_writing_buffer c)" "buf_ok (tc_write_buffer c)"
    and total: "unat (bb_wpos (tc_writing_buffer c)) + unat (bb_wpos (tc_write_buffer c)) = length (accepted c)"
    using inv by (simp_all add: tx_inv_def)
  have t: "tight (tc_writing_buffer c)" "tight (tc_write_buffer c)"
    using inv assms(3) by (simp_all add: tx_inv_def)
  obtain b1 b2 where b: "Write d (tc_writing_buffer c) = Inr b1" "Write d (tc_write_buffer c) = Inr b2"
    using Write_total [OF ok(1) t(1), of d] Write_total [OF ok(2) t(2), of d] total assms(3) by auto
  have cb: "cb_ok (Send cbs True d)" by (rule conn_client.Send_ok [OF assms(1)])
  have "\<exists>c' x. Send cbs True d c = Inr c' \<and> (is_open c \<longrightarrow> accepted c' = accepted c @ d @ x)"
  proof (cases "is_open c")
    case False
    then show ?thesis by (simp add: Send_def SendInLoop_def)
  next
    case op: True
    show ?thesis
    proof (cases "tc_async_writing c")
      case False
      then show ?thesis
        using b by (simp add: Send_def SendInLoop_idle_eq [OF inv op] AsyncWrite_def)
    next
      case True
      let ?q = "send_queued d b2 c"
      have q: "tx_inv ?q" "accepted ?q = accepted c @ d"
        using send_queued_step(1) [OF inv True b(2)] by (simp_all add: send_queued_def)
      note eq = SendInLoop_busy_eq(1) [OF inv op True b(2), of cbs]
      show ?thesis
      proof (cases "\<exists>h. high_water_mark_fn cbs = Some h \<and>
          tc_high_water_mark c < of_nat (length (pending c) + length d)")
        case False
        then have "Send cbs True d c = Inr ?q" by (auto simp: Send_def eq split: option.split)
        then show ?thesis using q by simp
      next
        case True
        then obtain h where h: "high_water_mark_fn cbs = Some h"
          and lt: "tc_high_water_mark c < of_nat (length (pending c) + length d)" by blast
        let ?n = "of_nat (length (pending c) + length d) :: size_t"
        let ?q1 = "outgoing_call (CallHighWaterMarkFn ?n) ?q"
        have q1: "tx_inv ?q1" by (rule same_tx_inv [OF same_tx_log(4) q(1)])
        obtain c' where c': "h ?n ?q1 = Inr c'" using assms(4) h q1 by blast
        from cb_okD(2) [OF conn_client.hwm_fn_ok [OF assms(1) h] q1 c'] q(2)
        obtain x where "accepted c' = accepted c @ d @ x" by (auto simp: tx_step_def)
        moreover have "Send cbs True d c = Inr c'" using lt h c' by (simp add: Send_def eq)
        ultimately show ?thesis by blast
      qed
    qed
  qed
  then show ?thesis using cb_okD(1) [OF cb inv] by blast
qed

text \<open>A \<open>Send\<close> without a high-water-mark callback.\<close>

lemma quiet_send_frame:
  assumes "Send no_callbacks True d c = Inr c'" and "is_open c"
  shows "accepted c' = accepted c @ d \<and> tc_env c' = tc_env c \<and> is_open c' \<and> tc_status c' = tc_status c
    \<and> tc_recv_buffer c' = tc_recv_buffer c \<and> reads c' = reads c"
  using assms
  by (auto simp: Send_def SendInLoop_def Let_def AsyncWrite_def swap_buffers_def no_callbacks_def
      case_prod_unfold is_open_def split: if_splits)

lemma quiet_send:
  assumes "tx_inv c" and "is_open c" and "length (accepted c) + length d < 2 ^ 60"
  obtains c' where "Send no_callbacks True d c = Inr c'" and "tx_inv c'" and "is_open c'"
    and "accepted c' = accepted c @ d" and "tc_env c' = tc_env c" and "tc_status c' = tc_status c"
proof -
  obtain c' where c': "Send no_callbacks True d c = Inr c'" "tx_inv c'"
    using Send_total [OF silent.conn_client_axioms assms(1,3)] by (auto simp: no_callbacks_def)
  with quiet_send_frame [OF c'(1) assms(2)] that show thesis by simp
qed

text \<open>C9. \<open>Send\<close> on the loop's thread does not fault: as long as less than 1 EiB has been sent
  over the connection and the high-water-mark callback itself returns, no copy leaves a
  buffer and no allocation size overflows; on an open socket the data is taken over, after
  everything sent before (and before anything the callback sends).\<close>

theorem conn_send_no_fault:
  assumes "conn_client cbs" and "conn_reachable cbs s"
    and "length (accepted (cs_conn s)) + length d < 2 ^ 60"
    and "\<forall>h n c. high_water_mark_fn cbs = Some h \<longrightarrow> tx_inv c \<longrightarrow> (\<exists>c'. h n c = Inr c')"
  shows "\<exists>c' x. Send cbs True d (cs_conn s) = Inr c' \<and> tx_inv c'
    \<and> (is_open (cs_conn s) \<longrightarrow> accepted c' = accepted (cs_conn s) @ d @ x)"
  by (rule Send_total [OF assms(1) sys_invD(1) [OF conn_client.reachable_inv [OF assms(1,2)]] assms(3,4)])

theorem conn_send_no_fault_witness:
  "\<exists>s c'. conn_run (echo_server_cbs None) [EvAttached, EvSend [1, 2, 3]] (initial_sys demo_conn) = Inr s
     \<and> Send (echo_server_cbs None) True [4, 5] (cs_conn s) = Inr c' \<and> tx_inv c'"
proof -
  obtain s where run: "conn_run (echo_server_cbs None) [EvAttached, EvSend [1, 2, 3]]
      (initial_sys demo_conn) = Inr s" and a: "length (accepted (cs_conn s)) + length [4, 5 :: byte] < 2 ^ 60"
    by (simp add: demo_eval)
  have "\<forall>h n c. high_water_mark_fn (echo_server_cbs None) = Some h \<longrightarrow> tx_inv c \<longrightarrow> (\<exists>c'. h n c = Inr c')"
    by (simp add: echo_eval)
  from conn_send_no_fault [OF echo_server.conn_client_axioms demo_reachable [OF run] a this] run
  show ?thesis by blast
qed

text \<open>The high-water mark. The callback is invoked exactly when data is queued behind a write
  in progress and the buffered total then exceeds the mark, with that total as its argument;
  on an idle connection it is never consulted, however large the data.\<close>

theorem conn_high_water_mark:
  assumes "conn_client cbs" and "conn_reachable cbs s" and "is_open (cs_conn s)"
    and "high_water_mark_fn cbs = Some h" and "Write d (tc_write_buffer (cs_conn s)) = Inr b"
  defines "c \<equiv> cs_conn s" and "n \<equiv> length (pending (cs_conn s)) + length d"
  shows "SendInLoop cbs True d c =
    (if tc_async_writing c
     then if unat (tc_high_water_mark c) < n
          then h (of_nat n) (outgoing_call (CallHighWaterMarkFn (of_nat n)) (send_queued d b c))
          else Inr (send_queued d b c)
     else SendInLoop no_callbacks True d c)"
proof -
  note inv = sys_invD(1) [OF conn_client.reachable_inv [OF assms(1,2)]]
  show ?thesis
    using SendInLoop_busy_eq(1) [OF inv assms(3) _ assms(5), of cbs]
      SendInLoop_busy_eq(2) [OF inv assms(3) _ assms(5)] assms(4)
      SendInLoop_idle_eq [OF inv assms(3)]
    by (auto simp: c_def n_def)
qed

theorem conn_high_water_mark_witness:
  "\<exists>s b. conn_run ((echo_server_cbs None)\<lparr>high_water_mark_fn := Some (\<lambda>n. Inr)\<rparr>)
         [EvAttached, EvSetMark 3, EvSend [1, 2, 3]] (initial_sys demo_conn) = Inr s
     \<and> SendInLoop ((echo_server_cbs None)\<lparr>high_water_mark_fn := Some (\<lambda>n. Inr)\<rparr>) True [4] (cs_conn s)
       = Inr (outgoing_call (CallHighWaterMarkFn 4) (send_queued [4] b (cs_conn s)))"
proof -
  let ?cbs = "(echo_server_cbs None)\<lparr>high_water_mark_fn := Some (\<lambda>n. Inr)\<rparr> :: app_env conn_callbacks"
  have client: "conn_client ?cbs"
    using echo_server.conn_fn_ok echo_server.msg_fn_ok by unfold_locales (auto simp: echo_eval)
  obtain s where run: "conn_run ?cbs [EvAttached, EvSetMark 3, EvSend [1, 2, 3]] (initial_sys demo_conn) = Inr s"
    and o: "is_open (cs_conn s)" and aw: "tc_async_writing (cs_conn s)"
    and p: "length (pending (cs_conn s)) = 3" and m: "tc_high_water_mark (cs_conn s) = 3"
    and b: "\<exists>b. Write [4] (tc_write_buffer (cs_conn s)) = Inr b"
    by (simp add: demo_eval pending_def readable_def)
  from b obtain b where "Write [4] (tc_write_buffer (cs_conn s)) = Inr b" by blast
  from conn_high_water_mark [OF client demo_reachable [OF run] o _ this] run aw p m
  show ?thesis by fastforce
qed


text \<open>The send buffers are never normalised, so their storage is never reused: in every
  reachable state the two storages together are at least as long as everything ever sent over
  the connection, also when nothing is left to send. The memory of a long-lived connection
  grows with its total traffic.\<close>

theorem conn_send_storage_grows:
  assumes "conn_client cbs" and "conn_reachable cbs s"
  shows "length (accepted (cs_conn s))
    \<le> length (bb_storage (tc_writing_buffer (cs_conn s))) + length (bb_storage (tc_write_buffer (cs_conn s)))"
proof -
  note inv = sys_invD(1) [OF conn_client.reachable_inv [OF assms]]
  have ok: "buf_ok (tc_writing_buffer (cs_conn s))" "buf_ok (tc_write_buffer (cs_conn s))"
    and total: "unat (bb_wpos (tc_writing_buffer (cs_conn s))) + unat (bb_wpos (tc_write_buffer (cs_conn s)))
      = length (accepted (cs_conn s))"
    using inv by (simp_all add: tx_inv_def)
  show ?thesis using buf_okD(2) [OF ok(1)] buf_okD(2) [OF ok(2)] total by linarith
qed

theorem conn_send_storage_grows_witness:
  "\<exists>s. conn_run (echo_server_cbs None)
         [EvAttached, EvSend (replicate 8192 1), EvWriteDone 8192, EvSend [2], EvWriteDone 1]
         (initial_sys demo_conn) = Inr s
     \<and> pending (cs_conn s) = []
     \<and> 8193 \<le> length (bb_storage (tc_writing_buffer (cs_conn s))) + length (bb_storage (tc_write_buffer (cs_conn s)))"
proof -
  obtain s where run: "conn_run (echo_server_cbs None)
         [EvAttached, EvSend (replicate 8192 1), EvWriteDone 8192, EvSend [2], EvWriteDone 1]
         (initial_sys demo_conn) = Inr s"
    and p: "pending (cs_conn s) = []" and a: "length (accepted (cs_conn s)) = 8193"
    by (simp add: demo_eval pending_def readable_def)
  from conn_send_storage_grows [OF echo_server.conn_client_axioms demo_reachable [OF run]]
  show ?thesis using run p a by auto
qed

section \<open>Receiving\<close>

text \<open>C8. At most one asynchronous read is in progress, into exactly the free part of the
  receive buffer and inside its storage; when it completes with data \<open>d\<close>, the message callback
  runs once, on a buffer whose readable bytes are the ones the application had left there
  followed by \<open>d\<close>, and the next read is started after it.\<close>

theorem conn_receive:
  assumes "conn_client cbs" and "conn_reachable cbs s" and "msg_fn cbs = Some f"
    and "enabled (EvReadDone d) s" and "conn_step cbs (EvReadDone d) s = Inr s'"
  defines "R \<equiv> tc_recv_buffer (cs_conn s)"
  shows "length (reads (cs_conn s)) = Suc (cs_reads_done s)
    \<and> last (reads (cs_conn s)) = (WriteBegin R, ValidSize R)
    \<and> unat (WriteBegin R) + unat (ValidSize R) = length (bb_storage R)
    \<and> (\<exists>c1 c2. f c1 = Inr c2 \<and> readable (tc_recv_buffer c1) = readable R @ d
          \<and> tc_calls c1 = tc_calls (cs_conn s) @ [CallMsgFn]
          \<and> cs_conn s' = AsyncRead c2)"
proof -
  let ?c = "cs_conn s"
  note inv = sys_invD [OF conn_client.reachable_inv [OF assms(1,2)]]
  have ok: "buf_ok R" using inv(4) by (simp add: R_def)
  have en: "cs_reads_done s < length (reads ?c)" using assms(4) by simp
  have req: "last (reads ?c) = (WriteBegin R, ValidSize R)" using inv(7) [OF en] by (simp add: R_def)
  have len: "length d \<le> unat (ValidSize R)" using assms(4) req by simp
  obtain st where st: "place_received d ?c = Inr (?c\<lparr>tc_recv_buffer := R\<lparr>bb_storage := st\<rparr>\<rparr>)"
    and rd: "readable (WriteBytes (of_nat (length d)) (R\<lparr>bb_storage := st\<rparr>)) = readable R @ d"
    using place_received_ok [of ?c d] ok req len unfolding R_def by metis
  let ?c1 = "outgoing_call CallMsgFn
    (?c\<lparr>tc_recv_buffer := WriteBytes (of_nat (length d)) (R\<lparr>bb_storage := st\<rparr>)\<rparr>)"
  from assms(3,5) st obtain c2 where "f ?c1 = Inr c2" and "cs_conn s' = AsyncRead c2"
    by (auto simp: HandleRead_def Let_def)
  then have "\<exists>c1 c2. f c1 = Inr c2 \<and> readable (tc_recv_buffer c1) = readable R @ d
      \<and> tc_calls c1 = tc_calls ?c @ [CallMsgFn] \<and> cs_conn s' = AsyncRead c2"
    using rd by (intro exI [of _ ?c1] exI [of _ c2]) simp
  moreover have "unat (WriteBegin R) + unat (ValidSize R) = length (bb_storage R)"
    using buf_okD(2) [OF ok] by (simp add: unat_ValidSize [OF ok] free_space_def)
  ultimately show ?thesis using req en inv(6) by simp
qed

theorem conn_receive_witness:
  "\<exists>s s' c1 c2. conn_run (echo_server_cbs None) [EvAttached] (initial_sys demo_conn) = Inr s
     \<and> conn_step (echo_server_cbs None) (EvReadDone [104, 105]) s = Inr s'
     \<and> server_OnMessage c1 = Inr c2 \<and> readable (tc_recv_buffer c1) = [104, 105]
     \<and> cs_conn s' = AsyncRead c2"
proof -
  let ?cbs = "echo_server_cbs None"
  obtain s where run: "conn_run ?cbs [EvAttached] (initial_sys demo_conn) = Inr s"
    and en: "enabled (EvReadDone [104, 105]) s" and e: "readable (tc_recv_buffer (cs_conn s)) = []"
    and ex: "\<exists>s'. conn_step ?cbs (EvReadDone [104, 105]) s = Inr s'"
    by (simp add: demo_eval readable_def)
  from ex obtain s' where st: "conn_step ?cbs (EvReadDone [104, 105]) s = Inr s'" by blast
  have m: "msg_fn ?cbs = Some server_OnMessage" by (simp add: echo_server_cbs_def
    SetCloseCallback_def SetConnCallback_def SetMessageCallback_def)
  from conn_receive [OF echo_server.conn_client_axioms demo_reachable [OF run] m en st] e run st
  show ?thesis by auto
qed

text \<open>The receive buffer is never grown by the connection. When the application leaves it
  full, the next read is for zero bytes: every later read completion brings no data, the buffer
  is unchanged, and the read started after it is again for zero bytes. Such a connection runs
  its message callback without end and never receives anything again.\<close>

theorem conn_full_buffer_reads_nothing:
  assumes "conn_client cbs" and "conn_reachable cbs s" and "msg_fn cbs = Some f"
    and keeps: "\<forall>c c'. f c = Inr c' \<longrightarrow> tc_recv_buffer c' = tc_recv_buffer c"
    and full: "ValidSize (tc_recv_buffer (cs_conn s)) = 0"
    and en: "enabled (EvReadDone d) s" and run: "conn_step cbs (EvReadDone d) s = Inr s'"
  shows "d = [] \<and> tc_recv_buffer (cs_conn s') = tc_recv_buffer (cs_conn s)
    \<and> snd (last (reads (cs_conn s'))) = 0 \<and> enabled (EvReadDone []) s'"
proof -
  let ?c = "cs_conn s" and ?R = "tc_recv_buffer (cs_conn s)"
  note inv = sys_invD [OF conn_client.reachable_inv [OF assms(1,2)]]
  have en': "cs_reads_done s < length (reads ?c)" using en by simp
  have req: "last (reads ?c) = (WriteBegin ?R, 0)" using inv(7) [OF en'] full by simp
  have d: "d = []" using en req by simp
  have fit: "unat (bb_wpos ?R) \<le> length (bb_storage ?R)" using buf_okD(2) [OF inv(4)] .
  have pl: "place_received [] ?c = Inr ?c"
    using fit req by (simp add: place_received_def mem_write_def)
  let ?e = "outgoing_call CallMsgFn (?c\<lparr>tc_recv_buffer := WriteBytes 0 ?R\<rparr>)"
  have wb: "WriteBytes 0 ?R = ?R" by (simp add: WriteBytes_def)
  from run d pl assms(3) obtain c2 where c2: "f ?e = Inr c2" and s': "cs_conn s' = AsyncRead c2"
    and dn: "cs_reads_done s' = Suc (cs_reads_done s)"
    by (auto simp: HandleRead_def Let_def)
  have same: "tc_recv_buffer c2 = ?R" using keeps c2 wb by fastforce
  have i: "tx_inv ?e" using same_tx_inv [OF same_tx_trans [OF same_tx_recv same_tx_log(2)] inv(1)] .
  have "msg_cb_ok f" by (rule conn_client.msg_fn_ok [OF assms(1,3)])
  from msg_cb_okD(2) [OF this i c2] have "reads c2 = reads ?c" by (simp add: tx_step_def)
  then show ?thesis using d same full dn en' inv(6) by (simp add: s' AsyncRead_same)
qed

theorem conn_full_buffer_reads_nothing_witness:
  "\<exists>s s'. conn_run default_cbs [EvAttached, EvReadDone (replicate 8192 7)] (initial_sys demo_conn) = Inr s
     \<and> conn_step default_cbs (EvReadDone []) s = Inr s'
     \<and> snd (last (reads (cs_conn s'))) = 0 \<and> enabled (EvReadDone []) s'"
proof -
  obtain s where run: "conn_run default_cbs [EvAttached, EvReadDone (replicate 8192 7)]
      (initial_sys demo_conn) = Inr s"
    and full: "ValidSize (tc_recv_buffer (cs_conn s)) = 0" and en: "enabled (EvReadDone []) s"
    and ex: "\<exists>s'. conn_step default_cbs (EvReadDone []) s = Inr s'"
    by (simp add: demo_eval default_cbs_def DefaultConnectionCallback_def DefaultMessageCallback_def)
  from ex obtain s' where st: "conn_step default_cbs (EvReadDone []) s = Inr s'" by blast
  have m: "msg_fn default_cbs = Some (DefaultMessageCallback :: app_env conn_fun)"
    by (simp add: default_cbs_def SetConnCallback_def SetMessageCallback_def)
  have k: "\<forall>c c'. DefaultMessageCallback c = Inr c' \<longrightarrow> tc_recv_buffer c' = tc_recv_buffer (c :: app_env tcpconn)"
    by (simp add: DefaultMessageCallback_def)
  from conn_full_buffer_reads_nothing [OF default_app.conn_client_axioms demo_reachable [OF run] m k full en st]
  show ?thesis using run st by blast
qed


section \<open>Failing and closing\<close>

text \<open>C10. A failed read or write (end of file, aborted, any other error) ends the connection:
  afterwards the socket is closed, the status is \<open>kDisconnected\<close>, the destructor's assertions
  hold, and further sends are dropped without effect.\<close>

theorem conn_failure_ends_connection:
  assumes "conn_client cbs" and "conn_reachable cbs s"
    and "ev = EvReadFailed e \<or> ev = EvWriteFailed e"
    and "enabled ev s" and "conn_step cbs ev s = Inr s'"
  shows "\<not> is_open (cs_conn s') \<and> IsDisconnected (cs_conn s')
    \<and> TCPConn_destroy (cs_conn s') = Inr ()
    \<and> (\<forall>d. Send cbs True d (cs_conn s') = Inr (cs_conn s'))"
proof -
  note inv = sys_invD(1) [OF conn_client.reachable_inv [OF assms(1,2)]]
  from assms(3,5) consider
      c where "HandleRead cbs True (Some e) 0 (cs_conn s) = Inr c" "cs_conn s' = c"
    | c where "HandleWrite cbs True (Some e) 0 (cs_conn s) = Inr c" "cs_conn s' = c"
    by auto
  then have "\<not> is_open (cs_conn s') \<and> tc_status (cs_conn s') = kDisconnected"
  proof cases
    case (1 c)
    then show ?thesis using conn_client.HandleRead_failed(4,5) [OF assms(1) inv] by simp
  next
    case (2 c)
    then show ?thesis using conn_client.HandleWrite_failed(5,7) [OF assms(1) inv] by simp
  qed
  then show ?thesis
    by (simp add: IsDisconnected_def TCPConn_destroy_def Send_def SendInLoop_def)
qed

theorem conn_failure_ends_connection_witness:
  "\<exists>s s'. conn_run (echo_server_cbs None) [EvAttached] (initial_sys demo_conn) = Inr s
     \<and> conn_step (echo_server_cbs None) (EvReadFailed eof) s = Inr s'
     \<and> TCPConn_destroy (cs_conn s') = Inr ()"
proof -
  obtain s where run: "conn_run (echo_server_cbs None) [EvAttached] (initial_sys demo_conn) = Inr s"
    and en: "enabled (EvReadFailed eof) s"
    and ex: "\<exists>s'. conn_step (echo_server_cbs None) (EvReadFailed eof) s = Inr s'"
    by (simp add: demo_eval)
  from ex obtain s' where st: "conn_step (echo_server_cbs None) (EvReadFailed eof) s = Inr s'" by blast
  from conn_failure_ends_connection [OF echo_server.conn_client_axioms demo_reachable [OF run] _ en st]
  show ?thesis using run st by blast
qed

text \<open>The notifications of a closing connection, in the order \<open>HandleClose\<close> makes them.\<close>

definition notify_closed :: "'w conn_callbacks \<Rightarrow> 'w conn_fun" where
  "notify_closed cbs c =
     rbind (case conn_fn cbs of None \<Rightarrow> Inr c
            | Some f \<Rightarrow> f (outgoing_call (CallConnFn kDisconnecting) c)) (\<lambda>c1.
     rbind (case close_fn cbs of None \<Rightarrow> Inr c1
            | Some f \<Rightarrow> f (outgoing_call CallCloseFn c1)) (\<lambda>c2.
     Inr (c2\<lparr>tc_status := kDisconnected\<rparr>)))"

lemma HandleClose_notifies:
  "tc_status c \<noteq> kDisconnected \<Longrightarrow> HandleClose cbs True c = notify_closed cbs (closing c)"
  by (simp add: HandleClose_def notify_closed_def closing_def Let_def cong: option.case_cong)

lemma closing_status [simp]: "closing (c\<lparr>tc_status := st\<rparr>) = closing c"
  by (simp add: closing_def socket_close_def outgoing_call_def)

text \<open>The guard of \<open>HandleClose\<close> that returns early on a connection already disconnected
  never takes effect on an error: both error paths set the status to \<open>kDisconnecting\<close> first.
  Every failing completion closes the socket if it is still open and notifies the application
  and the owner, whatever the status was, \<open>kDisconnected\<close> included.\<close>

theorem conn_error_always_notifies:
  "HandleRead cbs True (Some e) n c = notify_closed cbs (closing c)
   \<and> HandleWrite cbs True (Some e) n c
     = notify_closed cbs (closing (c\<lparr>tc_async_writing := False\<rparr>))"
  by (simp add: HandleRead_def HandleWrite_def HandleError_def HandleClose_notifies)

text \<open>The consequence: a peer that closes while a write is in progress is reported twice.
  The end of file disconnects the connection and closes the socket, which aborts the write,
  whose completion then notifies the application a second time for the same connection.\<close>

theorem conn_peer_close_during_write_notifies_twice:
  "\<exists>s1 s2. conn_run (echo_server_cbs None)
       [EvAttached, EvSend [1], EvReadFailed eof] (initial_sys demo_conn) = Inr s1
     \<and> IsDisconnected (cs_conn s1)
     \<and> conn_run (echo_server_cbs None) [EvWriteFailed operation_aborted] s1 = Inr s2
     \<and> ap_console (tc_env (cs_conn s2)) = [PrintAccepted ''conn'', PrintDisconnecting ''conn'',
         PrintDisconnecting ''conn'']"
  by (simp add: demo_eval IsDisconnected_def)

section \<open>Closing a connection that is already disconnected\<close>

text \<open>The states in which nothing is left that could disconnect the connection again.\<close>

definition stuck_disconnecting :: "'w conn_sys \<Rightarrow> bool" where
  "stuck_disconnecting s \<longleftrightarrow> (let c = cs_conn s in
     \<not> is_open c \<and> tc_status c = kDisconnecting \<and> reads c \<noteq> []
   \<and> length (reads c) \<le> cs_reads_done s \<and> length (writes c) \<le> cs_writes_done s)"

lemma stuck_step:
  assumes "stuck_disconnecting s" and "enabled ev s" and "conn_step cbs ev s = Inr s'"
  shows "stuck_disconnecting s'"
proof (cases ev)
  case (EvTask i)
  with assms show ?thesis
    by (cases "tasks (cs_conn s) ! i")
       (auto simp: stuck_disconnecting_def Let_def Close_task_def socket_close_def
         SendStringInLoop_def SendInLoop_def)
qed (use assms in \<open>auto simp: stuck_disconnecting_def Let_def Send_def SendInLoop_def Close_def
       SetHighWaterMarkCallback_def SetTCPNoDelay_def\<close>)

lemma stuck_run:
  "stuck_disconnecting s \<Longrightarrow> conn_run cbs evs s = Inr s' \<Longrightarrow> stuck_disconnecting s'"
  by (induction evs arbitrary: s) (auto split: if_splits dest: stuck_step)

text \<open>\<open>Close\<close> on a connection that is already disconnected leaves it in \<open>kDisconnecting\<close>
  for good: \<open>Close\<close> sets the status without looking at it, and with no read or write left in
  progress nothing resets it. Whatever happens next, the destructor's assertion fails.\<close>

theorem conn_close_after_disconnect_sticks:
  assumes "\<not> is_open (cs_conn s)" and "reads (cs_conn s) \<noteq> []"
    and "length (reads (cs_conn s)) \<le> cs_reads_done s"
    and "length (writes (cs_conn s)) \<le> cs_writes_done s"
    and "conn_run cbs (EvClose # evs) s = Inr s'"
  shows "IsDisconnecting (cs_conn s') \<and> TCPConn_destroy (cs_conn s') = Inl AssertFailed"
proof -
  let ?s = "s\<lparr>cs_conn := Close (cs_conn s)\<rparr>"
  have "stuck_disconnecting ?s"
    using assms(1-4) by (simp add: stuck_disconnecting_def Let_def Close_def)
  moreover have "conn_run cbs evs ?s = Inr s'" using assms(5) by simp
  ultimately have "stuck_disconnecting s'" by (rule stuck_run)
  then show ?thesis
    by (simp add: stuck_disconnecting_def Let_def IsDisconnecting_def TCPConn_destroy_def)
qed

theorem conn_close_after_disconnect_sticks_witness:
  "\<exists>s s'. conn_run (echo_server_cbs None) [EvAttached, EvReadFailed eof] (initial_sys demo_conn) = Inr s
     \<and> conn_run (echo_server_cbs None) [EvClose, EvTask 0] s = Inr s'
     \<and> IsDisconnected (cs_conn s) \<and> TCPConn_destroy (cs_conn s') = Inl AssertFailed"
proof -
  obtain s where run: "conn_run (echo_server_cbs None) [EvAttached, EvReadFailed eof]
      (initial_sys demo_conn) = Inr s"
    and h: "\<not> is_open (cs_conn s)" "reads (cs_conn s) \<noteq> []"
      "length (reads (cs_conn s)) \<le> cs_reads_done s" "length (writes (cs_conn s)) \<le> cs_writes_done s"
    and d: "IsDisconnected (cs_conn s)"
    and ex: "\<exists>s'. conn_run (echo_server_cbs None) [EvClose, EvTask 0] s = Inr s'"
    by (simp add: demo_eval IsDisconnected_def)
  from ex obtain s' where st: "conn_run (echo_server_cbs None) [EvClose, EvTask 0] s = Inr s'" by blast
  from conn_close_after_disconnect_sticks [OF h st] run st d show ?thesis by blast
qed

end
