(* ===== verification/Conn_Loop.thy ===== *)
theory Conn_Loop
  imports Conn_Properties Event_Loop
begin

text \<open>
  A connection on the loop it belongs to: the functors of the loop are the connection's own
  (the functor of \<open>Close\<close> and the bound \<open>SendStringInLoop\<close>), and what a functor posts while it
  runs goes to the same loop. This is the interpretation of the loop's contract
  \<open>loop_client\<close>, and carries the properties of \<open>EventLoop\<close>.
\<close>

section \<open>The functors of a connection\<close>

text \<open>The functors queued between two states of a connection, posted to its loop.\<close>

definition post_new_tasks :: "'w tcpconn \<Rightarrow> 'w tcpconn \<Rightarrow> conn_task event_loop \<Rightarrow> conn_task event_loop" where
  "post_new_tasks c c' el =
     fold (\<lambda>t. QueueInLoop (Functor t)) (queued_tasks (drop (length (tc_calls c)) (tc_calls c'))) el"

definition conn_exec :: "'w conn_callbacks \<Rightarrow> (conn_task, 'w tcpconn) loop_exec" where
  "conn_exec cbs t = (\<lambda>(el, c).
     rbind (conn_run_task cbs t c) (\<lambda>c'. Inr (post_new_tasks c c' el, c')))"

text \<open>
  \<open>Send\<close> written with the loop it runs on: the first \<open>IsInLoopThread\<close> test is the one of \<open>Send\<close>
  itself, the second the one inside \<open>RunInLoop\<close>.
\<close>

definition Send_on :: "'w conn_callbacks \<Rightarrow> thread_id \<Rightarrow> byte list
    \<Rightarrow> conn_task event_loop \<times> 'w tcpconn \<Rightarrow> (conn_task event_loop \<times> 'w tcpconn) res" where
  "Send_on cbs self d = (\<lambda>(el, c).
     if IsInLoopThread self el
     then rbind (SendInLoop cbs True d c) (\<lambda>c'. Inr (post_new_tasks c c' el, c'))
     else RunInLoop (conn_exec cbs) self (Functor (TaskSendString d)) (el, c))"

lemma fold_queue_extends: "loop_extends el (fold (\<lambda>t. QueueInLoop (Functor t)) ts el)"
proof (induction ts arbitrary: el)
  case Nil
  show ?case by simp
next
  case (Cons t ts)
  from loop_extends_trans [OF loop_extends_ops(1) Cons.IH] show ?case by simp
qed

lemma post_new_tasks_extends: "loop_extends el (post_new_tasks c c' el)"
  unfolding post_new_tasks_def by (rule fold_queue_extends)

interpretation conn_loop: loop_client "conn_exec cbs" for cbs :: "'w conn_callbacks"
  by unfold_locales (auto simp: conn_exec_def post_new_tasks_extends)

section \<open>Properties of the loop\<close>

text \<open>C12. Confinement. While a thread is inside \<open>EventLoop::Run\<close>, every functor handed to
  \<open>RunInLoop\<close> or \<open>QueueInLoop\<close>, from whatever thread, runs on that thread, and \<open>RunInLoop\<close>
  from any other thread only queues: this is what the \<open>assert(loop_->IsInLoopThread())\<close> of
  the handlers rely on.\<close>

theorem loop_confines_functors:
  assumes "loop_client exec" and "loop_reachable exec s" and "ls_runner s = Some t"
  shows "(\<forall>(f, u, r) \<in> set (ls_ran_on s). r \<noteq> None \<longrightarrow> r = Some u)
    \<and> AssertInLoopThread t (ls_loop s) = Inr ()
    \<and> (\<forall>u f. u \<noteq> t \<longrightarrow> RunInLoop exec u f (ls_loop s, ls_world s) = Inr (QueueInLoop f (ls_loop s), ls_world s))"
  using loop_client.loop_reachable_inv [OF assms(1,2)] assms(3)
  by (auto simp: loop_inv_def AssertInLoopThread_def IsInLoopThread_def RunInLoop_def)

text \<open>A loop entered by thread 1, on which thread 2 sends.\<close>

definition demo_loop_sys :: "(conn_task, app_env tcpconn) loop_sys" where
  "demo_loop_sys = \<lparr>ls_loop = QueueInLoop (Functor (TaskSendString [1, 2]))
       (EventLoop_Run_begin 1 (EventLoop_new 0)),
     ls_world = demo_conn, ls_runner = Some 1, ls_done = 0, ls_ran_on = []\<rparr>"

lemma demo_loop_reachable: "loop_reachable exec demo_loop_sys"
proof -
  let ?s0 = "initial_loop 0 demo_conn"
  let ?s1 = "?s0\<lparr>ls_loop := EventLoop_Run_begin 1 (ls_loop ?s0), ls_runner := Some 1\<rparr>"
  have "loop_reachable exec ?s1"
    by (rule loop_reachable.step [OF loop_reachable.start])
       (rule loop_step.enter, simp add: initial_loop_def)
  from loop_reachable.step [OF this loop_step.queue] show ?thesis
    by (simp add: demo_loop_sys_def initial_loop_def)
qed

theorem loop_confines_functors_witness:
  "AssertInLoopThread 1 (ls_loop demo_loop_sys) = Inr ()
   \<and> RunInLoop (conn_exec no_callbacks) 2 (Functor TaskClose) (ls_loop demo_loop_sys, ls_world demo_loop_sys)
     = Inr (QueueInLoop (Functor TaskClose) (ls_loop demo_loop_sys), ls_world demo_loop_sys)"
proof -
  have "ls_runner demo_loop_sys = Some 1" by (simp add: demo_loop_sys_def)
  note t = loop_confines_functors [OF conn_loop.loop_client_axioms demo_loop_reachable this]
  then show ?thesis by simp
qed

text \<open>C11. \<open>EventLoop::Stop\<close> does not stop the loop. Its functor \<open>StopInLoop\<close> only asks
  \<open>io_service_.stopped()\<close>; no sequence of calls of the class, from any threads, ever issues
  \<open>io_service::stop()\<close>, so a thread inside \<open>Run\<close> stays there and \<open>IsRunning\<close> stays true for
  ever, however often \<open>Stop\<close> is called.\<close>

theorem EventLoop_Stop_never_stops:
  assumes "loop_client exec" and "loop_reachable exec s" and "ls_runner s = Some t"
    and "(loop_step exec)\<^sup>*\<^sup>* s s'"
  shows "ls_runner s' = Some t \<and> EventLoop_IsRunning (ls_loop s') \<and> \<not> EventLoop_IsStopped (ls_loop s')"
  using loop_client.stays_inside [OF assms]
  by (simp add: EventLoop_IsRunning_def EventLoop_IsStopped_def)

theorem EventLoop_Stop_never_stops_witness:
  "\<exists>s'. loop_step (conn_exec no_callbacks) demo_loop_sys s'
     \<and> Post StopFunctor \<in> set (el_calls (ls_loop s')) \<and> EventLoop_IsRunning (ls_loop s')"
proof -
  let ?exec = "conn_exec no_callbacks :: (conn_task, app_env tcpconn) loop_exec"
  have r: "ls_runner demo_loop_sys = Some 1" by (simp add: demo_loop_sys_def)
  have st: "EventLoop_Stop ?exec 2 (ls_loop demo_loop_sys, ls_world demo_loop_sys)
    = Inr (QueueInLoop StopFunctor (ls_loop demo_loop_sys), ls_world demo_loop_sys)"
    by (simp add: EventLoop_Stop_def RunInLoop_def IsInLoopThread_def demo_loop_sys_def
      EventLoop_Run_begin_def)
  note step = loop_step.stop [OF st]
  from EventLoop_Stop_never_stops [OF conn_loop.loop_client_axioms demo_loop_reachable r
      r_into_rtranclp [of "loop_step ?exec", OF step]] step
  show ?thesis by (fastforce simp: QueueInLoop_def)
qed

text \<open>Sends from a list of threads, and the run of functors the loop has been given.\<close>

fun send_all :: "'w conn_callbacks \<Rightarrow> (thread_id \<times> byte list) list
    \<Rightarrow> conn_task event_loop \<times> 'w tcpconn \<Rightarrow> (conn_task event_loop \<times> 'w tcpconn) res" where
  "send_all cbs [] x = Inr x"
| "send_all cbs ((u, d) # us) x = rbind (Send_on cbs u d x) (send_all cbs us)"

fun run_posted :: "('f, 'w) loop_exec \<Rightarrow> 'f loop_functor list \<Rightarrow> 'f event_loop \<times> 'w
    \<Rightarrow> ('f event_loop \<times> 'w) res" where
  "run_posted exec [] x = Inr x"
| "run_posted exec (f # fs) x = rbind (run_functor exec f x) (run_posted exec fs)"

lemma send_all_other_threads:
  assumes "\<forall>(u, d) \<in> set us. u \<noteq> el_tid el"
  shows "send_all cbs us (el, c) = Inr (fold (\<lambda>(u, d). QueueInLoop (Functor (TaskSendString d))) us el, c)"
  using assms
proof (induction us arbitrary: el)
  case Nil
  show ?case by simp
next
  case (Cons ud us)
  then show ?case
    by (cases ud) (simp add: Send_on_def RunInLoop_def IsInLoopThread_def)
qed

lemma posted_fold_sends:
  "posted (el_calls (fold (\<lambda>(u, d). QueueInLoop (Functor (TaskSendString d))) us el))
   = posted (el_calls el) @ map (\<lambda>(u, d). Functor (TaskSendString d)) us"
  by (induction us arbitrary: el) auto

text \<open>One queued send on an open connection, when no callback runs.\<close>

lemma send_task_accepts:
  assumes inv: "tx_inv c" and op: "is_open c" and "high_water_mark_fn cbs = None"
    and small: "length (accepted c) + length d < 2 ^ 60"
  shows "\<exists>c'. SendInLoop cbs True d c = Inr c' \<and> tx_inv c' \<and> is_open c'
    \<and> accepted c' = accepted c @ d"
proof -
  have ok: "buf_ok (tc_writing_buffer c)" "buf_ok (tc_write_buffer c)"
    and total: "unat (bb_wpos (tc_writing_buffer c)) + unat (bb_wpos (tc_write_buffer c)) = length (accepted c)"
    using inv by (simp_all add: tx_inv_def)
  have t: "tight (tc_writing_buffer c)" "tight (tc_write_buffer c)"
    using inv small by (simp_all add: tx_inv_def)
  obtain b1 b2 where b: "Write d (tc_writing_buffer c) = Inr b1" "Write d (tc_write_buffer c) = Inr b2"
    using Write_total [OF ok(1) t(1), of d] Write_total [OF ok(2) t(2), of d] total small by auto
  show ?thesis
  proof (cases "tc_async_writing c")
    case True
    have "SendInLoop cbs True d c = Inr (send_queued d b2 c)"
      using assms(3) by (simp add: SendInLoop_busy_eq(1) [OF inv op True b(2)])
    then show ?thesis
      using send_queued_step(1) [OF inv True b(2)] op by (simp add: send_queued_def)
  next
    case False
    have r: "SendInLoop cbs True d c
        = Inr (AsyncWrite ((outgoing_call (Accepted d) c)\<lparr>tc_writing_buffer := b1\<rparr>))"
      using b by (simp add: SendInLoop_idle_eq [OF inv op False])
    from SendInLoop_idle(1) [OF inv op False r] r op show ?thesis
      by (simp add: AsyncWrite_def is_open_def outgoing_call_def)
  qed
qed

lemma run_send_tasks:
  assumes "tx_inv c" and "is_open c" and "high_water_mark_fn cbs = None"
    and "length (accepted c) + length (concat ds) < 2 ^ 60"
  shows "\<exists>el' c'. run_posted (conn_exec cbs) (map (\<lambda>d. Functor (TaskSendString d)) ds) (el, c) = Inr (el', c')
    \<and> tx_inv c' \<and> accepted c' = accepted c @ concat ds"
  using assms
proof (induction ds arbitrary: el c)
  case Nil
  then show ?case by simp
next
  case (Cons d ds)
  then obtain c1 where c1: "SendInLoop cbs True d c = Inr c1" "tx_inv c1" "is_open c1"
    "accepted c1 = accepted c @ d"
    using send_task_accepts [of c cbs d] by auto
  have "run_functor (conn_exec cbs) (Functor (TaskSendString d)) (el, c) = Inr (post_new_tasks c c1 el, c1)"
    using c1(1) by (simp add: conn_exec_def SendStringInLoop_def)
  moreover from Cons.IH [OF c1(2,3) Cons.prems(3), of "post_new_tasks c c1 el"] Cons.prems(4) c1(4)
  obtain el' c' where "run_posted (conn_exec cbs) (map (\<lambda>d. Functor (TaskSendString d)) ds)
      (post_new_tasks c c1 el, c1) = Inr (el', c')" "tx_inv c'" "accepted c' = accepted c1 @ concat ds"
    by (auto simp: add.assoc)
  ultimately show ?case using c1(4) by simp
qed

text \<open>C13. Sends from other threads keep their order and are never torn. A send from a thread
  other than the loop's only posts one functor; when the loop has run the functors so posted,
  an open connection has taken the messages over whole, one after the other, in the order in
  which the threads posted them.\<close>

theorem sends_from_other_threads_in_order:
  assumes "conn_client cbs" and "conn_reachable cbs s" and "is_open (cs_conn s)"
    and "high_water_mark_fn cbs = None"
    and "\<forall>(u, d) \<in> set us. u \<noteq> el_tid el"
    and "length (accepted (cs_conn s)) + length (concat (map snd us)) < 2 ^ 60"
  shows "\<exists>el1 el2 c'. send_all cbs us (el, cs_conn s) = Inr (el1, cs_conn s)
    \<and> run_posted (conn_exec cbs) (drop (length (posted (el_calls el))) (posted (el_calls el1)))
        (el1, cs_conn s) = Inr (el2, c')
    \<and> accepted c' = accepted (cs_conn s) @ concat (map snd us)"
proof -
  have inv: "tx_inv (cs_conn s)"
    using sys_invD(1) [OF conn_client.reachable_inv [OF assms(1,2)]] .
  let ?el1 = "fold (\<lambda>(u, d). QueueInLoop (Functor (TaskSendString d))) us el"
  have "drop (length (posted (el_calls el))) (posted (el_calls ?el1))
      = map (\<lambda>d. Functor (TaskSendString d)) (map snd us)"
    by (subst posted_fold_sends) (simp add: case_prod_unfold)
  with run_send_tasks [OF inv assms(3,4,6), of ?el1] send_all_other_threads [OF assms(5)]
  show ?thesis by fastforce
qed

theorem sends_from_other_threads_in_order_witness:
  "\<exists>s el1 el2 c'. conn_run (echo_server_cbs None) [EvAttached, EvSend [1]] (initial_sys demo_conn) = Inr s
     \<and> send_all (echo_server_cbs None) [(2, [2, 3]), (3, [4])] (EventLoop_new 0, cs_conn s) = Inr (el1, cs_conn s)
     \<and> run_posted (conn_exec (echo_server_cbs None)) (posted (el_calls el1)) (el1, cs_conn s) = Inr (el2, c')
     \<and> accepted c' = [1, 2, 3, 4]"
proof -
  let ?cbs = "echo_server_cbs None"
  obtain s where run: "conn_run ?cbs [EvAttached, EvSend [1]] (initial_sys demo_conn) = Inr s"
    and o: "is_open (cs_conn s)" and a: "accepted (cs_conn s) = [1]"
    by (simp add: demo_eval)
  have h: "high_water_mark_fn ?cbs = None" by (simp add: echo_eval)
  have u: "\<forall>(u, d) \<in> set [(2, [2, 3 :: byte]), (3, [4])]. u \<noteq> el_tid (EventLoop_new 0 :: conn_task event_loop)"
    by (simp add: EventLoop_new_def)
  have n: "length (accepted (cs_conn s)) + length (concat (map snd [(2 :: thread_id, [2, 3 :: byte]), (3, [4])])) < 2 ^ 60"
    by (simp add: a)
  from sends_from_other_threads_in_order [OF echo_server.conn_client_axioms demo_reachable [OF run] o h u n]
    run a show ?thesis by (auto simp: EventLoop_new_def)
qed

end
