(* ===== verification/Thread_Properties.thy ===== *)
theory Thread_Properties
  imports Loop_Thread Conn_Loop
begin

text \<open>
  The properties of \<open>EventLoopThread\<close>, on every interleaving of its owner, its worker and the
  application, with runs of a thread whose loop serves a connection as witnesses.
\<close>

section \<open>Runs of a fresh thread\<close>

text \<open>The loop of a connection, run by thread 1 for the owner 0, which starts it and waits.\<close>

abbreviation demo_exec :: "(conn_task, app_env tcpconn) loop_exec" where
  "demo_exec \<equiv> conn_exec no_callbacks"

definition demo_ids :: "thread_id \<Rightarrow> string" where
  "demo_ids t = ''id''"

definition demo_thread :: "(conn_task, app_env tcpconn) thread_sys" where
  "demo_thread = initial_thread 0 demo_conn"

fun thread_enabled_run :: "('f, 'w) loop_exec \<Rightarrow> (thread_id \<Rightarrow> string) \<Rightarrow> 'f thread_event list
    \<Rightarrow> ('f, 'w) thread_sys \<Rightarrow> bool" where
  "thread_enabled_run exec ids [] s = True"
| "thread_enabled_run exec ids (ev # evs) s = (thread_enabled ev s
     \<and> (case thread_step exec ids ev s of Inl e \<Rightarrow> True | Inr s' \<Rightarrow> thread_enabled_run exec ids evs s'))"

lemma thread_run_reachable:
  "thread_reachable exec ids s \<Longrightarrow> thread_enabled_run exec ids evs s \<Longrightarrow>
   thread_run exec ids evs s = Inr s' \<Longrightarrow> thread_reachable exec ids s'"
  by (induction evs arbitrary: s) (auto dest: thread_reachable.event)

lemma demo_thread_reachable:
  "thread_enabled_run demo_exec demo_ids evs demo_thread \<Longrightarrow>
   thread_run demo_exec demo_ids evs demo_thread = Inr s \<Longrightarrow> thread_reachable demo_exec demo_ids s"
  unfolding demo_thread_def by (rule thread_run_reachable [OF thread_reachable.created])

lemmas thread_eval = demo_thread_def initial_thread_def EventLoopThread_new_def EventLoop_new_def
  EventLoopThread_Start_def owner_step_def worker_step_def service_step_def call_optional_def
  deref_loop_def EventLoopThread_IsRunning_def EventLoop_IsRunning_def EventLoopThread_IsStopped_def
  EventLoop_Stop_def EventLoop_Run_end_def RunInLoop_def IsInLoopThread_def QueueInLoop_def
  StopInLoop_def loop_call_def set_loop_def EventLoopThread_SetName_def demo_ids_def

abbreviation start_run :: "conn_task thread_event list" where
  "start_run \<equiv> [CallStart True None None 1, Worker, Owner, Worker, Worker, Worker, Worker, Worker, Owner]"

abbreviation stop_run :: "conn_task thread_event list" where
  "stop_run \<equiv> start_run @ [CallStop True, Owner, Owner, Owner, Worker, Owner, AppStop]"

section \<open>Properties\<close>

text \<open>C14. What \<open>Start(true)\<close> waits for. When it has returned, and as long as the application
  itself does not stop the service, the object has its loop, the worker is inside the loop's
  \<open>Run\<close>, \<open>IsRunning\<close> answers true, and the loop knows the worker as its thread, so that
  functors given to it from then on are confined to the worker.\<close>

theorem thread_start_waits:
  assumes "loop_client exec" and "thread_reachable exec ids s"
    and "RetStart True \<in> set (ts_returned s)" and "\<not> ts_app_stop s"
  shows "ts_worker s = WService \<and> EventLoopThread_IsRunning (ts_thread s) = Inr True
    \<and> (\<exists>el. GetEventLoop (ts_thread s) = Some el \<and> IsInLoopThread (ts_tid s) el)
    \<and> \<not> EventLoopThread_IsStopped (ts_thread s)"
  using loop_client.started_loop [OF assms(1,2,3,4)]
  by (auto simp: EventLoopThread_IsRunning_def EventLoop_IsRunning_def GetEventLoop_def
    IsInLoopThread_def)

theorem thread_start_waits_witness:
  "\<exists>s. thread_run demo_exec demo_ids start_run demo_thread = Inr s
     \<and> EventLoopThread_IsRunning (ts_thread s) = Inr True"
proof -
  obtain s where run: "thread_run demo_exec demo_ids start_run demo_thread = Inr s"
    and h: "RetStart True \<in> set (ts_returned s)" "\<not> ts_app_stop s"
    by (simp add: thread_eval)
  have "thread_enabled_run demo_exec demo_ids start_run demo_thread" by (simp add: thread_eval)
  from thread_start_waits [OF conn_loop.loop_client_axioms demo_thread_reachable [OF this run] h] run
  show ?thesis by blast
qed

text \<open>C15. \<open>Start(true)\<close> returns: from any state in which the owner polls, and unless the
  application stops the service meanwhile, at most six further statements of the worker and
  one poll end the call (the functor \<open>pre\<close> being one that returns).\<close>

theorem thread_start_terminates:
  assumes "loop_client exec" and "thread_reachable exec ids s" and "ts_owner s = OStartPoll"
    and "\<not> ts_app_stop s" and "never_fails exec (ts_pre s)" and "never_fails exec (ts_post s)"
  shows "\<exists>n s'. n \<le> 6 \<and> thread_run exec ids (replicate n Worker @ [Owner]) s = Inr s'
    \<and> ts_owner s' = OIdle \<and> ts_returned s' = ts_returned s @ [RetStart True]"
proof -
  note inv = loop_client.thread_reachable_inv [OF assms(1,2)]
  have lo: "1 \<le> stage (ts_worker s)" and "\<not> 8 \<le> stage (ts_worker s)"
    using inv assms(3,4) by (simp_all add: thread_inv_def)
  then have hi: "stage (ts_worker s) \<le> 7" by simp
  from loop_client.worker_reaches [OF assms(1) inv lo hi _ assms(5,6), of ids] obtain n s1
    where n: "n \<le> 7 - stage (ts_worker s)" and s1: "thread_run exec ids (replicate n Worker) s = Inr s1"
      "stage (ts_worker s1) = 7" "same_owner s s1" "thread_inv s1" by blast
  have "n \<le> 6" using n lo by linarith
  moreover have "ts_owner s1 = OStartPoll" using s1(3) assms(3) by (simp add: same_owner_def)
  from loop_client.start_poll_returns [OF assms(1) s1(4) this s1(2)] s1(1,3)
  have "\<exists>s'. thread_run exec ids (replicate n Worker @ [Owner]) s = Inr s'
      \<and> ts_owner s' = OIdle \<and> ts_returned s' = ts_returned s @ [RetStart True]"
    by (simp add: loop_client.thread_run_append [OF assms(1)] same_owner_def)
  ultimately show ?thesis by blast
qed

theorem thread_start_terminates_witness:
  "\<exists>s n s'. thread_run demo_exec demo_ids [CallStart True None None 1] demo_thread = Inr s
     \<and> n \<le> 6 \<and> thread_run demo_exec demo_ids (replicate n Worker @ [Owner]) s = Inr s'
     \<and> ts_returned s' = [RetStart True]"
proof -
  let ?evs = "[CallStart True None None 1] :: conn_task thread_event list"
  obtain s where run: "thread_run demo_exec demo_ids ?evs demo_thread = Inr s"
    and o: "ts_owner s = OStartPoll" "\<not> ts_app_stop s"
    and p: "never_fails demo_exec (ts_pre s)" "never_fails demo_exec (ts_post s)"
    and r: "ts_returned s = []"
    by (simp add: thread_eval)
  have "thread_enabled_run demo_exec demo_ids ?evs demo_thread" by (simp add: thread_eval)
  from thread_start_terminates [OF conn_loop.loop_client_axioms demo_thread_reachable [OF this run] o p,
      unfolded r append_Nil] obtain n s' where "n \<le> 6"
    "thread_run demo_exec demo_ids (replicate n Worker @ [Owner]) s = Inr s'"
    "ts_returned s' = [RetStart True]" by (elim exE conjE)
  with run show ?thesis by (intro exI [of _ s] exI [of _ n] exI [of _ s'] conjI)
qed

text \<open>C16. \<open>Stop(true)\<close> returns only when the application stops the service behind the
  class's back. \<open>EventLoopThread::Stop\<close> relies on \<open>EventLoop::Stop\<close>, which stops nothing: in
  every state in which a \<open>Stop(true)\<close> has returned, or is about to after its wait, the
  application has itself called \<open>io_service().stop()\<close>.\<close>

theorem thread_stop_needs_application:
  assumes "loop_client exec" and "thread_reachable exec ids s"
    and "RetStop True \<in> set (ts_returned s) \<or> ts_owner s = OJoin"
  shows "ts_app_stop s"
proof -
  note inv = loop_client.thread_reachable_inv [OF assms(1,2)]
  have "ts_worker s = WDone" using inv assms(3) unfolding thread_inv_def by blast
  then have "8 \<le> stage (ts_worker s)" by simp
  then show ?thesis using inv unfolding thread_inv_def by blast
qed

theorem thread_stop_needs_application_witness:
  "\<exists>s. thread_run demo_exec demo_ids
         (stop_run @ [Worker, Worker, Worker, Worker, Worker, Owner, Owner]) demo_thread = Inr s
     \<and> RetStop True \<in> set (ts_returned s) \<and> ts_app_stop s"
proof -
  let ?evs = "stop_run @ [Worker, Worker, Worker, Worker, Worker, Owner, Owner]"
  obtain s where run: "thread_run demo_exec demo_ids ?evs demo_thread = Inr s"
    and r: "RetStop True \<in> set (ts_returned s)"
    by (simp add: thread_eval)
  have "thread_enabled_run demo_exec demo_ids ?evs demo_thread" by (simp add: thread_eval)
  from thread_stop_needs_application [OF conn_loop.loop_client_axioms demo_thread_reachable [OF this run]]
    run r show ?thesis by blast
qed

text \<open>When the application does stop the service, a \<open>Stop(true)\<close> that is already waiting
  returns: at most five statements of the worker and two of the owner later the worker has
  ended and was joined.\<close>

theorem thread_stop_returns_after_service_stop:
  assumes "loop_client exec" and "thread_reachable exec ids s" and "ts_owner s = OStopPoll"
    and "ts_app_stop s" and "never_fails exec (ts_pre s)" and "never_fails exec (ts_post s)"
  shows "\<exists>n s'. n \<le> 5 \<and> thread_run exec ids (replicate n Worker @ [Owner, Owner]) s = Inr s'
    \<and> ts_owner s' = OIdle \<and> ts_returned s' = ts_returned s @ [RetStop True]"
proof -
  note inv = loop_client.thread_reachable_inv [OF assms(1,2)]
  have lo: "7 \<le> stage (ts_worker s)" using inv assms(3) by (simp add: thread_inv_def)
  have hi: "stage (ts_worker s) \<le> 12" by (cases "ts_worker s") simp_all
  have "1 \<le> stage (ts_worker s)" using lo by linarith
  from loop_client.worker_reaches [OF assms(1) inv this hi _ assms(5,6), of ids] assms(4) obtain n s1
    where n: "n \<le> 12 - stage (ts_worker s)" and s1: "thread_run exec ids (replicate n Worker) s = Inr s1"
      "stage (ts_worker s1) = 12" "same_owner s s1" "thread_inv s1" by blast
  have "n \<le> 5" using n lo by linarith
  moreover have "ts_owner s1 = OStopPoll" using s1(3) assms(3) by (simp add: same_owner_def)
  from loop_client.stop_poll_returns [OF assms(1) s1(4) this s1(2), of ids] s1(1,3)
  have "\<exists>s'. thread_run exec ids (replicate n Worker @ [Owner, Owner]) s = Inr s'
      \<and> ts_owner s' = OIdle \<and> ts_returned s' = ts_returned s @ [RetStop True]"
    by (auto simp: loop_client.thread_run_append [OF assms(1)] same_owner_def)
  ultimately show ?thesis by blast
qed

theorem thread_stop_returns_after_service_stop_witness:
  "\<exists>s n s'. thread_run demo_exec demo_ids stop_run demo_thread = Inr s
     \<and> n \<le> 5 \<and> thread_run demo_exec demo_ids (replicate n Worker @ [Owner, Owner]) s = Inr s'
     \<and> ts_returned s' = [RetStart True, RetStop True]"
proof -
  obtain s where run: "thread_run demo_exec demo_ids stop_run demo_thread = Inr s"
    and o: "ts_owner s = OStopPoll" "ts_app_stop s"
    and p: "never_fails demo_exec (ts_pre s)" "never_fails demo_exec (ts_post s)"
    and r: "ts_returned s = [RetStart True]"
    by (simp add: thread_eval)
  have "thread_enabled_run demo_exec demo_ids stop_run demo_thread" by (simp add: thread_eval)
  from thread_stop_returns_after_service_stop [OF conn_loop.loop_client_axioms
      demo_thread_reachable [OF this run] o p, unfolded r append.simps] obtain n s' where "n \<le> 5"
    "thread_run demo_exec demo_ids (replicate n Worker @ [Owner, Owner]) s = Inr s'"
    "ts_returned s' = [RetStart True, RetStop True]" by (elim exE conjE)
  with run show ?thesis by (intro exI [of _ s] exI [of _ n] exI [of _ s'] conjI)
qed

text \<open>After the worker has ended, the object is unusable: the loop pointer is null,
  \<open>IsRunning\<close> dereferences it, \<open>Stop\<close> fails its assertion, and a second \<open>Start(true)\<close> after
  the join faults on its first poll.\<close>

theorem thread_unusable_after_end:
  assumes "loop_client exec" and "thread_reachable exec ids s" and "ts_worker s = WDone"
  shows "GetEventLoop (ts_thread s) = None \<and> EventLoopThread_IsRunning (ts_thread s) = Inl NullDeref
    \<and> thread_run exec ids [CallStop w, Owner] s = Inl AssertFailed
    \<and> (lt_thread (ts_thread s) = Some False \<longrightarrow>
        thread_run exec ids [CallStart True pre post tid, Owner] s = Inl NullDeref)"
proof -
  note inv = loop_client.thread_reachable_inv [OF assms(1,2)]
  have l: "lt_loop (ts_thread s) = None" and st: "lt_status (ts_thread s) \<noteq> kRunning"
    using inv assms(3) by (simp_all add: thread_inv_def)
  then show ?thesis
    by (simp add: GetEventLoop_def EventLoopThread_IsRunning_def deref_loop_def owner_step_def
      EventLoopThread_Start_def)
qed

theorem thread_unusable_after_end_witness:
  "\<exists>s. thread_run demo_exec demo_ids
         (stop_run @ [Worker, Worker, Worker, Worker, Worker, Owner, Owner]) demo_thread = Inr s
     \<and> thread_run demo_exec demo_ids [CallStart True None None 1, Owner] s = Inl NullDeref"
proof -
  let ?evs = "stop_run @ [Worker, Worker, Worker, Worker, Worker, Owner, Owner]"
  obtain s where run: "thread_run demo_exec demo_ids ?evs demo_thread = Inr s"
    and r: "ts_worker s = WDone" "lt_thread (ts_thread s) = Some False"
    by (simp add: thread_eval)
  have "thread_enabled_run demo_exec demo_ids ?evs demo_thread" by (simp add: thread_eval)
  from thread_unusable_after_end [OF conn_loop.loop_client_axioms demo_thread_reachable [OF this run] r(1)]
    run r show ?thesis by blast
qed

end
