(* ===== verification/Thread_Pool.thy ===== *)
theory Thread_Pool
  imports Loop_Thread
begin

text \<open>
  The class \<open>EventLoopThreadPool\<close> of \<open>src/event_loop_thread_pool.h\<close> and
  \<open>src/event_loop_thread_pool.cc\<close>.

  Each element of \<open>threads_\<close> is a thread with its owner and its worker (\<open>thread_sys\<close>). What the
  worker, the poster of functors and the application do while the pool waits inside one of its
  own calls is a schedule: for the thread at index \<open>i\<close>, the events of that thread between the
  pool's call and the return of that call. An operation that waits returns \<open>Inr None\<close> when the
  schedule ends before the call has returned: it is still waiting.
\<close>

section \<open>State\<close>

datatype loop_ptr = NullLoop | BaseLoop | ThreadLoop nat

datatype socket_ptr = NullSocket | OwnSocket | ThreadSocket nat

type_synonym 'f schedule = "nat \<Rightarrow> 'f thread_event list"

record ('f, 'w) loop_pool =
  tp_started :: bool
  tp_thread_num :: uint32
  tp_next :: uint64                         \<comment> \<open>\<open>std::atomic<int64_t>\<close>, as its 64 bits\<close>
  tp_threads :: "('f, 'w) thread_sys list"

text \<open>What can happen to a thread while the pool's owner is inside a call on it.\<close>

fun background :: "'f thread_event \<Rightarrow> bool" where
  "background Worker = True"
| "background Owner = True"
| "background (PostOther f) = True"
| "background AppStop = True"
| "background _ = False"

definition is_schedule :: "'f schedule \<Rightarrow> bool" where
  "is_schedule sched \<longleftrightarrow> (\<forall>i. \<forall>ev \<in> set (sched i). background ev)"

section \<open>Operations\<close>

definition EventLoopThreadPool_new :: "uint32 \<Rightarrow> ('f, 'w) loop_pool" where
  "EventLoopThreadPool_new n = \<lparr>tp_started = False, tp_thread_num = n, tp_next = 0, tp_threads = []\<rparr>"

definition pool_thread_name :: "nat \<Rightarrow> string" where
  "pool_thread_name i = ''EventLoopThreadPool-thread-'' @ decimal i @ ''th''"

text \<open>
  The body of the loop of \<open>Start\<close>. \<open>t->Start\<close> returns true whenever it returns, so the branch
  that leaves with false is not taken. \<open>tid i\<close> is the id of the new thread, \<open>w i\<close> what its
  loop's functors work on.
\<close>

definition start_thread :: "('f, 'w) loop_exec \<Rightarrow> (thread_id \<Rightarrow> string) \<Rightarrow> thread_id \<Rightarrow> (nat \<Rightarrow> thread_id)
    \<Rightarrow> (nat \<Rightarrow> 'w) \<Rightarrow> bool \<Rightarrow> 'f thread_event list \<Rightarrow> nat \<Rightarrow> ('f, 'w) thread_sys option res" where
  "start_thread exec ids self tid w wait sched i =
     rbind (thread_run exec ids (CallStart wait None None (tid i) # sched) (initial_thread self (w i))) (\<lambda>t.
     if ts_owner t = OIdle
     then rbind (thread_step exec ids (CallSetName (pool_thread_name i)) t) (\<lambda>t'. Inr (Some t'))
     else Inr None)"

fun start_threads :: "('f, 'w) loop_exec \<Rightarrow> (thread_id \<Rightarrow> string) \<Rightarrow> thread_id \<Rightarrow> (nat \<Rightarrow> thread_id)
    \<Rightarrow> (nat \<Rightarrow> 'w) \<Rightarrow> bool \<Rightarrow> 'f schedule \<Rightarrow> nat \<Rightarrow> ('f, 'w) thread_sys list
    \<Rightarrow> ('f, 'w) thread_sys list option res" where
  "start_threads exec ids self tid w wait sched 0 ts = Inr (Some ts)"
| "start_threads exec ids self tid w wait sched (Suc k) ts =
     rbind (start_thread exec ids self tid w wait (sched (length ts)) (length ts)) (\<lambda>r.
     case r of
       None \<Rightarrow> Inr None
     | Some t \<Rightarrow> start_threads exec ids self tid w wait sched k (ts @ [t]))"

definition EventLoopThreadPool_Start :: "('f, 'w) loop_exec \<Rightarrow> (thread_id \<Rightarrow> string) \<Rightarrow> thread_id
    \<Rightarrow> (nat \<Rightarrow> thread_id) \<Rightarrow> (nat \<Rightarrow> 'w) \<Rightarrow> bool \<Rightarrow> 'f schedule \<Rightarrow> ('f, 'w) loop_pool
    \<Rightarrow> (bool \<times> ('f, 'w) loop_pool) option res" where
  "EventLoopThreadPool_Start exec ids self tid w wait sched p =
     rbind (cassert (\<not> tp_started p)) (\<lambda>_.
     if tp_started p then Inr (Some (True, p))
     else
       rbind (start_threads exec ids self tid w wait sched (unat (tp_thread_num p)) (tp_threads p)) (\<lambda>r.
       case r of
         None \<Rightarrow> Inr None
       | Some ts \<Rightarrow> Inr (Some (True, p\<lparr>tp_threads := ts, tp_started := True\<rparr>))))"

text \<open>\<open>threads_[i]\<close>: out of range it is undefined behaviour.\<close>

definition pool_at :: "('f, 'w) loop_pool \<Rightarrow> nat \<Rightarrow> ('f, 'w) thread_sys res" where
  "pool_at p i = (if i < length (tp_threads p) then Inr (tp_threads p ! i) else Inl OutOfBounds)"

text \<open>The loops of \<open>IsRunning\<close> and \<open>IsStopped\<close>, from index \<open>i\<close> on.\<close>

fun all_running :: "('f, 'w) loop_pool \<Rightarrow> nat \<Rightarrow> nat \<Rightarrow> bool res" where
  "all_running p i 0 = Inr (tp_started p)"
| "all_running p i (Suc k) =
     rbind (pool_at p i) (\<lambda>t.
     rbind (EventLoopThread_IsRunning (ts_thread t)) (\<lambda>r.
     if \<not> r then Inr False else all_running p (Suc i) k))"

definition EventLoopThreadPool_IsRunning :: "('f, 'w) loop_pool \<Rightarrow> bool res" where
  "EventLoopThreadPool_IsRunning p =
     (if \<not> tp_started p then Inr False else all_running p 0 (unat (tp_thread_num p)))"

fun all_stopped :: "('f, 'w) loop_pool \<Rightarrow> nat \<Rightarrow> nat \<Rightarrow> bool res" where
  "all_stopped p i 0 = Inr True"
| "all_stopped p i (Suc k) =
     rbind (pool_at p i) (\<lambda>t.
     if \<not> EventLoopThread_IsStopped (ts_thread t) then Inr False else all_stopped p (Suc i) k)"

definition EventLoopThreadPool_IsStopped :: "('f, 'w) loop_pool \<Rightarrow> bool res" where
  "EventLoopThreadPool_IsStopped p =
     (if tp_thread_num p = 0 then Inr (\<not> tp_started p)
      else all_stopped p 0 (unat (tp_thread_num p)))"

text \<open>The first loop of \<open>Stop\<close>: \<open>t->Stop(wait_thread_exit)\<close> for one thread after the other.\<close>

fun stop_threads :: "('f, 'w) loop_exec \<Rightarrow> (thread_id \<Rightarrow> string) \<Rightarrow> bool \<Rightarrow> 'f schedule \<Rightarrow> nat \<Rightarrow> nat
    \<Rightarrow> ('f, 'w) loop_pool \<Rightarrow> ('f, 'w) loop_pool option res" where
  "stop_threads exec ids wait sched i 0 p = Inr (Some p)"
| "stop_threads exec ids wait sched i (Suc k) p =
     rbind (pool_at p i) (\<lambda>t.
     rbind (thread_run exec ids (CallStop wait # sched i) t) (\<lambda>t'.
     if ts_owner t' = OIdle
     then stop_threads exec ids wait sched (Suc i) k (p\<lparr>tp_threads := (tp_threads p)[i := t']\<rparr>)
     else Inr None))"

definition EventLoopThreadPool_Stop :: "('f, 'w) loop_exec \<Rightarrow> (thread_id \<Rightarrow> string) \<Rightarrow> bool \<Rightarrow> 'f schedule
    \<Rightarrow> ('f, 'w) loop_pool \<Rightarrow> ('f, 'w) loop_pool option res" where
  "EventLoopThreadPool_Stop exec ids wait sched p =
     rbind (stop_threads exec ids wait sched 0 (unat (tp_thread_num p)) p) (\<lambda>r.
     case r of
       None \<Rightarrow> Inr None
     | Some p' \<Rightarrow>
         rbind (if tp_thread_num p' > 0 \<and> wait then EventLoopThreadPool_IsStopped p' else Inr True) (\<lambda>st.
         if st then Inr (Some (p'\<lparr>tp_started := False\<rparr>)) else Inr None))"

text \<open>
  \<open>next_.fetch_add(1)\<close> and \<open>next % threads_.size()\<close>: the signed value is converted to
  \<open>std::size_t\<close> for the remainder, which keeps its bits.
\<close>

definition pool_pick :: "('f, 'w) loop_pool \<Rightarrow> nat \<times> ('f, 'w) loop_pool" where
  "pool_pick p =
     (unat (tp_next p mod of_nat (length (tp_threads p))), p\<lparr>tp_next := tp_next p + 1\<rparr>)"

definition thread_loop_ptr :: "('f, 'w) loop_pool \<Rightarrow> nat \<Rightarrow> loop_ptr" where
  "thread_loop_ptr p i =
     (case GetEventLoop (ts_thread (tp_threads p ! i)) of None \<Rightarrow> NullLoop | Some el \<Rightarrow> ThreadLoop i)"

definition GetNextLoop :: "('f, 'w) loop_pool \<Rightarrow> loop_ptr \<times> ('f, 'w) loop_pool" where
  "GetNextLoop p =
     (if tp_threads p \<noteq> [] then (let (next, p') = pool_pick p in (thread_loop_ptr p' next, p'))
      else (BaseLoop, p))"

definition GetSocketForAccept :: "('f, 'w) loop_pool \<Rightarrow> (socket_ptr \<times> loop_ptr) \<times> ('f, 'w) loop_pool" where
  "GetSocketForAccept p =
     (if tp_threads p = [] then ((NullSocket, BaseLoop), p)
      else (let (next, p') = pool_pick p in ((ThreadSocket next, thread_loop_ptr p' next), p')))"

definition GetThreadNum :: "('f, 'w) loop_pool \<Rightarrow> uint32" where
  "GetThreadNum p = tp_thread_num p"

text \<open>The destructor; \<open>Inr None\<close>: it blocks, joining a thread that has not ended.\<close>

fun assert_all_stopped :: "('f, 'w) loop_pool \<Rightarrow> nat \<Rightarrow> nat \<Rightarrow> unit res" where
  "assert_all_stopped p i 0 = Inr ()"
| "assert_all_stopped p i (Suc k) =
     rbind (pool_at p i) (\<lambda>t.
     rbind (cassert (EventLoopThread_IsStopped (ts_thread t))) (\<lambda>_. assert_all_stopped p (Suc i) k))"

definition EventLoopThreadPool_destroy :: "('f, 'w) loop_pool \<Rightarrow> unit option res" where
  "EventLoopThreadPool_destroy p =
     rbind (cassert (unat (tp_thread_num p) = length (tp_threads p))) (\<lambda>_.
     rbind (assert_all_stopped p 0 (unat (tp_thread_num p))) (\<lambda>_.
     Inr (if (\<exists>t \<in> set (tp_threads p). EventLoopThread_destroy t = None) then None else Some ())))"

text \<open>The pool outside its own calls: a thread goes on by itself.\<close>

definition pool_thread_event :: "('f, 'w) loop_exec \<Rightarrow> (thread_id \<Rightarrow> string) \<Rightarrow> nat \<Rightarrow> 'f thread_event
    \<Rightarrow> ('f, 'w) loop_pool \<Rightarrow> ('f, 'w) loop_pool res" where
  "pool_thread_event exec ids i ev p =
     rbind (pool_at p i) (\<lambda>t.
     rbind (thread_step exec ids ev t) (\<lambda>t'. Inr (p\<lparr>tp_threads := (tp_threads p)[i := t']\<rparr>)))"


section \<open>Calls of the pool as runs of its threads\<close>

lemma run_background_reachable:
  "thread_reachable exec ids s \<Longrightarrow> \<forall>ev \<in> set evs. background ev \<Longrightarrow>
   thread_run exec ids evs s = Inr s' \<Longrightarrow> thread_reachable exec ids s'"
proof (induction evs arbitrary: s)
  case Nil
  then show ?case by simp
next
  case (Cons ev evs)
  then obtain s1 where s1: "thread_step exec ids ev s = Inr s1" "thread_run exec ids evs s1 = Inr s'"
    by auto
  have "thread_enabled ev s" using Cons.prems(2) by (cases ev) simp_all
  from Cons.IH [OF thread_reachable.event [OF Cons.prems(1) this s1(1)] _ s1(2)] Cons.prems(2)
  show ?case by simp
qed

lemma call_optional_owner:
  "call_optional exec g s = Inr s' \<Longrightarrow> ts_owner s' = ts_owner s \<and> ts_returned s' = ts_returned s
     \<and> ts_app_stop s' = ts_app_stop s"
  by (auto simp: call_optional_def split: option.splits)

lemma service_step_owner:
  "service_step exec s = Inr s' \<Longrightarrow> ts_owner s' = ts_owner s \<and> ts_returned s' = ts_returned s
     \<and> ts_app_stop s' = ts_app_stop s"
  by (auto simp: service_step_def split: if_splits)

lemma worker_step_owner:
  "worker_step exec ids s = Inr s' \<Longrightarrow> ts_owner s' = ts_owner s \<and> ts_returned s' = ts_returned s
     \<and> ts_app_stop s' = ts_app_stop s"
  by (cases "ts_worker s")
     (auto simp: worker_step_def dest: call_optional_owner service_step_owner)

text \<open>
  The stages of a waiting call of the owner: \<open>Start(true)\<close> and \<open>Stop(true)\<close> end with their
  return on the list.
\<close>

definition in_start :: "('f, 'w) thread_sys \<Rightarrow> bool" where
  "in_start s \<longleftrightarrow> ts_owner s = OStartPoll \<or> ts_owner s = OIdle \<and> RetStart True \<in> set (ts_returned s)"

definition in_stop :: "('f, 'w) thread_sys \<Rightarrow> bool" where
  "in_stop s \<longleftrightarrow> ts_owner s \<in> {OStopAssert True, OStopStatus True, OStopCall True, OStopPoll, OJoin}
     \<or> ts_owner s = OIdle \<and> RetStop True \<in> set (ts_returned s)"

lemma in_start_owner_step: "in_start s \<Longrightarrow> owner_step exec s = Inr s' \<Longrightarrow> in_start s'"
  by (auto simp: in_start_def owner_step_def split: if_splits)

lemma in_stop_owner_step:
  assumes "in_stop s" and "owner_step exec s = Inr s'"
  shows "in_stop s'"
proof (cases "ts_owner s")
  case (OStopCall w)
  with assms(1) have "w" by (simp add: in_stop_def)
  with assms(2) OStopCall have "ts_owner s' = OStopPoll"
    by (auto simp: owner_step_def Let_def)
  then show ?thesis by (simp add: in_stop_def)
qed (use assms in \<open>auto simp: in_stop_def owner_step_def Let_def split: option.splits if_splits\<close>)

lemma phases_cong:
  "ts_owner s' = ts_owner s \<Longrightarrow> ts_returned s' = ts_returned s \<Longrightarrow> in_start s' = in_start s \<and> in_stop s' = in_stop s"
  by (simp add: in_start_def in_stop_def)

lemma background_step_phases:
  assumes "background ev" and "ev \<noteq> Owner" and "thread_step exec ids ev s = Inr s'"
  shows "in_start s' = in_start s \<and> in_stop s' = in_stop s"
proof (rule phases_cong)
  show "ts_owner s' = ts_owner s" "ts_returned s' = ts_returned s"
    using assms worker_step_owner [of exec ids s s'] by (cases ev; auto)+
qed

lemma background_step_keeps:
  assumes "background ev" and "thread_step exec ids ev s = Inr s'"
  shows "in_start s \<Longrightarrow> in_start s'" and "in_stop s \<Longrightarrow> in_stop s'"
proof -
  show "in_start s'" if "in_start s"
    using background_step_phases [OF assms(1) _ assms(2)] in_start_owner_step [OF that] assms(2) that
    by (cases "ev = Owner") auto
  show "in_stop s'" if "in_stop s"
    using background_step_phases [OF assms(1) _ assms(2)] in_stop_owner_step [OF that] assms(2) that
    by (cases "ev = Owner") auto
qed

lemma background_run_keeps:
  assumes "\<forall>ev \<in> set evs. background ev" and "thread_run exec ids evs s = Inr s'"
  shows "in_start s \<Longrightarrow> in_start s'" and "in_stop s \<Longrightarrow> in_stop s'"
  using assms by (induction evs arbitrary: s) (auto dest: background_step_keeps)

lemma owner_step_app_stop: "owner_step exec s = Inr s' \<Longrightarrow> ts_app_stop s' = ts_app_stop s"
  by (cases "ts_owner s") (auto simp: owner_step_def Let_def split: if_splits option.splits)

lemma run_keeps_app_stop:
  "thread_run exec ids evs s = Inr s' \<Longrightarrow> AppStop \<notin> set evs \<Longrightarrow> ts_app_stop s' = ts_app_stop s"
proof (induction evs arbitrary: s)
  case Nil
  then show ?case by simp
next
  case (Cons ev evs)
  then obtain s1 where s1: "thread_step exec ids ev s = Inr s1" "thread_run exec ids evs s1 = Inr s'"
    by auto
  have "ts_app_stop s1 = ts_app_stop s"
  proof (cases ev)
    case Worker
    with s1(1) worker_step_owner show ?thesis by fastforce
  next
    case Owner
    with s1(1) owner_step_app_stop show ?thesis by fastforce
  next
    case (CallStart w pre post tid)
    with s1(1) show ?thesis by (auto simp: EventLoopThread_Start_def Let_def split: if_splits)
  qed (use s1(1) Cons.prems(2) in auto)
  with Cons.IH [OF s1(2)] Cons.prems(2) show ?case by simp
qed

text \<open>After \<open>Stop(true)\<close> has returned, the application stopped the service.\<close>

lemma stop_true_run:
  assumes "loop_client exec" and "thread_reachable exec ids t" and "ts_owner t = OIdle"
    and "\<forall>ev \<in> set evs. background ev"
    and "thread_run exec ids (CallStop True # evs) t = Inr t'" and "ts_owner t' = OIdle"
  shows "ts_app_stop t'"
proof -
  let ?t0 = "t\<lparr>ts_owner := OStopAssert True\<rparr>"
  have run: "thread_run exec ids evs ?t0 = Inr t'" using assms(5) by simp
  have "thread_reachable exec ids ?t0"
    using thread_reachable.event [OF assms(2), of "CallStop True" ?t0] assms(3) by simp
  from loop_client.thread_reachable_inv [OF assms(1) run_background_reachable [OF this assms(4) run]]
  have inv: "thread_inv t'" .
  have "in_stop ?t0" by (simp add: in_stop_def)
  from background_run_keeps(2) [OF assms(4) run this] assms(6)
  have "RetStop True \<in> set (ts_returned t')" by (simp add: in_stop_def)
  with inv have "ts_worker t' = WDone" unfolding thread_inv_def by blast
  then have "8 \<le> stage (ts_worker t')" by simp
  with inv show ?thesis unfolding thread_inv_def by blast
qed

text \<open>A thread whose start has returned.\<close>

definition started_thread :: "('f, 'w) loop_exec \<Rightarrow> (thread_id \<Rightarrow> string) \<Rightarrow> bool \<Rightarrow> ('f, 'w) thread_sys \<Rightarrow> bool" where
  "started_thread exec ids wait t \<longleftrightarrow> thread_reachable exec ids t \<and> ts_owner t = OIdle
     \<and> (wait \<longrightarrow> RetStart True \<in> set (ts_returned t))"

lemma start_thread_spec:
  assumes "start_thread exec ids self tid w wait sched i = Inr (Some t)"
    and "\<forall>ev \<in> set sched. background ev" and "tid i \<noteq> self"
  shows "started_thread exec ids wait t \<and> EventLoopThread_name (ts_thread t) = pool_thread_name i"
proof -
  from assms(1) obtain t1 where
      run: "thread_run exec ids (CallStart wait None None (tid i) # sched) (initial_thread self (w i)) = Inr t1"
    and idle: "ts_owner t1 = OIdle"
    and t: "thread_step exec ids (CallSetName (pool_thread_name i)) t1 = Inr t"
    by (auto simp: start_thread_def split: if_splits)
  let ?call = "CallStart wait None None (tid i)"
  from run obtain t0 where t0: "thread_step exec ids ?call (initial_thread self (w i)) = Inr t0"
    and run0: "thread_run exec ids sched t0 = Inr t1" by auto
  have "thread_enabled ?call (initial_thread self (w i))"
    using assms(3) by (simp add: initial_thread_def EventLoopThread_new_def)
  from thread_reachable.event [OF thread_reachable.created this t0]
  have "thread_reachable exec ids t0" .
  from run_background_reachable [OF this assms(2) run0] have r1: "thread_reachable exec ids t1" .
  have "thread_enabled (CallSetName (pool_thread_name i)) t1" using idle by simp
  from thread_reachable.event [OF r1 this t] have r: "thread_reachable exec ids t" .
  have "RetStart True \<in> set (ts_returned t1)" if wait
  proof -
    have "in_start t0" using t0 that
      by (auto simp: in_start_def EventLoopThread_Start_def Let_def split: if_splits)
    from background_run_keeps(1) [OF assms(2) run0 this] idle show ?thesis by (auto simp: in_start_def)
  qed
  with r idle t show ?thesis
    by (auto simp: started_thread_def EventLoopThread_SetName_def EventLoopThread_name_def)
qed

lemma start_threads_spec:
  assumes "start_threads exec ids self tid w wait sched k ts = Inr (Some ts')"
    and "is_schedule sched" and "\<forall>i. tid i \<noteq> self"
    and "\<forall>i < length ts. started_thread exec ids wait (ts ! i)
      \<and> EventLoopThread_name (ts_thread (ts ! i)) = pool_thread_name i"
  shows "length ts' = length ts + k \<and> (\<forall>i < length ts'. started_thread exec ids wait (ts' ! i)
      \<and> EventLoopThread_name (ts_thread (ts' ! i)) = pool_thread_name i)"
  using assms(1,4)
proof (induction k arbitrary: ts)
  case 0
  then show ?case by simp
next
  case (Suc k)
  then obtain t where t: "start_thread exec ids self tid w wait (sched (length ts)) (length ts) = Inr (Some t)"
    and rest: "start_threads exec ids self tid w wait sched k (ts @ [t]) = Inr (Some ts')"
    by (auto split: option.splits)
  have "started_thread exec ids wait t \<and> EventLoopThread_name (ts_thread t) = pool_thread_name (length ts)"
    using start_thread_spec [OF t] assms(2,3) by (auto simp: is_schedule_def)
  then have "\<forall>i < length (ts @ [t]). started_thread exec ids wait ((ts @ [t]) ! i)
      \<and> EventLoopThread_name (ts_thread ((ts @ [t]) ! i)) = pool_thread_name i"
    using Suc.prems(2) by (auto simp: nth_append less_Suc_eq)
  from Suc.IH [OF rest this] show ?case by simp
qed

lemma pool_started:
  assumes "is_schedule sched" and "\<forall>i. tid i \<noteq> self" and "tp_threads p = []"
    and "EventLoopThreadPool_Start exec ids self tid w wait sched p = Inr (Some (r, p'))"
  shows "\<forall>t \<in> set (tp_threads p'). started_thread exec ids wait t"
proof -
  have "\<not> tp_started p" using assms(4) by (auto simp: EventLoopThreadPool_Start_def)
  then have "start_threads exec ids self tid w wait sched (unat (tp_thread_num p)) []
      = Inr (Some (tp_threads p'))"
    using assms(3,4) by (auto simp: EventLoopThreadPool_Start_def split: option.splits)
  from start_threads_spec [OF this assms(1,2)] show ?thesis by (auto simp: in_set_conv_nth)
qed

lemma pool_start_spec:
  assumes "is_schedule sched" and "\<forall>i. tid i \<noteq> self" and "tp_threads p = []"
    and "EventLoopThreadPool_Start exec ids self tid w wait sched p = Inr (Some (r, p'))"
  shows "r \<and> tp_thread_num p' = tp_thread_num p \<and> length (tp_threads p') = unat (tp_thread_num p')
    \<and> (\<forall>t \<in> set (tp_threads p'). started_thread exec ids wait t)"
proof -
  have ns: "\<not> tp_started p" using assms(4) by (auto simp: EventLoopThreadPool_Start_def)
  with assms(3,4) obtain ts where
      ts: "start_threads exec ids self tid w wait sched (unat (tp_thread_num p)) [] = Inr (Some ts)"
    and p': "p' = p\<lparr>tp_threads := ts, tp_started := True\<rparr>" and r
    by (auto simp: EventLoopThreadPool_Start_def split: option.splits)
  from start_threads_spec [OF ts assms(1,2)] p' \<open>r\<close> show ?thesis by (auto simp: in_set_conv_nth)
qed

lemma all_running_true:
  assumes "tp_started p" and "i + k \<le> length (tp_threads p)"
    and "\<forall>j < length (tp_threads p). EventLoopThread_IsRunning (ts_thread (tp_threads p ! j)) = Inr True"
  shows "all_running p i k = Inr True"
  using assms by (induction k arbitrary: i) (simp_all add: pool_at_def)

lemma pool_thread_name_inj: "pool_thread_name i = pool_thread_name j \<longleftrightarrow> i = j"
  by (simp add: pool_thread_name_def)

lemma all_stopped_Inr:
  "i + k \<le> length (tp_threads p) \<Longrightarrow>
   all_stopped p i k = Inr (\<forall>j \<in> {i..<i + k}. EventLoopThread_IsStopped (ts_thread (tp_threads p ! j)))"
proof (induction k arbitrary: i)
  case 0
  show ?case by simp
next
  case (Suc k)
  have "{i..<i + Suc k} = insert i {Suc i..<Suc i + k}" by auto
  with Suc show ?case by (simp add: pool_at_def)
qed

text \<open>What \<open>Stop(true)\<close> of the pool did to each of its threads, if it got through them.\<close>

lemma stop_threads_spec:
  assumes "stop_threads exec ids True sched i k p = Inr (Some p')"
    and "is_schedule sched" and "\<forall>t \<in> set (tp_threads p). thread_reachable exec ids t \<and> ts_owner t = OIdle"
  shows "length (tp_threads p') = length (tp_threads p) \<and> (i + k \<le> length (tp_threads p) \<or> k = 0)"
    and "\<forall>j \<in> {i..<i + k}. thread_reachable exec ids (tp_threads p' ! j)
      \<and> RetStop True \<in> set (ts_returned (tp_threads p' ! j))"
    and "\<forall>j < i. tp_threads p' ! j = tp_threads p ! j"
proof -
  have "length (tp_threads p') = length (tp_threads p) \<and> (i + k \<le> length (tp_threads p) \<or> k = 0)
    \<and> (\<forall>j \<in> {i..<i + k}. thread_reachable exec ids (tp_threads p' ! j)
        \<and> RetStop True \<in> set (ts_returned (tp_threads p' ! j)))
    \<and> (\<forall>j < i. tp_threads p' ! j = tp_threads p ! j)"
    using assms(1,3)
  proof (induction k arbitrary: i p)
    case 0
    then show ?case by simp
  next
    case (Suc k)
    from Suc.prems(1) obtain t' where i: "i < length (tp_threads p)"
      and run: "thread_run exec ids (CallStop True # sched i) (tp_threads p ! i) = Inr t'"
      and idle: "ts_owner t' = OIdle"
      and rest: "stop_threads exec ids True sched (Suc i) k (p\<lparr>tp_threads := (tp_threads p)[i := t']\<rparr>) = Inr (Some p')"
      by (auto simp: pool_at_def split: if_splits)
    have bg: "\<forall>ev \<in> set (sched i). background ev" using assms(2) by (simp add: is_schedule_def)
    let ?t = "tp_threads p ! i"
    have rt: "thread_reachable exec ids ?t" "ts_owner ?t = OIdle" using Suc.prems(2) i by simp_all
    let ?t0 = "?t\<lparr>ts_owner := OStopAssert True\<rparr>"
    have run0: "thread_run exec ids (sched i) ?t0 = Inr t'" using run by simp
    have "thread_reachable exec ids ?t0"
      using thread_reachable.event [OF rt(1), of "CallStop True" ?t0] rt(2) by simp
    from run_background_reachable [OF this bg run0] have r': "thread_reachable exec ids t'" .
    have "in_stop ?t0" by (simp add: in_stop_def)
    from background_run_keeps(2) [OF bg run0 this] idle have ret: "RetStop True \<in> set (ts_returned t')"
      by (simp add: in_stop_def)
    let ?p1 = "p\<lparr>tp_threads := (tp_threads p)[i := t']\<rparr>"
    have "\<forall>t \<in> set (tp_threads ?p1). thread_reachable exec ids t \<and> ts_owner t = OIdle"
      using Suc.prems(2) r' idle set_update_subset_insert [of "tp_threads p" i t'] by auto
    note IH = Suc.IH [OF rest this]
    have "tp_threads p' ! i = t'" using IH i by simp
    moreover have "{i..<i + Suc k} = insert i {Suc i..<Suc i + k}" by auto
    ultimately show ?case using IH r' ret i by auto
  qed
  then show "length (tp_threads p') = length (tp_threads p) \<and> (i + k \<le> length (tp_threads p) \<or> k = 0)"
    "\<forall>j \<in> {i..<i + k}. thread_reachable exec ids (tp_threads p' ! j)
      \<and> RetStop True \<in> set (ts_returned (tp_threads p' ! j))"
    "\<forall>j < i. tp_threads p' ! j = tp_threads p ! j" by blast+
qed

text \<open>A pool that stops its threads and waits for them does not get past the first.\<close>

lemma pool_waits:
  assumes "loop_client exec" and "is_schedule sched" and "\<forall>i. AppStop \<notin> set (sched i)"
    and "0 < tp_thread_num p"
    and "\<forall>t \<in> set (tp_threads p). started_thread exec ids wait t \<and> \<not> ts_app_stop t"
  shows "EventLoopThreadPool_Stop exec ids True sched p \<noteq> Inr (Some p')"
proof
  assume "EventLoopThreadPool_Stop exec ids True sched p = Inr (Some p')"
  moreover obtain k where "unat (tp_thread_num p) = Suc k"
    using assms(4) by (metis word_gt_0 not0_implies_Suc unat_eq_0)
  ultimately obtain t' where ne: "tp_threads p \<noteq> []"
    and run: "thread_run exec ids (CallStop True # sched 0) (tp_threads p ! 0) = Inr t'"
    and idle: "ts_owner t' = OIdle"
    by (auto simp: EventLoopThreadPool_Stop_def pool_at_def split: option.splits if_splits)
  let ?t = "tp_threads p ! 0"
  have t: "thread_reachable exec ids ?t" "ts_owner ?t = OIdle" "\<not> ts_app_stop ?t"
    using assms(5) ne by (simp_all add: started_thread_def)
  from stop_true_run [OF assms(1) t(1,2) _ run idle] assms(2)
  have "ts_app_stop t'" by (simp add: is_schedule_def)
  moreover have "\<not> ts_app_stop t'"
    using run_keeps_app_stop [OF run] assms(3) t(3) by simp
  ultimately show False by blast
qed

section \<open>Choosing a thread\<close>

text \<open>
  The contract of a round-robin choice: the choice is the ticket modulo the number of slots,
  and every choice takes the next ticket.
\<close>

fun picks :: "('p \<Rightarrow> nat \<times> 'p) \<Rightarrow> nat \<Rightarrow> 'p \<Rightarrow> nat list" where
  "picks pick 0 p = []"
| "picks pick (Suc k) p = fst (pick p) # picks pick k (snd (pick p))"

locale round_robin =
  fixes pick :: "'p \<Rightarrow> nat \<times> 'p" and ticket :: "'p \<Rightarrow> uint64" and slots :: "'p \<Rightarrow> nat"
  assumes pick_index: "0 < slots p \<Longrightarrow> slots p < 2 ^ 64 \<Longrightarrow> fst (pick p) = unat (ticket p) mod slots p"
    and pick_ticket: "0 < slots p \<Longrightarrow> ticket (snd (pick p)) = ticket p + 1"
    and pick_slots: "slots (snd (pick p)) = slots p"
begin

lemma picks_eq:
  assumes "0 < slots p" and "slots p < 2 ^ 64" and "unat (ticket p) + k \<le> 2 ^ 64"
  shows "picks pick k p = map (\<lambda>j. (unat (ticket p) + j) mod slots p) [0..<k]"
  using assms
proof (induction k arbitrary: p)
  case 0
  show ?case by simp
next
  case (Suc k)
  show ?case
  proof (cases k)
    case 0
    with Suc.prems show ?thesis by (simp add: pick_index)
  next
    case (Suc k')
    then have lt: "unat (ticket p) + 1 < 2 ^ 64" using Suc.prems(3) by simp
    then have t: "unat (ticket (snd (pick p))) = unat (ticket p) + 1"
      using pick_ticket [OF Suc.prems(1)] by (simp add: unat_add_size)
    have "picks pick k (snd (pick p))
        = map (\<lambda>j. (unat (ticket (snd (pick p))) + j) mod slots p) [0..<k]"
      using Suc.IH [of "snd (pick p)"] Suc.prems t by (simp add: pick_slots)
    also have "\<dots> = map (\<lambda>j. (unat (ticket p) + j) mod slots p) [1..<Suc k]"
      by (rule nth_equalityI) (simp_all add: t del: upt_Suc)
    finally show ?thesis
      using Suc.prems by (simp add: pick_index upt_conv_Cons del: upt_Suc)
  qed
qed

lemma picks_range:
  "0 < slots p \<Longrightarrow> slots p < 2 ^ 64 \<Longrightarrow> \<forall>i \<in> set (picks pick k p). i < slots p"
proof (induction k arbitrary: p)
  case 0
  show ?case by simp
next
  case (Suc k)
  from Suc.IH [of "snd (pick p)"] Suc.prems
  have "\<forall>i \<in> set (picks pick k (snd (pick p))). i < slots p" by (simp add: pick_slots)
  with Suc.prems pick_index [OF Suc.prems] show ?case by simp
qed

text \<open>As many choices in a row as there are slots take every slot exactly once.\<close>

lemma picks_fair:
  assumes "0 < slots p" and "slots p < 2 ^ 64" and "unat (ticket p) + slots p \<le> 2 ^ 64"
  shows "distinct (picks pick (slots p) p) \<and> set (picks pick (slots p) p) = {0..<slots p}"
proof -
  let ?n = "slots p" and ?t = "unat (ticket p)"
  let ?f = "\<lambda>j. (?t + j) mod ?n"
  have eq: "picks pick ?n p = map ?f [0..<?n]" by (rule picks_eq [OF assms])
  have inj: "inj_on ?f {0..<?n}"
  proof (rule inj_onI)
    fix a b assume a: "a \<in> {0..<?n}" and b: "b \<in> {0..<?n}" and "?f a = ?f b"
    then obtain q1 q2 where "a + ?n * q1 = b + ?n * q2" by (auto simp: nat_mod_eq_iff)
    then have "(a + ?n * q1) mod ?n = (b + ?n * q2) mod ?n" by simp
    with a b show "a = b" by simp
  qed
  have "?f ` {0..<?n} \<subseteq> {0..<?n}" using assms(1) by auto
  then have "?f ` {0..<?n} = {0..<?n}"
    using endo_inj_surj [OF _ _ inj] by simp
  then show ?thesis using inj by (simp add: eq distinct_map)
qed

end

end
