(* ===== verification/Pool_Properties.thy ===== *)
theory Pool_Properties
  imports Thread_Properties Thread_Pool
begin

text \<open>
  The properties of \<open>EventLoopThreadPool\<close>. The two functions that choose a thread are the
  interpretations of the round-robin contract of \<open>Thread_Pool\<close>.
\<close>

section \<open>Round robin\<close>

interpretation pool_rr: round_robin pool_pick tp_next "\<lambda>p. length (tp_threads p)"
proof unfold_locales
  fix p :: "('f, 'w) loop_pool"
  assume "length (tp_threads p) < 2 ^ 64"
  then show "fst (pool_pick p) = unat (tp_next p) mod length (tp_threads p)"
    by (simp add: pool_pick_def unat_mod unat_of_size)
qed (simp_all add: pool_pick_def)

fun socket_index :: "socket_ptr \<Rightarrow> nat" where
  "socket_index (ThreadSocket i) = i"
| "socket_index _ = 0"

lemma GetSocketForAccept_pick:
  "tp_threads p \<noteq> [] \<Longrightarrow> GetSocketForAccept p =
     ((ThreadSocket (fst (pool_pick p)), thread_loop_ptr (snd (pool_pick p)) (fst (pool_pick p))),
      snd (pool_pick p))"
  by (simp add: GetSocketForAccept_def case_prod_unfold Let_def)

interpretation accept_rr: round_robin
  "\<lambda>p. (socket_index (fst (fst (GetSocketForAccept p))), snd (GetSocketForAccept p))"
  tp_next "\<lambda>p. length (tp_threads p)"
proof unfold_locales
  fix p :: "('f, 'w) loop_pool"
  show "0 < length (tp_threads p) \<Longrightarrow> length (tp_threads p) < 2 ^ 64 \<Longrightarrow>
      fst (socket_index (fst (fst (GetSocketForAccept p))), snd (GetSocketForAccept p))
        = unat (tp_next p) mod length (tp_threads p)"
    using pool_rr.pick_index [of p] by (simp add: GetSocketForAccept_pick)
  show "0 < length (tp_threads p) \<Longrightarrow>
      tp_next (snd (socket_index (fst (fst (GetSocketForAccept p))), snd (GetSocketForAccept p)))
        = tp_next p + 1"
    using pool_rr.pick_ticket [of p] by (simp add: GetSocketForAccept_pick)
  show "length (tp_threads (snd (socket_index (fst (fst (GetSocketForAccept p))), snd (GetSocketForAccept p))))
      = length (tp_threads p)"
    using pool_rr.pick_slots [of p] by (cases "tp_threads p = []")
      (simp_all add: GetSocketForAccept_pick, simp add: GetSocketForAccept_def)
qed

text \<open>The results of calling \<open>GetNextLoop\<close> a number of times.\<close>

fun next_loops :: "nat \<Rightarrow> ('f, 'w) loop_pool \<Rightarrow> loop_ptr list" where
  "next_loops 0 p = []"
| "next_loops (Suc k) p = fst (GetNextLoop p) # next_loops k (snd (GetNextLoop p))"

lemma GetNextLoop_pick:
  "tp_threads p \<noteq> [] \<Longrightarrow> GetNextLoop p =
     (thread_loop_ptr (snd (pool_pick p)) (fst (pool_pick p)), snd (pool_pick p))"
  by (simp add: GetNextLoop_def case_prod_unfold Let_def)

lemma pool_pick_threads [simp]: "tp_threads (snd (pool_pick p)) = tp_threads p"
  by (simp add: pool_pick_def)

lemma thread_loop_ptr_live:
  "i < length (tp_threads p) \<Longrightarrow> \<forall>t \<in> set (tp_threads p). GetEventLoop (ts_thread t) \<noteq> None \<Longrightarrow>
   thread_loop_ptr p i = ThreadLoop i"
  by (auto simp: thread_loop_ptr_def split: option.split dest: bspec [OF _ nth_mem])

lemma next_loops_picks:
  assumes "tp_threads p \<noteq> []" and "length (tp_threads p) < 2 ^ 64"
    and "\<forall>t \<in> set (tp_threads p). GetEventLoop (ts_thread t) \<noteq> None"
  shows "next_loops k p = map ThreadLoop (picks pool_pick k p)"
  using assms
proof (induction k arbitrary: p)
  case 0
  show ?case by simp
next
  case (Suc k)
  have "fst (pool_pick p) < length (tp_threads p)"
    using pool_rr.pick_index [of p] Suc.prems(1,2) by simp
  with Suc show ?case by (simp add: GetNextLoop_pick thread_loop_ptr_live)
qed

text \<open>C17. Round robin. While the threads of the pool have their loops, as many consecutive
  calls of \<open>GetNextLoop\<close> as there are threads return each thread's loop exactly once, from any
  state of the counter at least that far from its wrap-around; and every single call, also
  across the wrap-around of the 64-bit counter, returns the loop of one of the threads.\<close>

theorem GetNextLoop_round_robin:
  assumes "tp_threads p \<noteq> []" and "length (tp_threads p) < 2 ^ 32"
    and "\<forall>t \<in> set (tp_threads p). GetEventLoop (ts_thread t) \<noteq> None"
  defines "n \<equiv> length (tp_threads p)"
  shows "fst (GetNextLoop p) \<in> ThreadLoop ` {0..<n}
    \<and> (unat (tp_next p) + n \<le> 2 ^ 64 \<longrightarrow>
        distinct (next_loops n p) \<and> set (next_loops n p) = ThreadLoop ` {0..<n})"
proof -
  have n: "0 < n" "n < 2 ^ 64" using assms(1,2) by (simp_all add: n_def)
  note eq = next_loops_picks [OF assms(1) n(2)[unfolded n_def] assms(3)]
  have "fst (GetNextLoop p) \<in> set (next_loops (Suc 0) p)" by simp
  also have "\<dots> \<subseteq> ThreadLoop ` {0..<n}"
    using pool_rr.picks_range [OF n[unfolded n_def], of "Suc 0"] unfolding eq n_def by auto
  finally have one: "fst (GetNextLoop p) \<in> ThreadLoop ` {0..<n}" .
  have "distinct (next_loops n p) \<and> set (next_loops n p) = ThreadLoop ` {0..<n}"
    if "unat (tp_next p) + n \<le> 2 ^ 64"
    using pool_rr.picks_fair [OF n[unfolded n_def] that[unfolded n_def]]
    unfolding eq n_def by (simp add: distinct_map inj_on_def)
  with one show ?thesis by blast
qed

text \<open>A pool of two threads, started and waited for.\<close>

definition demo_sched :: "conn_task schedule" where
  "demo_sched i = [Worker, Worker, Worker, Worker, Worker, Worker, Owner]"

definition demo_pool :: "(conn_task, app_env tcpconn) loop_pool" where
  "demo_pool = EventLoopThreadPool_new 2"

abbreviation start_demo :: "bool \<Rightarrow> (bool \<times> (conn_task, app_env tcpconn) loop_pool) option res" where
  "start_demo wait \<equiv>
     EventLoopThreadPool_Start demo_exec demo_ids 0 Suc (\<lambda>i. demo_conn) wait demo_sched demo_pool"

lemma threads_numeral:
  "start_threads exec ids self tid w wait sched (numeral n) ts =
     start_threads exec ids self tid w wait sched (Suc (pred_numeral n)) ts"
  "stop_threads exec ids wait sched i (numeral n) p = stop_threads exec ids wait sched i (Suc (pred_numeral n)) p"
  "all_running p i (numeral n) = all_running p i (Suc (pred_numeral n))"
  "all_stopped p i (numeral n) = all_stopped p i (Suc (pred_numeral n))"
  "assert_all_stopped p i (numeral n) = assert_all_stopped p i (Suc (pred_numeral n))"
  by (simp_all add: numeral_eq_Suc)

lemmas pool_eval = demo_pool_def EventLoopThreadPool_new_def EventLoopThreadPool_Start_def
  start_thread_def demo_sched_def threads_numeral

theorem GetNextLoop_round_robin_witness:
  "\<exists>p. start_demo True = Inr (Some (True, p)) \<and> tp_next p = 0
     \<and> distinct (next_loops 2 p) \<and> set (next_loops 2 p) = {ThreadLoop 0, ThreadLoop 1}"
proof -
  obtain p where p: "start_demo True = Inr (Some (True, p))"
    and h: "length (tp_threads p) = 2" "tp_next p = 0"
      "\<forall>t \<in> set (tp_threads p). GetEventLoop (ts_thread t) \<noteq> None"
    by (simp add: pool_eval thread_eval GetEventLoop_def)
  have "tp_threads p \<noteq> []" "length (tp_threads p) < 2 ^ 32" using h by auto
  note t = GetNextLoop_round_robin [OF this h(3), unfolded h(1,2)]
  have "{0..<2 :: nat} = {0, 1}" by auto
  then show ?thesis using t p h(2) by simp
qed

text \<open>\<open>GetSocketForAccept\<close> hands out a socket together with the loop of the same thread, and
  goes round the threads in the same way: the sockets of consecutive calls are those of all the
  threads, each once. Only a pool without threads hands out a null socket.\<close>

theorem GetSocketForAccept_pairs:
  assumes "length (tp_threads p) < 2 ^ 32"
    and "\<forall>t \<in> set (tp_threads p). GetEventLoop (ts_thread t) \<noteq> None"
  defines "n \<equiv> length (tp_threads p)"
    and "pick \<equiv> \<lambda>p. (socket_index (fst (fst (GetSocketForAccept p))), snd (GetSocketForAccept p))"
  shows "(tp_threads p = [] \<and> fst (GetSocketForAccept p) = (NullSocket, BaseLoop)
      \<or> (\<exists>i < n. fst (GetSocketForAccept p) = (ThreadSocket i, ThreadLoop i)))
    \<and> (0 < n \<and> unat (tp_next p) + n \<le> 2 ^ 64 \<longrightarrow>
        distinct (picks pick n p) \<and> set (picks pick n p) = {0..<n})"
proof (rule conjI, goal_cases)
  case 1
  show ?case
  proof (cases "tp_threads p = []")
    case False
    then have n: "0 < n" "n < 2 ^ 64" using assms(1) by (simp_all add: n_def)
    have "fst (pool_pick p) < n"
      using pool_rr.pick_index [OF n[unfolded n_def]] n by (simp add: n_def)
    then have "fst (GetSocketForAccept p) = (ThreadSocket (fst (pool_pick p)), ThreadLoop (fst (pool_pick p)))"
      using False assms(2) by (simp add: GetSocketForAccept_pick thread_loop_ptr_live n_def)
    with \<open>fst (pool_pick p) < n\<close> show ?thesis by blast
  qed (simp add: GetSocketForAccept_def)
next
  case 2
  show ?case
  proof (rule impI, elim conjE)
    assume "0 < n" and w: "unat (tp_next p) + n \<le> 2 ^ 64"
    moreover have "n < 2 ^ 64" using assms(1) by (simp add: n_def)
    ultimately show "distinct (picks pick n p) \<and> set (picks pick n p) = {0..<n}"
      using accept_rr.picks_fair [of p] unfolding n_def pick_def by blast
  qed
qed

theorem GetSocketForAccept_pairs_witness:
  "\<exists>p. start_demo True = Inr (Some (True, p))
     \<and> (\<exists>i < 2. fst (GetSocketForAccept p) = (ThreadSocket i, ThreadLoop i))"
proof -
  obtain p where p: "start_demo True = Inr (Some (True, p))"
    and h: "length (tp_threads p) = 2"
      "\<forall>t \<in> set (tp_threads p). GetEventLoop (ts_thread t) \<noteq> None"
    by (simp add: pool_eval thread_eval GetEventLoop_def)
  have "length (tp_threads p) < 2 ^ 32" "tp_threads p \<noteq> []" using h by auto
  with GetSocketForAccept_pairs [OF _ h(2), unfolded h(1)] p show ?thesis by fastforce
qed

section \<open>Starting and stopping\<close>



text \<open>\<open>Stop(true)\<close> of a pool with threads never returns, whatever the threads do, unless the
  application stops a service itself: it waits for ever inside the first thread's \<open>Stop\<close>.\<close>

theorem pool_stop_never_returns:
  assumes "loop_client exec" and "is_schedule sched" and "\<forall>i. AppStop \<notin> set (sched i)"
    and "0 < tp_thread_num p"
    and "\<forall>t \<in> set (tp_threads p). started_thread exec ids wait t \<and> \<not> ts_app_stop t"
  shows "EventLoopThreadPool_Stop exec ids True sched p \<noteq> Inr (Some p')"
  by (rule pool_waits [OF assms])

theorem pool_stop_never_returns_witness:
  "\<exists>p. start_demo True = Inr (Some (True, p))
     \<and> EventLoopThreadPool_Stop demo_exec demo_ids True
         (\<lambda>i. [Owner, Owner, Owner, Worker, Owner, Owner]) p = Inr None
     \<and> (\<forall>p'. EventLoopThreadPool_Stop demo_exec demo_ids True
         (\<lambda>i. [Owner, Owner, Owner, Worker, Owner, Owner]) p \<noteq> Inr (Some p'))"
proof -
  let ?s = "\<lambda>i. [Owner, Owner, Owner, Worker, Owner, Owner] :: conn_task thread_event list"
  obtain p where p: "start_demo True = Inr (Some (True, p))"
    and h: "\<forall>t \<in> set (tp_threads p). \<not> ts_app_stop t" "0 < tp_thread_num p"
    and st: "EventLoopThreadPool_Stop demo_exec demo_ids True ?s p = Inr None"
    by (simp add: pool_eval thread_eval EventLoopThreadPool_Stop_def pool_at_def)
  have "is_schedule demo_sched" by (simp add: is_schedule_def demo_sched_def)
  moreover have "\<forall>i. Suc i \<noteq> (0 :: thread_id)" by simp
  ultimately have s: "\<forall>t \<in> set (tp_threads p). started_thread demo_exec demo_ids True t \<and> \<not> ts_app_stop t"
    using pool_started [OF _ _ _ p] h(1) by (simp add: demo_pool_def EventLoopThreadPool_new_def)
  have "is_schedule ?s" "\<forall>i. AppStop \<notin> set (?s i)" by (simp_all add: is_schedule_def)
  from pool_stop_never_returns [OF conn_loop.loop_client_axioms this h(2) s] p st show ?thesis by blast
qed

text \<open>The pool cannot be destroyed once it was started: as long as the application does not
  stop the services, the destructor's assertion that every thread is stopped fails, also after
  \<open>Stop(false)\<close>. Nor can a pool of one or more threads that was never started: its
  destructor's first assertion fails, and \<open>IsStopped\<close> and \<open>Stop\<close> read past the end of the
  empty vector.\<close>

theorem pool_destroy_fails:
  assumes "loop_client exec" and "0 < tp_thread_num p"
    and "tp_threads p = [] \<or> (\<forall>t \<in> set (tp_threads p). thread_reachable exec ids t
      \<and> RetStart True \<in> set (ts_returned t) \<and> \<not> ts_app_stop t)"
  shows "EventLoopThreadPool_destroy p = Inl AssertFailed
    \<and> (tp_threads p = [] \<longrightarrow> EventLoopThreadPool_IsStopped p = Inl OutOfBounds
        \<and> EventLoopThreadPool_Stop exec ids wait sched p = Inl OutOfBounds)"
proof -
  obtain k where k: "unat (tp_thread_num p) = Suc k"
    using assms(2) by (metis word_gt_0 not0_implies_Suc unat_eq_0)
  show ?thesis
  proof (cases "tp_threads p = []")
    case True
    with k assms(2) show ?thesis
      by (simp add: EventLoopThreadPool_destroy_def EventLoopThreadPool_IsStopped_def
        EventLoopThreadPool_Stop_def pool_at_def)
  next
    case False
    then have "tp_threads p ! 0 \<in> set (tp_threads p)" by simp
    with assms(3) False have "\<not> EventLoopThread_IsStopped (ts_thread (tp_threads p ! 0))"
      using loop_client.started_loop [OF assms(1)] by (blast)
    then have "assert_all_stopped p 0 (unat (tp_thread_num p)) = Inl AssertFailed"
      using False k by (simp add: pool_at_def)
    with False show ?thesis
      by (cases "unat (tp_thread_num p) = length (tp_threads p)")
        (simp_all add: EventLoopThreadPool_destroy_def)
  qed
qed

theorem pool_destroy_fails_witness:
  "EventLoopThreadPool_destroy demo_pool = Inl AssertFailed
   \<and> EventLoopThreadPool_IsStopped demo_pool = Inl OutOfBounds"
  using pool_destroy_fails [OF conn_loop.loop_client_axioms, of demo_pool]
  by (simp add: demo_pool_def EventLoopThreadPool_new_def)

end
