(* ===== verification/Tcp_Server.thy ===== *)
theory Tcp_Server
  imports Pool_Properties
begin

text \<open>
  The class \<open>TCPServer\<close> of \<open>src/tcp_server.h\<close> and \<open>src/tcp_server.cc\<close>: the acceptor, the pool of
  loops, and the table of its connections.

  \<open>TCPConn\<close> objects are shared; \<open>sv_heap\<close> holds every one the server has made, with the callbacks
  it was given and the loop it lives on, and the table \<open>conns_\<close> maps names to positions of
  \<open>sv_heap\<close>. A functor queued on a loop and not yet run is an entry of \<open>sv_posted\<close>, an
  \<open>async_accept\<close> in progress one of \<open>sv_accept\<close>; the functors a connection queues for itself
  are in its own list of calls (\<open>Conn_System\<close>).

  The close callback that the server binds, \<open>RemoveConn\<close>, is counted in the environment of the
  connection (\<open>oe_removed\<close>) and carried out by the server at the end of the handler that called
  it; nothing the handler does in between looks at the table.

  \<open>StopInLoop\<close> waits for the threads of the pool. \<open>sv_waiting\<close> records that this call has not
  returned at the end of the schedule it was given: the listening loop is then inside it.
\<close>

section \<open>State\<close>

datatype server_task = TaskStopInLoop | TaskErase string | TaskAttach nat

record 'm server_conn =
  sc_cbs :: "'m owner_env_scheme conn_callbacks"
  sc_loop :: loop_ptr
  sc_sys :: "'m owner_env_scheme conn_sys"

record 'm tcp_server =
  sv_loop_running :: bool                    \<comment> \<open>\<open>loop_->IsRunning()\<close>\<close>
  sv_acceptor_open :: bool
  sv_closed :: bool
  sv_name :: string
  sv_pool :: "(server_task, unit) loop_pool"
  sv_conn_fn :: "'m owner_env_scheme conn_fun option"
  sv_msg_fn :: "'m owner_env_scheme conn_fun option"
  sv_next_conn_id :: uint64
  sv_conns :: "string \<rightharpoonup> nat"
  sv_heap :: "'m server_conn list"
  sv_posted :: "(loop_ptr \<times> server_task) list"
  sv_accept :: "(socket_ptr \<times> loop_ptr) list"
  sv_waiting :: bool
  sv_env :: "'m owner_env_scheme"            \<comment> \<open>what a new connection's environment is\<close>

text \<open>
  What the server takes from its platform: the printing of thread ids, the calling thread, the
  ids of new threads, and the order in which a range-based \<open>for\<close> visits an \<open>unordered_map\<close>.
\<close>

record platform =
  pf_ids :: "thread_id \<Rightarrow> string"
  pf_self :: thread_id
  pf_tid :: "nat \<Rightarrow> thread_id"
  pf_order :: "(string \<rightharpoonup> nat) \<Rightarrow> nat list"

text \<open>The pool's own threads see the server's functors as ones that leave their loop alone.\<close>

definition server_exec :: "(server_task, unit) loop_exec" where
  "server_exec f x = Inr x"

interpretation server_loop: loop_client server_exec
  by unfold_locales (simp add: server_exec_def)

section \<open>Operations\<close>

text \<open>
  The constructor. \<open>bind_ok\<close>: \<open>address::from_string\<close> parsed the address and the acceptor could
  bind and listen; otherwise it throws.
\<close>

definition TCPServer_new :: "bool \<Rightarrow> bool \<Rightarrow> string \<Rightarrow> uint32 \<Rightarrow> 'm owner_env_scheme \<Rightarrow> 'm tcp_server res" where
  "TCPServer_new bind_ok loop_running name thread_num env =
     (if \<not> bind_ok then Inl SystemError
      else Inr \<lparr>sv_loop_running = loop_running, sv_acceptor_open = True, sv_closed = False,
        sv_name = name, sv_pool = EventLoopThreadPool_new thread_num, sv_conn_fn = None,
        sv_msg_fn = None, sv_next_conn_id = 0, sv_conns = Map.empty, sv_heap = [],
        sv_posted = [], sv_accept = [], sv_waiting = False, sv_env = env\<rparr>)"

definition SetConnectionCallback :: "'m owner_env_scheme conn_fun option \<Rightarrow> 'm tcp_server \<Rightarrow> 'm tcp_server" where
  "SetConnectionCallback cb s = s\<lparr>sv_conn_fn := cb\<rparr>"

definition TCPServer_SetMessageCallback :: "'m owner_env_scheme conn_fun option \<Rightarrow> 'm tcp_server \<Rightarrow> 'm tcp_server" where
  "TCPServer_SetMessageCallback cb s = s\<lparr>sv_msg_fn := cb\<rparr>"

definition TCPServer_Init :: "'m tcp_server \<Rightarrow> bool" where
  "TCPServer_Init s = True"

text \<open>\<open>Address\<close>; \<open>ep\<close> is where the acceptor is bound, of which a closed one throws.\<close>

definition TCPServer_Address :: "endpoint \<Rightarrow> 'm tcp_server \<Rightarrow> string res" where
  "TCPServer_Address ep s = (if sv_acceptor_open s then Inr (fst ep) else Inl SystemError)"

definition TCPServer_IsRunning :: "'m tcp_server \<Rightarrow> bool res" where
  "TCPServer_IsRunning s =
     (if \<not> sv_loop_running s then Inr False
      else rbind (EventLoopThreadPool_IsRunning (sv_pool s)) (\<lambda>r.
        if \<not> r then Inr False
        else rbind (EventLoopThreadPool_IsRunning (sv_pool s)) (\<lambda>r'.
          rbind (cassert (sv_loop_running s \<and> r')) (\<lambda>_. Inr True))))"

definition TCPServer_IsStopped :: "'m tcp_server \<Rightarrow> bool res" where
  "TCPServer_IsStopped s =
     (if sv_loop_running s then Inr False
      else rbind (EventLoopThreadPool_IsStopped (sv_pool s)) (\<lambda>r.
        if \<not> r then Inr False
        else rbind (EventLoopThreadPool_IsStopped (sv_pool s)) (\<lambda>r'.
          rbind (cassert (\<not> sv_loop_running s \<and> r')) (\<lambda>_. Inr True))))"

text \<open>
  \<open>loop->RunInLoop\<close> seen from the server: \<open>self\<close> is the loop whose thread calls
  (\<open>NullLoop\<close>: a thread of none).
\<close>

definition post_task :: "loop_ptr \<Rightarrow> server_task \<Rightarrow> 'm tcp_server \<Rightarrow> 'm tcp_server" where
  "post_task loop t s = s\<lparr>sv_posted := sv_posted s @ [(loop, t)]\<rparr>"

definition erase_conn :: "string \<Rightarrow> 'm tcp_server \<Rightarrow> 'm tcp_server" where
  "erase_conn n s = s\<lparr>sv_conns := (sv_conns s)(n := None)\<rparr>"

definition RemoveConn :: "loop_ptr \<Rightarrow> string \<Rightarrow> 'm tcp_server \<Rightarrow> 'm tcp_server" where
  "RemoveConn self n s =
     (if self = BaseLoop then erase_conn n s else post_task BaseLoop (TaskErase n) s)"

text \<open>One event of the connection at position \<open>i\<close>, on its loop.\<close>

definition server_conn_event :: "nat \<Rightarrow> conn_event \<Rightarrow> 'm tcp_server \<Rightarrow> 'm tcp_server res" where
  "server_conn_event i ev s =
     (let sc = sv_heap s ! i in
      rbind (conn_step (sc_cbs sc) ev (sc_sys sc)) (\<lambda>sys.
      Inr ((RemoveConn (sc_loop sc) (tc_name (cs_conn sys)) ^^ (removed_of sys - removed_of (sc_sys sc)))
        (s\<lparr>sv_heap := (sv_heap s)[i := sc\<lparr>sc_sys := sys\<rparr>]\<rparr>))))"

text \<open>\<open>AsyncAccept\<close>. \<open>*socket\<close> of a null pointer is undefined behaviour.\<close>

definition AsyncAccept :: "'m tcp_server \<Rightarrow> 'm tcp_server res" where
  "AsyncAccept s =
     (if GetThreadNum (sv_pool s) > 0
      then (let ((socket, loop), p) = GetSocketForAccept (sv_pool s)
            in if socket = NullSocket then Inl NullDeref
               else Inr (s\<lparr>sv_pool := p, sv_accept := sv_accept s @ [(socket, loop)]\<rparr>))
      else Inr (s\<lparr>sv_accept := sv_accept s @ [(OwnSocket, BaseLoop)]\<rparr>))"

definition conn_name :: "string \<Rightarrow> uint64 \<Rightarrow> string" where
  "conn_name name i = name @ ''-conn'' @ ''#'' @ decimal (unat i)"

fun loop_number :: "loop_ptr \<Rightarrow> nat" where
  "loop_number (ThreadLoop i) = Suc i"
| "loop_number _ = 0"

text \<open>
  \<open>HandleNewConn\<close>, called on the listening loop: the name, the object, its callbacks, then
  \<open>loop->RunInLoop(OnAttachedToLoop)\<close>, then the entry in the table.
\<close>

definition HandleNewConn :: "bool \<Rightarrow> asio_socket \<Rightarrow> loop_ptr \<Rightarrow> 'm tcp_server \<Rightarrow> 'm tcp_server res" where
  "HandleNewConn in_loop socket loop s =
     rbind (cassert in_loop) (\<lambda>_.
     let cn = conn_name (sv_name s) (sv_next_conn_id s);
         s1 = s\<lparr>sv_next_conn_id := sv_next_conn_id s + 1\<rparr>
     in rbind (TCPConn_new (loop_number loop) socket cn (sv_env s)) (\<lambda>c.
        rbind (cassert (tc_type c = kIncoming)) (\<lambda>_.
        let cbs = SetCloseCallback (Some owner_close_fn)
                    (SetConnCallback (sv_conn_fn s) (SetMessageCallback (sv_msg_fn s) no_callbacks));
            i = length (sv_heap s1);
            s2 = s1\<lparr>sv_heap := sv_heap s1 @ [\<lparr>sc_cbs = cbs, sc_loop = loop, sc_sys = initial_sys c\<rparr>]\<rparr>
        in rbind (if loop = NullLoop then Inl NullDeref
                  else if loop = BaseLoop then server_conn_event i EvAttached s2
                  else Inr (post_task loop (TaskAttach i) s2)) (\<lambda>s3.
           Inr (s3\<lparr>sv_conns := (sv_conns s3)(cn \<mapsto> i)\<rparr>)))))"

text \<open>The completion handler of \<open>async_accept\<close>: \<open>None\<close> is an error.\<close>

definition accept_handler :: "asio_socket option \<Rightarrow> loop_ptr \<Rightarrow> 'm tcp_server \<Rightarrow> 'm tcp_server res" where
  "accept_handler result loop s =
     rbind (case result of
              Some socket \<Rightarrow> HandleNewConn True socket loop s
            | None \<Rightarrow> Inr s)
       (\<lambda>s'. if \<not> sv_closed s' then AsyncAccept s' else Inr s')"

definition TCPServer_Start :: "platform \<Rightarrow> server_task schedule \<Rightarrow> 'm tcp_server \<Rightarrow> 'm tcp_server option res" where
  "TCPServer_Start pf sched s =
     rbind (EventLoopThreadPool_Start server_exec (pf_ids pf) (pf_self pf) (pf_tid pf) (\<lambda>i. ()) True sched
              (sv_pool s)) (\<lambda>r.
     case r of
       None \<Rightarrow> Inr None
     | Some (ok, p) \<Rightarrow>
         (let s1 = s\<lparr>sv_pool := p\<rparr>
          in if \<not> ok then Inr (Some s1)
             else rbind (AsyncAccept s1) (\<lambda>s2. Inr (Some s2))))"

definition close_conn :: "nat \<Rightarrow> 'm tcp_server \<Rightarrow> 'm tcp_server" where
  "close_conn i s =
     (let sc = sv_heap s ! i; sys = sc_sys sc
      in s\<lparr>sv_heap := (sv_heap s)[i := sc\<lparr>sc_sys := sys\<lparr>cs_conn := Close (cs_conn sys)\<rparr>\<rparr>]\<rparr>)"

definition TCPServer_StopInLoop :: "platform \<Rightarrow> server_task schedule \<Rightarrow> 'm tcp_server \<Rightarrow> 'm tcp_server res" where
  "TCPServer_StopInLoop pf sched s =
     (let s1 = fold close_conn (pf_order pf (sv_conns s)) (s\<lparr>sv_acceptor_open := False\<rparr>)
      in rbind (EventLoopThreadPool_Stop server_exec (pf_ids pf) True sched (sv_pool s1)) (\<lambda>r.
         case r of
           None \<Rightarrow> Inr (s1\<lparr>sv_waiting := True\<rparr>)
         | Some p \<Rightarrow>
             rbind (EventLoopThreadPool_IsStopped p) (\<lambda>st.
             rbind (cassert st) (\<lambda>_. Inr (s1\<lparr>sv_pool := p, sv_closed := True\<rparr>)))))"

definition TCPServer_Stop :: "platform \<Rightarrow> server_task schedule \<Rightarrow> loop_ptr \<Rightarrow> 'm tcp_server \<Rightarrow> 'm tcp_server res" where
  "TCPServer_Stop pf sched self s =
     (if self = BaseLoop then TCPServer_StopInLoop pf sched s
      else Inr (post_task BaseLoop TaskStopInLoop s))"

text \<open>A functor the server queued, run by the loop it was queued on.\<close>

fun run_server_task :: "platform \<Rightarrow> server_task schedule \<Rightarrow> server_task \<Rightarrow> 'm tcp_server \<Rightarrow> 'm tcp_server res" where
  "run_server_task pf sched TaskStopInLoop s = TCPServer_StopInLoop pf sched s"
| "run_server_task pf sched (TaskErase n) s = Inr (erase_conn n s)"
| "run_server_task pf sched (TaskAttach i) s = server_conn_event i EvAttached s"

definition TCPServer_destroy :: "'m tcp_server \<Rightarrow> unit option res" where
  "TCPServer_destroy s =
     rbind (EventLoopThreadPool_IsStopped (sv_pool s)) (\<lambda>st.
     rbind (cassert st) (\<lambda>_.
     rbind (cassert (sv_conns s = Map.empty)) (\<lambda>_.
     rbind (cassert (\<not> sv_acceptor_open s)) (\<lambda>_. EventLoopThreadPool_destroy (sv_pool s)))))"

section \<open>The server at work\<close>

datatype server_event =
    SvAccepted asio_socket                   \<comment> \<open>the oldest \<open>async_accept\<close> completes\<close>
  | SvAcceptFailed
  | SvTask nat "server_task schedule"        \<comment> \<open>a queued functor runs\<close>
  | SvConn nat conn_event                    \<comment> \<open>an event of a connection\<close>
  | SvStop loop_ptr "server_task schedule"   \<comment> \<open>\<open>Stop\<close>, from the thread of that loop\<close>

text \<open>
  Handlers of the listening loop do not run while that loop is inside \<open>StopInLoop\<close>. The start
  of a connection is the server's own doing, not an event of its own.
\<close>

fun server_enabled :: "server_event \<Rightarrow> 'm tcp_server \<Rightarrow> bool" where
  "server_enabled (SvAccepted sock) s = (sv_accept s \<noteq> [] \<and> \<not> sv_waiting s)"
| "server_enabled SvAcceptFailed s = (sv_accept s \<noteq> [] \<and> \<not> sv_waiting s)"
| "server_enabled (SvTask i sched) s =
     (i < length (sv_posted s) \<and> (fst (sv_posted s ! i) = BaseLoop \<longrightarrow> \<not> sv_waiting s)
      \<and> is_schedule sched \<and> (\<forall>j. AppStop \<notin> set (sched j)))"
| "server_enabled (SvConn i ev) s =
     (i < length (sv_heap s) \<and> ev \<noteq> EvAttached \<and> enabled ev (sc_sys (sv_heap s ! i)))"
| "server_enabled (SvStop self sched) s =
     ((self = BaseLoop \<longrightarrow> \<not> sv_waiting s) \<and> is_schedule sched \<and> (\<forall>j. AppStop \<notin> set (sched j)))"

fun server_step :: "platform \<Rightarrow> server_event \<Rightarrow> 'm tcp_server \<Rightarrow> 'm tcp_server res" where
  "server_step pf (SvAccepted sock) s =
     accept_handler (Some sock) (snd (hd (sv_accept s))) (s\<lparr>sv_accept := tl (sv_accept s)\<rparr>)"
| "server_step pf SvAcceptFailed s =
     accept_handler None (snd (hd (sv_accept s))) (s\<lparr>sv_accept := tl (sv_accept s)\<rparr>)"
| "server_step pf (SvTask i sched) s =
     run_server_task pf sched (snd (sv_posted s ! i))
       (s\<lparr>sv_posted := take i (sv_posted s) @ drop (Suc i) (sv_posted s)\<rparr>)"
| "server_step pf (SvConn i ev) s = server_conn_event i ev s"
| "server_step pf (SvStop self sched) s = TCPServer_Stop pf sched self s"

fun server_run :: "platform \<Rightarrow> server_event list \<Rightarrow> 'm tcp_server \<Rightarrow> 'm tcp_server res" where
  "server_run pf [] s = Inr s"
| "server_run pf (ev # evs) s =
     (if server_enabled ev s then rbind (server_step pf ev s) (server_run pf evs) else Inl AssertFailed)"

end
