(* ===== verification/Server_Contract.thy ===== *)
theory Server_Contract
  imports Tcp_Server Conn_Owner
begin

text \<open>
  The invariant of a server: its table of connections, the callbacks of its connections, and
  the accept requests it keeps up. \<open>server_app\<close> is the contract of the application's two
  callbacks (they leave the owner's part of a connection alone); under it every event keeps
  the invariant.
\<close>

section \<open>Views of a server\<close>

definition name_of :: "'m tcp_server \<Rightarrow> nat \<Rightarrow> string" where
  "name_of s i = tc_name (cs_conn (sc_sys (sv_heap s ! i)))"

definition removed :: "'m tcp_server \<Rightarrow> nat \<Rightarrow> nat" where
  "removed s i = removed_of (sc_sys (sv_heap s ! i))"

abbreviation conn_count :: "'m tcp_server \<Rightarrow> nat" where
  "conn_count s \<equiv> length (sv_heap s)"

text \<open>The functors queued on the listening loop that erase an entry.\<close>

definition erasing :: "'m tcp_server \<Rightarrow> string \<Rightarrow> bool" where
  "erasing s n \<longleftrightarrow> (\<exists>l. (l, TaskErase n) \<in> set (sv_posted s))"

text \<open>
  The invariant of the table. Names follow the numbers of the connections; an entry leads to
  the connection of that name; a connection whose close callback has not run is in the table;
  one whose close callback has run is out of it, or a functor that erases it is queued; and
  nothing else is ever erased. Below \<open>2 ^ 64\<close> connections no name repeats.
\<close>

definition table_inv :: "'m tcp_server \<Rightarrow> bool" where
  "table_inv s \<longleftrightarrow>
     sv_next_conn_id s = of_nat (conn_count s)
   \<and> (\<forall>i < conn_count s. name_of s i = conn_name (sv_name s) (of_nat i))
   \<and> (\<forall>n i. sv_conns s n = Some i \<longrightarrow> i < conn_count s \<and> name_of s i = n)
   \<and> (\<forall>i < conn_count s. conn_count s \<le> 2 ^ 64 \<and> removed s i = 0 \<longrightarrow> sv_conns s (name_of s i) = Some i)
   \<and> (\<forall>i < conn_count s. 0 < removed s i \<longrightarrow> sv_conns s (name_of s i) = Some i \<longrightarrow> erasing s (name_of s i))
   \<and> (\<forall>n. erasing s n \<longrightarrow> (\<exists>i < conn_count s. name_of s i = n \<and> 0 < removed s i))
   \<and> (\<forall>l i. (l, TaskAttach i) \<in> set (sv_posted s) \<longrightarrow> i < conn_count s)"

lemma table_invD:
  assumes "table_inv s"
  shows "sv_next_conn_id s = of_nat (conn_count s)"
    and "i < conn_count s \<Longrightarrow> name_of s i = conn_name (sv_name s) (of_nat i)"
    and "sv_conns s n = Some i \<Longrightarrow> i < conn_count s \<and> name_of s i = n"
    and "i < conn_count s \<Longrightarrow> conn_count s \<le> 2 ^ 64 \<Longrightarrow> removed s i = 0 \<Longrightarrow> sv_conns s (name_of s i) = Some i"
    and "i < conn_count s \<Longrightarrow> 0 < removed s i \<Longrightarrow> sv_conns s (name_of s i) = Some i \<Longrightarrow> erasing s (name_of s i)"
    and "erasing s n \<Longrightarrow> \<exists>i < conn_count s. name_of s i = n \<and> 0 < removed s i"
    and "(l, TaskAttach i) \<in> set (sv_posted s) \<Longrightarrow> i < conn_count s"
  using assms unfolding table_inv_def by blast+

lemma conn_name_inj: "conn_name name i = conn_name name j \<longleftrightarrow> i = j"
  by (simp add: conn_name_def word_unat_eq_iff)

lemma names_distinct:
  assumes "table_inv s" and "i < conn_count s" and "j < conn_count s" and "conn_count s \<le> 2 ^ 64"
    and "name_of s i = name_of s j"
  shows "i = j"
proof -
  have "(of_nat i :: uint64) = of_nat j"
    using assms by (simp add: table_invD(2) [OF assms(1)] conn_name_inj)
  then have "unat (of_nat i :: uint64) = unat (of_nat j :: uint64)" by simp
  with assms(2-4) show ?thesis by (simp add: unat_of_size)
qed

text \<open>Dropping one element of a list.\<close>

lemma set_remove_nth:
  assumes "i < length xs"
  shows "set (take i xs @ drop (Suc i) xs) \<subseteq> set xs"
    and "x \<in> set xs \<Longrightarrow> x \<noteq> xs ! i \<Longrightarrow> x \<in> set (take i xs @ drop (Suc i) xs)"
proof -
  have eq: "set xs = insert (xs ! i) (set (take i xs @ drop (Suc i) xs))"
    using assms by (subst id_take_nth_drop [OF assms]) auto
  show "set (take i xs @ drop (Suc i) xs) \<subseteq> set xs"
    and "x \<in> set xs \<Longrightarrow> x \<noteq> xs ! i \<Longrightarrow> x \<in> set (take i xs @ drop (Suc i) xs)"
    using eq by blast+
qed

section \<open>Steps on the table\<close>

text \<open>
  An event of a connection: the name stays, and what the close callback counted is removed at
  once, or queued for the listening loop.
\<close>

definition after_event :: "nat \<Rightarrow> nat \<Rightarrow> 'm tcp_server \<Rightarrow> 'm tcp_server \<Rightarrow> bool" where
  "after_event i k s s' \<longleftrightarrow> conn_count s' = conn_count s \<and> sv_name s' = sv_name s
     \<and> sv_next_conn_id s' = sv_next_conn_id s
     \<and> (\<forall>j < conn_count s. name_of s' j = name_of s j)
     \<and> (\<forall>j < conn_count s. removed s' j = (if j = i then removed s i + k else removed s j))
     \<and> (k = 0 \<and> sv_conns s' = sv_conns s \<and> sv_posted s' = sv_posted s
        \<or> 0 < k \<and> sv_conns s' = (sv_conns s)(name_of s i := None) \<and> sv_posted s' = sv_posted s
        \<or> 0 < k \<and> sv_conns s' = sv_conns s
          \<and> sv_posted s' = sv_posted s @ replicate k (BaseLoop, TaskErase (name_of s i)))"

lemma after_event_inv:
  assumes inv: "table_inv s" and i: "i < conn_count s" and a: "after_event i k s s'"
  shows "table_inv s'"
proof -
  note D = table_invD [OF inv]
  have cnt: "conn_count s' = conn_count s" and nm: "\<And>j. j < conn_count s \<Longrightarrow> name_of s' j = name_of s j"
    and rm: "\<And>j. j < conn_count s \<Longrightarrow> removed s' j = (if j = i then removed s i + k else removed s j)"
    and eqs: "sv_name s' = sv_name s" "sv_next_conn_id s' = sv_next_conn_id s"
    using a by (auto simp: after_event_def)
  have er: "erasing s' n \<longleftrightarrow> erasing s n \<or> n = name_of s i \<and> 0 < k \<and> sv_conns s' = sv_conns s"
    if "sv_posted s' \<noteq> sv_posted s" for n
    using a that by (auto simp: after_event_def erasing_def)
  have er0: "erasing s' n \<longleftrightarrow> erasing s n" if "sv_posted s' = sv_posted s" for n
    using that by (simp add: erasing_def)
  show ?thesis
    unfolding table_inv_def cnt
  proof (intro conjI allI impI, goal_cases)
    case 1
    show ?case using D(1) eqs by simp
  next
    case (2 j)
    then show ?case using D(2) nm eqs by simp
  next
    case (3 n j)
    then have "sv_conns s n = Some j" using a by (auto simp: after_event_def split: if_splits)
    then show ?case using D(3) by blast
  next
    case (4 n j)
    then have "sv_conns s n = Some j" using a by (auto simp: after_event_def split: if_splits)
    then show ?case using D(3) nm by blast
  next
    case (5 j)
    then have j0: "removed s j = 0" and old: "sv_conns s (name_of s j) = Some j"
      using D(4) rm by (auto split: if_splits)
    have "name_of s j \<noteq> name_of s i" if "0 < k"
      using names_distinct [OF inv _ i] 5 rm [of j] that by (auto split: if_splits)
    then show ?case using old nm [OF 5(1)] a by (auto simp: after_event_def)
  next
    case (6 j)
    then have old: "sv_conns s (name_of s j) = Some j"
      using nm a by (auto simp: after_event_def split: if_splits)
    show ?case
    proof (cases "0 < removed s j")
      case True
      then have "erasing s (name_of s j)" using D(5) 6(1) old by blast
      then show ?thesis using er er0 nm [OF 6(1)] by (cases "sv_posted s' = sv_posted s") simp_all
    next
      case False
      then have "j = i" "0 < k" using 6(2) rm [OF 6(1)] by (auto split: if_splits)
      moreover have "sv_conns s' (name_of s i) = Some i" using 6(3) nm i \<open>j = i\<close> by simp
      ultimately show ?thesis using a nm i by (auto simp: after_event_def erasing_def)
    qed
  next
    case (7 n)
    show ?case
    proof (cases "erasing s n")
      case True
      then obtain j where "j < conn_count s" "name_of s j = n" "0 < removed s j" using D(6) by blast
      then show ?thesis using nm rm by (intro exI [of _ j]) auto
    next
      case False
      then have "n = name_of s i" "0 < k" using 7 er er0 by (cases "sv_posted s' = sv_posted s"; blast)+
      then show ?thesis using i nm rm by (intro exI [of _ i]) simp
    qed
  next
    case (8 l j)
    then have "(l, TaskAttach j) \<in> set (sv_posted s)" using a by (auto simp: after_event_def)
    then show ?case by (rule D(7))
  qed
qed

lemma RemoveConn_many:
  "(RemoveConn self n ^^ k) s =
     (if k = 0 then s else if self = BaseLoop then erase_conn n s
      else s\<lparr>sv_posted := sv_posted s @ replicate k (BaseLoop, TaskErase n)\<rparr>)"
proof (induction k)
  case 0
  show ?case by simp
next
  case (Suc k)
  then show ?case
    by (auto simp: RemoveConn_def erase_conn_def post_task_def replicate_append_same)
qed

lemma server_conn_event_after:
  assumes run: "server_conn_event i ev s = Inr s'" and i: "i < conn_count s"
    and own: "owned_conn (\<le>) (sc_cbs (sv_heap s ! i))"
  shows "after_event i (removed s' i - removed s i) s s'"
    and "sv_acceptor_open s' = sv_acceptor_open s \<and> sv_closed s' = sv_closed s \<and> sv_pool s' = sv_pool s
      \<and> sv_accept s' = sv_accept s \<and> sv_waiting s' = sv_waiting s \<and> sv_conn_fn s' = sv_conn_fn s
      \<and> sv_msg_fn s' = sv_msg_fn s \<and> sv_loop_running s' = sv_loop_running s \<and> sv_env s' = sv_env s"
    and "\<forall>j < conn_count s. sc_cbs (sv_heap s' ! j) = sc_cbs (sv_heap s ! j)"
    and "\<exists>sys. conn_step (sc_cbs (sv_heap s ! i)) ev (sc_sys (sv_heap s ! i)) = Inr sys
      \<and> sc_sys (sv_heap s' ! i) = sys"
proof -
  let ?sc = "sv_heap s ! i"
  from run obtain sys where st: "conn_step (sc_cbs ?sc) ev (sc_sys ?sc) = Inr sys"
    and s': "s' = (RemoveConn (sc_loop ?sc) (tc_name (cs_conn sys)) ^^ (removed_of sys - removed_of (sc_sys ?sc)))
        (s\<lparr>sv_heap := (sv_heap s)[i := ?sc\<lparr>sc_sys := sys\<rparr>]\<rparr>)"
    by (auto simp: server_conn_event_def Let_def)
  from owned_conn.conn_step_owner [OF own st]
  have nm: "tc_name (cs_conn sys) = tc_name (cs_conn (sc_sys ?sc))"
    and le: "removed_of (sc_sys ?sc) \<le> removed_of sys" by (auto simp: owner_rel_def)
  have heap: "sv_heap s' = (sv_heap s)[i := ?sc\<lparr>sc_sys := sys\<rparr>]"
    by (simp add: s' RemoveConn_many erase_conn_def)
  have k: "removed s' i - removed s i = removed_of sys - removed_of (sc_sys ?sc)"
    and add: "removed s' i = removed s i + (removed_of sys - removed_of (sc_sys ?sc))"
    using i le by (simp_all add: removed_def heap)
  let ?k = "removed_of sys - removed_of (sc_sys ?sc)"
  have "?k = 0 \<and> sv_conns s' = sv_conns s \<and> sv_posted s' = sv_posted s
      \<or> 0 < ?k \<and> sv_conns s' = (sv_conns s)(name_of s i := None) \<and> sv_posted s' = sv_posted s
      \<or> 0 < ?k \<and> sv_conns s' = sv_conns s
        \<and> sv_posted s' = sv_posted s @ replicate ?k (BaseLoop, TaskErase (name_of s i))"
    unfolding s' RemoveConn_many nm
    by (cases "?k = 0"; cases "sc_loop ?sc = BaseLoop") (simp_all add: erase_conn_def name_of_def)
  moreover have "\<forall>j < conn_count s. name_of s' j = name_of s j"
    using i by (simp add: name_of_def heap nth_list_update nm)
  moreover have "\<forall>j < conn_count s. removed s' j = (if j = i then removed s i + ?k else removed s j)"
    using add i by (simp add: removed_def heap nth_list_update)
  moreover have "conn_count s' = conn_count s" by (simp add: heap)
  moreover have "sv_name s' = sv_name s \<and> sv_next_conn_id s' = sv_next_conn_id s"
    by (simp add: s' RemoveConn_many erase_conn_def)
  ultimately show "after_event i (removed s' i - removed s i) s s'"
    unfolding k after_event_def by blast
  show "sv_acceptor_open s' = sv_acceptor_open s \<and> sv_closed s' = sv_closed s \<and> sv_pool s' = sv_pool s
      \<and> sv_accept s' = sv_accept s \<and> sv_waiting s' = sv_waiting s \<and> sv_conn_fn s' = sv_conn_fn s
      \<and> sv_msg_fn s' = sv_msg_fn s \<and> sv_loop_running s' = sv_loop_running s \<and> sv_env s' = sv_env s"
    by (simp add: s' RemoveConn_many erase_conn_def)
  show "\<forall>j < conn_count s. sc_cbs (sv_heap s' ! j) = sc_cbs (sv_heap s ! j)"
    using i by (simp add: heap nth_list_update)
  show "\<exists>sys. conn_step (sc_cbs ?sc) ev (sc_sys ?sc) = Inr sys \<and> sc_sys (sv_heap s' ! i) = sys"
    using st i by (simp add: heap)
qed


section \<open>A new connection\<close>

lemma insert_conn_inv:
  assumes inv: "table_inv s"
    and heap: "sv_heap s' = sv_heap s @ [x]" and nx: "sv_next_conn_id s' = sv_next_conn_id s + 1"
    and name: "sv_name s' = sv_name s" "tc_name (cs_conn (sc_sys x)) = conn_name (sv_name s) (sv_next_conn_id s)"
    and fresh: "removed_of (sc_sys x) = 0"
    and conns: "sv_conns s' = (sv_conns s)(conn_name (sv_name s) (sv_next_conn_id s) \<mapsto> conn_count s)"
    and posted: "sv_posted s' = sv_posted s \<or> (\<exists>l. sv_posted s' = sv_posted s @ [(l, TaskAttach (conn_count s))])"
  shows "table_inv s'"
proof -
  note D = table_invD [OF inv]
  let ?n = "conn_count s" and ?cn = "conn_name (sv_name s) (of_nat (conn_count s))"
  have nm: "j < ?n \<Longrightarrow> name_of s' j = name_of s j" and rm: "j < ?n \<Longrightarrow> removed s' j = removed s j" for j
    by (simp_all add: name_of_def removed_def heap nth_append)
  have nn: "name_of s' ?n = ?cn" and rn: "removed s' ?n = 0"
    using name(2) fresh D(1) by (simp_all add: name_of_def removed_def heap)
  have conns': "sv_conns s' = (sv_conns s)(?cn \<mapsto> ?n)" using conns D(1) by simp
  have er: "erasing s' m \<longleftrightarrow> erasing s m" for m using posted by (auto simp: erasing_def)
  have cnt: "conn_count s' = Suc ?n" by (simp add: heap)
  show ?thesis
    unfolding table_inv_def cnt er
  proof (intro conjI allI impI, goal_cases)
    case 1
    show ?case using nx D(1) by simp
  next
    case (2 j)
    then show ?case using D(2) nm nn name(1) by (cases "j = ?n") auto
  next
    case (3 m j)
    then show ?case using conns' D(3) [of m j] by (auto split: if_splits)
  next
    case (4 m j)
    show ?case
    proof (cases "m = ?cn")
      case True
      with 4 conns' nn show ?thesis by simp
    next
      case False
      with 4 conns' have "sv_conns s m = Some j" by simp
      from D(3) [OF this] nm show ?thesis by auto
    qed
  next
    case (5 j)
    show ?case
    proof (cases "j = ?n")
      case True
      with conns' nn show ?thesis by simp
    next
      case False
      with 5 have j: "j < ?n" by simp
      have "unat (of_nat j :: uint64) \<noteq> unat (of_nat ?n :: uint64)"
        using 5 j by (simp add: unat_of_size)
      then have "name_of s j \<noteq> ?cn" using D(2) [OF j] by (auto simp: conn_name_inj)
      moreover have "sv_conns s (name_of s j) = Some j" using D(4) [OF j] 5 rm [OF j] by simp
      ultimately show ?thesis using conns' nm [OF j] by simp
    qed
  next
    case (6 j)
    then have j: "j < ?n" using rn by (cases "j = ?n") auto
    with 6 nm have "sv_conns s' (name_of s j) = Some j" by simp
    then have "sv_conns s (name_of s j) = Some j" using conns' j by (auto split: if_splits)
    then show ?case using D(5) [OF j] 6 j nm rm by simp
  next
    case (7 m)
    from D(6) [OF this] obtain i where "i < ?n" "name_of s i = m" "0 < removed s i" by blast
    with nm rm show ?case by (intro exI [of _ i]) auto
  next
    case (8 l j)
    with posted have "j = ?n \<or> (l, TaskAttach j) \<in> set (sv_posted s)" by auto
    then show ?case using D(7) [of l j] by auto
  qed
qed

text \<open>Taking a functor out of the queue, and carrying out an erasure.\<close>

definition dequeue :: "nat \<Rightarrow> 'm tcp_server \<Rightarrow> 'm tcp_server" where
  "dequeue i s = s\<lparr>sv_posted := take i (sv_posted s) @ drop (Suc i) (sv_posted s)\<rparr>"

lemma dequeue_sel [simp]:
  "sv_heap (dequeue i s) = sv_heap s" "sv_conns (dequeue i s) = sv_conns s"
  "sv_name (dequeue i s) = sv_name s" "sv_next_conn_id (dequeue i s) = sv_next_conn_id s"
  "name_of (dequeue i s) j = name_of s j" "removed (dequeue i s) j = removed s j"
  by (simp_all add: dequeue_def name_of_def removed_def)

lemma erasing_dequeue:
  assumes "i < length (sv_posted s)"
  shows "erasing (dequeue i s) n \<Longrightarrow> erasing s n"
    and "erasing s n \<Longrightarrow> snd (sv_posted s ! i) \<noteq> TaskErase n \<Longrightarrow> erasing (dequeue i s) n"
proof -
  show "erasing s n" if "erasing (dequeue i s) n"
    using that set_remove_nth(1) [OF assms] by (auto simp: erasing_def dequeue_def)
  assume "erasing s n" and ne: "snd (sv_posted s ! i) \<noteq> TaskErase n"
  then obtain l where l: "(l, TaskErase n) \<in> set (sv_posted s)" by (auto simp: erasing_def)
  have "(l, TaskErase n) \<noteq> sv_posted s ! i" using ne by (metis snd_conv)
  from set_remove_nth(2) [OF assms l this] show "erasing (dequeue i s) n"
    by (auto simp: erasing_def dequeue_def)
qed

lemma dequeue_inv:
  assumes inv: "table_inv s" and i: "i < length (sv_posted s)"
    and other: "\<And>n. snd (sv_posted s ! i) \<noteq> TaskErase n"
  shows "table_inv (dequeue i s)"
proof -
  note D = table_invD [OF inv]
  have er: "erasing (dequeue i s) n \<longleftrightarrow> erasing s n" for n
    using erasing_dequeue [OF i] other by blast
  have at: "(l, TaskAttach j) \<in> set (sv_posted (dequeue i s)) \<Longrightarrow> j < conn_count s" for l j
    using D(7) set_remove_nth(1) [OF i] by (auto simp: dequeue_def)
  show ?thesis
    using inv unfolding table_inv_def er dequeue_sel
    by (elim conjE, intro conjI) (assumption | use at in blast)+
qed

lemma erase_inv:
  assumes inv: "table_inv s" and i: "i < length (sv_posted s)"
    and task: "snd (sv_posted s ! i) = TaskErase n"
  shows "table_inv (erase_conn n (dequeue i s))"
proof -
  note D = table_invD [OF inv]
  let ?s = "erase_conn n (dequeue i s)"
  have v [simp]: "sv_heap ?s = sv_heap s" "name_of ?s j = name_of s j" "removed ?s j = removed s j"
      "sv_conns ?s = (sv_conns s)(n := None)" "erasing ?s m = erasing (dequeue i s) m"
      "sv_name ?s = sv_name s" "sv_next_conn_id ?s = sv_next_conn_id s"
      "sv_posted ?s = sv_posted (dequeue i s)" for j m
    by (simp_all add: erase_conn_def name_of_def removed_def erasing_def)
  have er: "erasing s n" using task i by (metis erasing_def nth_mem prod.collapse)
  show ?thesis
    unfolding table_inv_def v
  proof (intro conjI allI impI, goal_cases)
    case (5 j)
    obtain j' where j': "j' < conn_count s" "name_of s j' = n" "0 < removed s j'" using D(6) er by blast
    have "name_of s j \<noteq> n"
      using names_distinct [OF inv 5(1) j'(1)] 5 j' by auto
    then show ?case using D(4) 5 by simp
  next
    case (6 j)
    then have ne: "name_of s j \<noteq> n" and "sv_conns s (name_of s j) = Some j" by (auto split: if_splits)
    then have "erasing s (name_of s j)" using D(5) 6 by blast
    then show ?case using erasing_dequeue(2) [OF i] task ne by simp
  next
    case (7 m)
    then show ?case using D(6) erasing_dequeue(1) [OF i] by blast
  next
    case (8 l j)
    then show ?case using D(7) set_remove_nth(1) [OF i] by (auto simp: dequeue_def)
  next
    case (3 m j)
    then show ?case using D(3) [of m j] by (auto split: if_splits)
  next
    case (4 m j)
    then show ?case using D(3) [of m j] by (auto split: if_splits)
  qed (use D(1,2) in simp_all)
qed

lemma close_conn_after: "i < conn_count s \<Longrightarrow> after_event i 0 s (close_conn i s)"
  by (auto simp: after_event_def close_conn_def Let_def name_of_def removed_def nth_list_update)

lemma close_conn_frame:
  "sv_pool (close_conn i s) = sv_pool s" "sv_accept (close_conn i s) = sv_accept s"
  "sv_closed (close_conn i s) = sv_closed s" "sv_waiting (close_conn i s) = sv_waiting s"
  "sv_acceptor_open (close_conn i s) = sv_acceptor_open s" "sv_conn_fn (close_conn i s) = sv_conn_fn s"
  "sv_msg_fn (close_conn i s) = sv_msg_fn s" "sv_env (close_conn i s) = sv_env s"
  "conn_count (close_conn i s) = conn_count s" "sv_conns (close_conn i s) = sv_conns s"
  "sv_posted (close_conn i s) = sv_posted s"
  "j < conn_count s \<Longrightarrow> sc_cbs (sv_heap (close_conn i s) ! j) = sc_cbs (sv_heap s ! j)"
  by (simp_all add: close_conn_def Let_def) (cases "i = j"; simp)

lemma close_all_frame:
  "sv_pool (fold close_conn is s) = sv_pool s" "sv_accept (fold close_conn is s) = sv_accept s"
  "sv_closed (fold close_conn is s) = sv_closed s" "sv_waiting (fold close_conn is s) = sv_waiting s"
  "sv_acceptor_open (fold close_conn is s) = sv_acceptor_open s"
  "sv_conn_fn (fold close_conn is s) = sv_conn_fn s"
  "sv_msg_fn (fold close_conn is s) = sv_msg_fn s" "sv_env (fold close_conn is s) = sv_env s"
  "conn_count (fold close_conn is s) = conn_count s" "sv_conns (fold close_conn is s) = sv_conns s"
  "sv_posted (fold close_conn is s) = sv_posted s"
  "j < conn_count s \<Longrightarrow> sc_cbs (sv_heap (fold close_conn is s) ! j) = sc_cbs (sv_heap s ! j)"
  by (induction "is" arbitrary: s) (simp_all add: close_conn_frame)

lemma close_all_inv: "table_inv s \<Longrightarrow> table_inv (fold close_conn is s)"
proof (induction "is" arbitrary: s)
  case Nil
  then show ?case by simp
next
  case (Cons i "is")
  have "table_inv (close_conn i s)"
  proof (cases "i < conn_count s")
    case True
    show ?thesis using after_event_inv [OF Cons.prems True close_conn_after [OF True]] .
  next
    case False
    then have "close_conn i s = s" by (simp add: close_conn_def Let_def list_update_beyond leI)
    with Cons.prems show ?thesis by simp
  qed
  then show ?case by (simp add: Cons.IH)
qed

lemma table_inv_cong:
  assumes "sv_heap s' = sv_heap s" "sv_conns s' = sv_conns s" "sv_posted s' = sv_posted s"
    "sv_name s' = sv_name s" "sv_next_conn_id s' = sv_next_conn_id s"
  shows "table_inv s' = table_inv s"
  using assms by (simp add: table_inv_def name_of_def removed_def erasing_def)

end
