(* ===== verification/Server_Inv.thy ===== *)
theory Server_Inv
  imports Server_Contract
begin

text \<open>
  The invariant of a running \<open>TCPServer\<close>: its table of connections agrees with the connections it
  has made, one \<open>async_accept\<close> is outstanding, and the pool is the one \<open>Start\<close> left. The locale
  \<open>server_app\<close> is the contract between the server and the application's callbacks; every
  operation keeps the invariant under it.
\<close>

section \<open>The invariant of the server\<close>

definition pool_ok :: "platform \<Rightarrow> (server_task, unit) loop_pool \<Rightarrow> bool" where
  "pool_ok pf p \<longleftrightarrow> length (tp_threads p) = unat (tp_thread_num p)
     \<and> (\<forall>t \<in> set (tp_threads p). started_thread server_exec (pf_ids pf) True t \<and> \<not> ts_app_stop t)"

definition good_request :: "(server_task, unit) loop_pool \<Rightarrow> socket_ptr \<times> loop_ptr \<Rightarrow> bool" where
  "good_request p r \<longleftrightarrow> tp_threads p = [] \<and> r = (OwnSocket, BaseLoop)
     \<or> (\<exists>i < length (tp_threads p). r = (ThreadSocket i, ThreadLoop i))"

definition apps_inv :: "'m owner_env_scheme conn_fun option \<Rightarrow> 'm owner_env_scheme conn_fun option
    \<Rightarrow> 'm tcp_server \<Rightarrow> bool" where
  "apps_inv cf mf s \<longleftrightarrow> sv_conn_fn s = cf \<and> sv_msg_fn s = mf \<and> oe_removed (sv_env s) = 0
     \<and> (\<forall>i < conn_count s. sc_cbs (sv_heap s ! i) = owner_cbs cf mf owner_close_fn)"

definition core_inv :: "'m owner_env_scheme conn_fun option \<Rightarrow> 'm owner_env_scheme conn_fun option
    \<Rightarrow> platform \<Rightarrow> 'm tcp_server \<Rightarrow> bool" where
  "core_inv cf mf pf s \<longleftrightarrow> table_inv s \<and> apps_inv cf mf s \<and> pool_ok pf (sv_pool s)
     \<and> (\<forall>r \<in> set (sv_accept s). good_request (sv_pool s) r)
     \<and> (sv_closed s \<longrightarrow> tp_threads (sv_pool s) = [])
     \<and> (sv_waiting s \<longrightarrow> tp_threads (sv_pool s) \<noteq> [])
     \<and> (sv_closed s \<or> sv_waiting s \<longrightarrow> \<not> sv_acceptor_open s)"

definition server_inv :: "'m owner_env_scheme conn_fun option \<Rightarrow> 'm owner_env_scheme conn_fun option
    \<Rightarrow> platform \<Rightarrow> 'm tcp_server \<Rightarrow> bool" where
  "server_inv cf mf pf s \<longleftrightarrow> core_inv cf mf pf s \<and> length (sv_accept s) \<le> 1
     \<and> (\<not> sv_closed s \<longrightarrow> length (sv_accept s) = 1)"

text \<open>What the parts look at.\<close>

lemma core_inv_cong:
  assumes "core_inv cf mf pf s"
    and "table_inv s'" and "apps_inv cf mf s'" and "sv_pool s' = sv_pool s"
    and "set (sv_accept s') \<subseteq> set (sv_accept s)" and "sv_closed s' = sv_closed s"
    and "sv_waiting s' = sv_waiting s" and "sv_acceptor_open s' = sv_acceptor_open s"
  shows "core_inv cf mf pf s'"
  using assms by (auto simp: core_inv_def)

lemma pool_ok_pick: "pool_ok pf (snd (pool_pick p)) = pool_ok pf p"
  by (simp add: pool_ok_def pool_pick_def)

lemma good_request_cong: "tp_threads p' = tp_threads p \<Longrightarrow> good_request p' r = good_request p r"
  by (simp add: good_request_def)

lemma pool_ok_loops:
  assumes "pool_ok pf p"
  shows "\<forall>t \<in> set (tp_threads p). GetEventLoop (ts_thread t) \<noteq> None"
    and "length (tp_threads p) < 2 ^ 32"
    and "tp_threads p = [] \<longleftrightarrow> \<not> GetThreadNum p > 0"
proof -
  show "\<forall>t \<in> set (tp_threads p). GetEventLoop (ts_thread t) \<noteq> None"
    using assms server_loop.started_loop(1)
    by (fastforce simp: pool_ok_def started_thread_def GetEventLoop_def)
  show "length (tp_threads p) < 2 ^ 32"
    using assms unsigned_less [of "tp_thread_num p", where 'a = nat] by (simp add: pool_ok_def)
  have "tp_threads p = [] \<longleftrightarrow> unat (tp_thread_num p) = 0"
    using assms by (metis pool_ok_def length_0_conv)
  then show "tp_threads p = [] \<longleftrightarrow> \<not> GetThreadNum p > 0"
    by (simp add: GetThreadNum_def unat_eq_0 word_gt_0)
qed

lemma AsyncAccept_spec:
  assumes "pool_ok pf (sv_pool s)"
  obtains p r where "AsyncAccept s = Inr (s\<lparr>sv_pool := p, sv_accept := sv_accept s @ [r]\<rparr>)"
    and "pool_ok pf p" and "tp_threads p = tp_threads (sv_pool s)" and "good_request p r"
proof (cases "tp_threads (sv_pool s) = []")
  case True
  then have "AsyncAccept s = Inr (s\<lparr>sv_pool := sv_pool s, sv_accept := sv_accept s @ [(OwnSocket, BaseLoop)]\<rparr>)"
    using pool_ok_loops(3) [OF assms] by (simp add: AsyncAccept_def)
  from that [OF this assms refl] True show thesis by (simp add: good_request_def)
next
  case False
  let ?p = "sv_pool s"
  note l = pool_ok_loops [OF assms]
  have "fst (pool_pick ?p) < length (tp_threads ?p)"
    using pool_rr.pick_index [of ?p] False l(2) by simp
  then have "thread_loop_ptr (snd (pool_pick ?p)) (fst (pool_pick ?p)) = ThreadLoop (fst (pool_pick ?p))"
    using l(1) by (simp add: thread_loop_ptr_live)
  then have "AsyncAccept s = Inr (s\<lparr>sv_pool := snd (pool_pick ?p),
      sv_accept := sv_accept s @ [(ThreadSocket (fst (pool_pick ?p)), ThreadLoop (fst (pool_pick ?p)))]\<rparr>)"
    using False l(3) by (simp add: AsyncAccept_def GetSocketForAccept_pick)
  from that [OF this] \<open>fst (pool_pick ?p) < length (tp_threads ?p)\<close> assms show thesis
    by (auto simp: pool_ok_pick good_request_def)
qed

text \<open>Stopping: with threads it waits, without it closes.\<close>

lemma StopInLoop_spec:
  assumes ok: "pool_ok pf (sv_pool s)" and sched: "is_schedule sched" "\<forall>j. AppStop \<notin> set (sched j)"
    and run: "TCPServer_StopInLoop pf sched s = Inr s'"
  defines "s1 \<equiv> fold close_conn (pf_order pf (sv_conns s)) (s\<lparr>sv_acceptor_open := False\<rparr>)"
  shows "tp_threads (sv_pool s) \<noteq> [] \<and> s' = s1\<lparr>sv_waiting := True\<rparr>
    \<or> tp_threads (sv_pool s) = [] \<and> s' = s1\<lparr>sv_pool := (sv_pool s)\<lparr>tp_started := False\<rparr>, sv_closed := True\<rparr>"
proof -
  have pool: "sv_pool s1 = sv_pool s" by (simp add: s1_def close_all_frame)
  show ?thesis
  proof (cases "tp_threads (sv_pool s) = []")
    case True
    then have "tp_thread_num (sv_pool s) = 0"
      using ok by (simp add: pool_ok_def unat_eq_0)
    then have "s' = s1\<lparr>sv_pool := (sv_pool s)\<lparr>tp_started := False\<rparr>, sv_closed := True\<rparr>"
      using run unfolding TCPServer_StopInLoop_def Let_def s1_def [symmetric] pool
      by (simp add: EventLoopThreadPool_Stop_def EventLoopThreadPool_IsStopped_def)
    with True show ?thesis by simp
  next
    case False
    then have "0 < tp_thread_num (sv_pool s)"
      using pool_ok_loops(3) [OF ok] by (simp add: GetThreadNum_def)
    moreover have "\<forall>t \<in> set (tp_threads (sv_pool s)).
        started_thread server_exec (pf_ids pf) True t \<and> \<not> ts_app_stop t"
      using ok by (simp add: pool_ok_def)
    ultimately have "EventLoopThreadPool_Stop server_exec (pf_ids pf) True sched (sv_pool s) \<noteq> Inr (Some p')" for p'
      by (rule pool_waits [OF server_loop.loop_client_axioms sched])
    with run have "s' = s1\<lparr>sv_waiting := True\<rparr>"
      unfolding TCPServer_StopInLoop_def Let_def s1_def [symmetric] pool
      by (auto split: option.splits)
    with False show ?thesis by simp
  qed
qed

lemma table_inv_post_stop:
  assumes inv: "table_inv s"
  shows "table_inv (post_task l TaskStopInLoop s)"
proof -
  let ?s = "post_task l TaskStopInLoop s"
  have sel: "name_of ?s i = name_of s i" "removed ?s i = removed s i" "erasing ?s n = erasing s n"
    "sv_heap ?s = sv_heap s" "sv_conns ?s = sv_conns s" "sv_name ?s = sv_name s"
    "sv_next_conn_id ?s = sv_next_conn_id s" for i n
    by (auto simp: post_task_def name_of_def removed_def erasing_def)
  have at: "(k, TaskAttach j) \<in> set (sv_posted ?s) \<Longrightarrow> j < conn_count s" for k j
    using table_invD(7) [OF inv] by (auto simp: post_task_def)
  show ?thesis
    using inv unfolding table_inv_def sel
    by (elim conjE, intro conjI) (assumption | use at in blast)+
qed

lemma dequeue_keeps:
  assumes inv: "server_inv cf mf pf s" and i: "i < length (sv_posted s)"
    and other: "\<And>n. snd (sv_posted s ! i) \<noteq> TaskErase n"
  shows "server_inv cf mf pf (dequeue i s)"
proof -
  have core: "core_inv cf mf pf s" using inv by (simp add: server_inv_def)
  have "table_inv (dequeue i s)" using dequeue_inv [OF _ i other] core by (simp add: core_inv_def)
  moreover have "apps_inv cf mf (dequeue i s)" using core by (simp add: dequeue_def core_inv_def apps_inv_def)
  ultimately show ?thesis using core_inv_cong [OF core] inv by (simp add: dequeue_def server_inv_def)
qed

locale server_app =
  fixes cf mf :: "'m owner_env_scheme conn_fun option"
  assumes cf_owner: "cf = Some f \<Longrightarrow> keeps_owner (=) f"
    and mf_owner: "mf = Some f \<Longrightarrow> keeps_owner (=) f"
begin

lemma cbs_owned: "owned_conn (\<le>) (owner_cbs cf mf owner_close_fn)"
proof (rule owner_cbs_owned)
  show "keeps_owner (\<le>) owner_close_fn"
    by (auto simp: keeps_owner_def owner_rel_def owner_close_fn_def)
qed (fact cf_owner mf_owner)+

lemma attach_keeps_count:
  assumes "OnAttachedToLoop (owner_cbs cf mf close) in_loop c = Inr c'"
  shows "tc_name c' = tc_name c \<and> oe_removed (tc_env c') = oe_removed (tc_env c)"
proof -
  from assms obtain f c1 where f: "cf = Some f" and c1: "f (outgoing_call (CallConnFn kConnected) (c\<lparr>tc_status := kConnected\<rparr>)) = Inr c1"
    and c': "c' = AsyncRead c1"
    by (auto simp: OnAttachedToLoop_def Let_def split: option.splits)
  from keeps_ownerD [OF cf_owner [OF f] c1] c' show ?thesis by (simp add: owner_rel_def)
qed

lemma conn_event_core:
  assumes inv: "core_inv cf mf pf s" and i: "i < conn_count s" and run: "server_conn_event i ev s = Inr s'"
  shows "core_inv cf mf pf s' \<and> sv_accept s' = sv_accept s \<and> sv_closed s' = sv_closed s"
proof -
  have cbs: "sc_cbs (sv_heap s ! i) = owner_cbs cf mf owner_close_fn"
    using inv i by (simp add: core_inv_def apps_inv_def)
  note e = server_conn_event_after [OF run i, unfolded cbs, OF cbs_owned]
  have t: "table_inv s'" using inv after_event_inv [OF _ i e(1)] by (simp add: core_inv_def)
  have cnt: "conn_count s' = conn_count s" using e(1) by (simp add: after_event_def)
  have "apps_inv cf mf s'" using inv e(2,3) cnt by (simp add: core_inv_def apps_inv_def)
  with core_inv_cong [OF inv t] e(2) show ?thesis by simp
qed

lemma HandleNewConn_core:
  assumes inv: "core_inv cf mf pf s" and run: "HandleNewConn True socket loop s = Inr s'"
  shows "core_inv cf mf pf s' \<and> sv_accept s' = sv_accept s \<and> sv_closed s' = sv_closed s"
proof -
  let ?cbs = "owner_cbs cf mf owner_close_fn" and ?n = "conn_count s"
  let ?cn = "conn_name (sv_name s) (sv_next_conn_id s)"
  have apps: "sv_conn_fn s = cf" "sv_msg_fn s = mf" "oe_removed (sv_env s) = 0"
    and tab: "table_inv s" using inv by (simp_all add: core_inv_def apps_inv_def)
  from run obtain c where c: "TCPConn_new (loop_number loop) socket ?cn (sv_env s) = Inr c"
    by (auto simp: HandleNewConn_def Let_def)
  then have new: "tc_name c = ?cn" "oe_removed (tc_env c) = 0"
    using apps by (auto simp: TCPConn_new_def split: option.splits)
  define s2 where "s2 = s\<lparr>sv_next_conn_id := sv_next_conn_id s + 1,
    sv_heap := sv_heap s @ [\<lparr>sc_cbs = ?cbs, sc_loop = loop, sc_sys = initial_sys c\<rparr>]\<rparr>"
  have "tc_type c = kIncoming" using c by (auto simp: TCPConn_new_def split: option.splits)
  with c have "HandleNewConn True socket loop s =
      rbind (if loop = NullLoop then Inl NullDeref
             else if loop = BaseLoop then server_conn_event ?n EvAttached s2
             else Inr (post_task loop (TaskAttach ?n) s2))
        (\<lambda>s3. Inr (s3\<lparr>sv_conns := (sv_conns s3)(?cn \<mapsto> ?n)\<rparr>))"
    by (simp add: HandleNewConn_def Let_def apps owner_cbs_def s2_def)
  with run obtain s3 where s3: "(if loop = NullLoop then Inl NullDeref
                  else if loop = BaseLoop then server_conn_event ?n EvAttached s2
                  else Inr (post_task loop (TaskAttach ?n) s2)) = Inr s3"
    and s': "s' = s3\<lparr>sv_conns := (sv_conns s3)(?cn \<mapsto> ?n)\<rparr>"
    by auto
  have "\<exists>x. sv_heap s3 = sv_heap s @ [x] \<and> sc_cbs x = ?cbs \<and> tc_name (cs_conn (sc_sys x)) = ?cn
      \<and> removed_of (sc_sys x) = 0
      \<and> (sv_posted s3 = sv_posted s \<or> (\<exists>l. sv_posted s3 = sv_posted s @ [(l, TaskAttach ?n)]))
      \<and> s3 = s2\<lparr>sv_heap := sv_heap s3, sv_posted := sv_posted s3\<rparr>"
  proof (cases "loop = BaseLoop")
    case True
    from s3 True obtain c' where c': "OnAttachedToLoop ?cbs True c = Inr c'"
      and ev: "s3 = (RemoveConn loop (tc_name c') ^^ (oe_removed (tc_env c') - oe_removed (tc_env c)))
        (s2\<lparr>sv_heap := (sv_heap s2)[?n := \<lparr>sc_cbs = ?cbs, sc_loop = loop,
           sc_sys = (initial_sys c)\<lparr>cs_conn := c'\<rparr>\<rparr>]\<rparr>)"
      by (auto simp: server_conn_event_def Let_def s2_def initial_sys_def)
    from attach_keeps_count [OF c'] new ev
    show ?thesis by (auto simp: s2_def)
  next
    case False
    with s3 have "s3 = post_task loop (TaskAttach ?n) s2" by (simp split: if_splits)
    then show ?thesis using new by (auto simp: s2_def post_task_def initial_sys_def)
  qed
  then obtain x where x: "sv_heap s3 = sv_heap s @ [x]" "sc_cbs x = ?cbs"
    "tc_name (cs_conn (sc_sys x)) = ?cn" "removed_of (sc_sys x) = 0"
    "sv_posted s3 = sv_posted s \<or> (\<exists>l. sv_posted s3 = sv_posted s @ [(l, TaskAttach ?n)])"
    and eq: "s3 = s2\<lparr>sv_heap := sv_heap s3, sv_posted := sv_posted s3\<rparr>" by blast
  have f: "sv_conns s3 = sv_conns s" "sv_name s3 = sv_name s" "sv_next_conn_id s3 = sv_next_conn_id s + 1"
    "sv_accept s3 = sv_accept s" "sv_closed s3 = sv_closed s" "sv_pool s3 = sv_pool s"
    "sv_waiting s3 = sv_waiting s" "sv_acceptor_open s3 = sv_acceptor_open s"
    "sv_conn_fn s3 = sv_conn_fn s" "sv_msg_fn s3 = sv_msg_fn s" "sv_env s3 = sv_env s"
    by (subst eq, simp add: s2_def)+
  have t: "table_inv s'"
    by (rule insert_conn_inv [OF tab, of s' x]) (use x f in \<open>simp_all add: s'\<close>)
  have "apps_inv cf mf s'"
    using inv x(1,2) f by (auto simp: s' apps_inv_def core_inv_def nth_append less_Suc_eq)
  from core_inv_cong [OF inv t this] f show ?thesis by (simp add: s')
qed

lemma accept_handler_inv:
  assumes inv: "core_inv cf mf pf s" and e: "sv_accept s = []"
    and run: "accept_handler result loop s = Inr s'"
  shows "server_inv cf mf pf s'"
proof -
  from run obtain s1 where s1: "(case result of Some socket \<Rightarrow> HandleNewConn True socket loop s | None \<Rightarrow> Inr s) = Inr s1"
    and s': "(if \<not> sv_closed s1 then AsyncAccept s1 else Inr s1) = Inr s'"
    by (auto simp: accept_handler_def)
  have c1: "core_inv cf mf pf s1 \<and> sv_accept s1 = []"
    using s1 inv e HandleNewConn_core [OF inv] by (cases result) auto
  show ?thesis
  proof (cases "sv_closed s1")
    case True
    with s' c1 show ?thesis by (simp add: server_inv_def)
  next
    case False
    have ok: "pool_ok pf (sv_pool s1)" using c1 by (simp add: core_inv_def)
    obtain p r where a: "AsyncAccept s1 = Inr (s1\<lparr>sv_pool := p, sv_accept := sv_accept s1 @ [r]\<rparr>)"
      and p: "pool_ok pf p" "tp_threads p = tp_threads (sv_pool s1)" "good_request p r"
      by (rule AsyncAccept_spec [OF ok])
    have s'eq: "s' = s1\<lparr>sv_pool := p, sv_accept := [r]\<rparr>" using a s' False c1 by simp
    have "table_inv s'" using c1 table_inv_cong [of s' s1] by (simp add: s'eq core_inv_def)
    moreover have "apps_inv cf mf s'" using c1 by (simp add: s'eq core_inv_def apps_inv_def)
    ultimately show ?thesis using c1 p False by (simp add: s'eq server_inv_def core_inv_def)
  qed
qed

lemma stop_inv:
  assumes inv: "server_inv cf mf pf s" and sched: "is_schedule sched" "\<forall>j. AppStop \<notin> set (sched j)"
    and run: "TCPServer_StopInLoop pf sched s = Inr s'"
  shows "server_inv cf mf pf s'"
proof -
  let ?s1 = "fold close_conn (pf_order pf (sv_conns s)) (s\<lparr>sv_acceptor_open := False\<rparr>)"
  have ok: "pool_ok pf (sv_pool s)" and tab: "table_inv s" using inv by (simp_all add: server_inv_def core_inv_def)
  have t1: "table_inv ?s1"
    by (rule close_all_inv) (use tab table_inv_cong [of "s\<lparr>sv_acceptor_open := False\<rparr>" s] in simp)
  have a1: "apps_inv cf mf ?s1"
    using inv by (simp add: server_inv_def core_inv_def apps_inv_def close_all_frame)
  note spec = StopInLoop_spec [OF ok sched run]
  have "table_inv s'" using spec t1 table_inv_cong [of s' ?s1] by fastforce
  moreover have "apps_inv cf mf s'" using spec a1 by (auto simp: apps_inv_def)
  moreover have "sv_accept s' = sv_accept s" "tp_threads (sv_pool s') = tp_threads (sv_pool s)"
    "pool_ok pf (sv_pool s')" "\<not> sv_acceptor_open s'"
    using spec ok by (auto simp: close_all_frame pool_ok_def)
  moreover have "sv_closed s' \<longrightarrow> tp_threads (sv_pool s) = []" "sv_waiting s' \<longrightarrow> tp_threads (sv_pool s) \<noteq> []"
    "sv_closed s \<longrightarrow> sv_closed s'"
    using spec inv by (auto simp: close_all_frame server_inv_def core_inv_def)
  ultimately show ?thesis
    using inv by (auto simp: server_inv_def core_inv_def good_request_def)
qed

lemma server_step_inv:
  assumes inv: "server_inv cf mf pf s" and en: "server_enabled ev s" and run: "server_step pf ev s = Inr s'"
  shows "server_inv cf mf pf s'"
proof -
  have core: "core_inv cf mf pf s" using inv by (simp add: server_inv_def)
  have tl: "set (tl (sv_accept s)) \<subseteq> set (sv_accept s)" by (cases "sv_accept s") auto
  have "table_inv (s\<lparr>sv_accept := tl (sv_accept s)\<rparr>)"
    using core table_inv_cong [of "s\<lparr>sv_accept := tl (sv_accept s)\<rparr>" s] by (simp add: core_inv_def)
  moreover have "apps_inv cf mf (s\<lparr>sv_accept := tl (sv_accept s)\<rparr>)"
    using core by (simp add: core_inv_def apps_inv_def)
  ultimately have popped: "core_inv cf mf pf (s\<lparr>sv_accept := tl (sv_accept s)\<rparr>)"
    using core_inv_cong [OF core] tl by simp
  have one: "sv_accept s \<noteq> [] \<Longrightarrow> tl (sv_accept s) = []"
    using inv by (cases "sv_accept s") (auto simp: server_inv_def)
  show ?thesis
  proof (cases ev)
    case (SvAccepted sock)
    with en run one show ?thesis by (intro accept_handler_inv [OF popped]) simp_all
  next
    case SvAcceptFailed
    with en run one show ?thesis by (intro accept_handler_inv [OF popped]) simp_all
  next
    case (SvConn i e)
    with en run have "i < conn_count s" "server_conn_event i e s = Inr s'" by simp_all
    from conn_event_core [OF core this] inv show ?thesis by (simp add: server_inv_def)
  next
    case (SvStop self sched)
    with en have sched: "is_schedule sched" "\<forall>j. AppStop \<notin> set (sched j)" by simp_all
    show ?thesis
    proof (cases "self = BaseLoop")
      case True
      with run SvStop stop_inv [OF inv sched] show ?thesis by (simp add: TCPServer_Stop_def)
    next
      case False
      with run SvStop have s': "s' = post_task BaseLoop TaskStopInLoop s" by (auto simp: TCPServer_Stop_def)
      have "table_inv s'" using core by (simp add: s' table_inv_post_stop core_inv_def)
      moreover have "apps_inv cf mf s'" using core by (simp add: s' post_task_def core_inv_def apps_inv_def)
      ultimately show ?thesis using core_inv_cong [OF core] inv by (simp add: s' post_task_def server_inv_def)
    qed
  next
    case (SvTask i sched)
    with en have i: "i < length (sv_posted s)" and sched: "is_schedule sched" "\<forall>j. AppStop \<notin> set (sched j)"
      by simp_all
    have run': "run_server_task pf sched (snd (sv_posted s ! i)) (dequeue i s) = Inr s'"
      using run SvTask by (simp add: dequeue_def)
    note deq = dequeue_keeps [OF inv i]
    show ?thesis
    proof (cases "snd (sv_posted s ! i)")
      case TaskStopInLoop
      then show ?thesis using run' stop_inv [OF deq sched] by simp
    next
      case (TaskErase n)
      then have s': "s' = erase_conn n (dequeue i s)" using run' by simp
      have "table_inv s'" using erase_inv [OF _ i TaskErase] core by (simp add: s' core_inv_def)
      moreover have "apps_inv cf mf s'" using core by (simp add: s' erase_conn_def dequeue_def core_inv_def apps_inv_def)
      ultimately show ?thesis using core_inv_cong [OF core] inv
        by (simp add: s' erase_conn_def dequeue_def server_inv_def)
    next
      case (TaskAttach j)
      then have "server_conn_event j EvAttached (dequeue i s) = Inr s'" using run' by simp
      moreover have "j < conn_count (dequeue i s)"
      proof -
        have "(fst (sv_posted s ! i), TaskAttach j) \<in> set (sv_posted s)"
          using nth_mem [OF i] TaskAttach by (metis prod.collapse)
        moreover have "table_inv s" using core by (simp add: core_inv_def)
        ultimately have "j < conn_count s" using table_invD(7) by blast
        then show ?thesis by (simp add: dequeue_def)
      qed
      moreover have "core_inv cf mf pf (dequeue i s)" using deq TaskAttach by (simp add: server_inv_def)
      ultimately show ?thesis using conn_event_core inv by (fastforce simp: server_inv_def dequeue_def)
    qed
  qed
qed

end

end
