(* ===== verification/Server_Properties.thy ===== *)
theory Server_Properties
  imports Server_Inv
begin

text \<open>
  The properties of \<open>TCPServer\<close>: they hold in every state that a started server reaches under
  any interleaving of accepts, connection events, queued functors and calls of \<open>Stop\<close>.
\<close>

section \<open>Reachable states\<close>

definition platform_ok :: "platform \<Rightarrow> bool" where
  "platform_ok pf \<longleftrightarrow> (\<forall>i. pf_tid pf i \<noteq> pf_self pf)"

text \<open>
  A server is built, given its callbacks, and started; the application does not stop the
  services of the pool's loops itself.
\<close>

inductive server_reachable :: "platform \<Rightarrow> 'm owner_env_scheme conn_fun option
    \<Rightarrow> 'm owner_env_scheme conn_fun option \<Rightarrow> 'm tcp_server \<Rightarrow> bool" for pf cf mf where
  started: "TCPServer_new True running name n env = Inr s0 \<Longrightarrow> oe_removed env = 0 \<Longrightarrow>
    is_schedule sched \<Longrightarrow>
    TCPServer_Start pf sched (TCPServer_SetMessageCallback mf (SetConnectionCallback cf s0)) = Inr (Some s) \<Longrightarrow>
    \<forall>t \<in> set (tp_threads (sv_pool s)). \<not> ts_app_stop t \<Longrightarrow> server_reachable pf cf mf s"
| event: "server_reachable pf cf mf s \<Longrightarrow> server_enabled ev s \<Longrightarrow> server_step pf ev s = Inr s' \<Longrightarrow>
    server_reachable pf cf mf s'"

lemma server_run_reachable:
  "server_reachable pf cf mf s \<Longrightarrow> server_run pf evs s = Inr s' \<Longrightarrow> server_reachable pf cf mf s'"
  by (induction evs arbitrary: s) (auto split: if_splits intro: server_reachable.event)

text \<open>A server that has started: nothing but its pool and the first request.\<close>

definition fresh_server :: "bool \<Rightarrow> string \<Rightarrow> 'm owner_env_scheme conn_fun option \<Rightarrow> 'm owner_env_scheme conn_fun option
    \<Rightarrow> 'm owner_env_scheme \<Rightarrow> (server_task, unit) loop_pool \<Rightarrow> socket_ptr \<times> loop_ptr \<Rightarrow> 'm tcp_server" where
  "fresh_server running name cf mf env p r =
     \<lparr>sv_loop_running = running, sv_acceptor_open = True, sv_closed = False,
        sv_name = name, sv_pool = p, sv_conn_fn = cf,
        sv_msg_fn = mf, sv_next_conn_id = 0, sv_conns = Map.empty, sv_heap = [],
        sv_posted = [], sv_accept = [r], sv_waiting = False, sv_env = env\<rparr>"

lemma AsyncAccept_thread_num: "AsyncAccept s = Inr s' \<Longrightarrow> tp_thread_num (sv_pool s') = tp_thread_num (sv_pool s)"
  by (auto simp: AsyncAccept_def GetSocketForAccept_def Let_def pool_pick_def split: if_splits)

lemma started_fresh:
  assumes pf: "platform_ok pf" and new: "TCPServer_new True running name n env = Inr s0"
    and sched: "is_schedule sched"
    and start: "TCPServer_Start pf sched (TCPServer_SetMessageCallback mf (SetConnectionCallback cf s0)) = Inr (Some s)"
    and quiet: "\<forall>t \<in> set (tp_threads (sv_pool s)). \<not> ts_app_stop t"
  shows "\<exists>p r. s = fresh_server running name cf mf env p r \<and> pool_ok pf p \<and> good_request p r \<and> tp_thread_num p = n"
proof -
  let ?s0 = "TCPServer_SetMessageCallback mf (SetConnectionCallback cf s0)"
  have s0: "s0 = \<lparr>sv_loop_running = running, sv_acceptor_open = True, sv_closed = False,
        sv_name = name, sv_pool = EventLoopThreadPool_new n, sv_conn_fn = None,
        sv_msg_fn = None, sv_next_conn_id = 0, sv_conns = Map.empty, sv_heap = [],
        sv_posted = [], sv_accept = [], sv_waiting = False, sv_env = env\<rparr>"
    using new by (simp add: TCPServer_new_def)
  have pl: "sv_pool ?s0 = EventLoopThreadPool_new n"
    by (simp add: s0 TCPServer_SetMessageCallback_def SetConnectionCallback_def)
  obtain ok p where pool: "EventLoopThreadPool_Start server_exec (pf_ids pf) (pf_self pf) (pf_tid pf) (\<lambda>i. ()) True sched
        (EventLoopThreadPool_new n) = Inr (Some (ok, p))"
    and rest: "(if \<not> ok then Inr (Some (?s0\<lparr>sv_pool := p\<rparr>))
       else rbind (AsyncAccept (?s0\<lparr>sv_pool := p\<rparr>)) (\<lambda>s2. Inr (Some s2))) = Inr (Some s)"
    using start unfolding TCPServer_Start_def pl Let_def by (auto split: option.splits)
  have tid: "\<forall>i. pf_tid pf i \<noteq> pf_self pf" using pf by (simp add: platform_ok_def)
  have emp: "tp_threads (EventLoopThreadPool_new n) = []" by (simp add: EventLoopThreadPool_new_def)
  note est = pool_start_spec [OF sched tid emp pool]
  have acc: "AsyncAccept (?s0\<lparr>sv_pool := p\<rparr>) = Inr s" using rest est by auto
  have "tp_threads (sv_pool s) = tp_threads p"
    using acc by (auto simp: AsyncAccept_def GetSocketForAccept_def Let_def pool_pick_def split: if_splits)
  then have ok: "pool_ok pf (sv_pool (?s0\<lparr>sv_pool := p\<rparr>))"
    using est quiet by (auto simp: pool_ok_def GetThreadNum_def in_set_conv_nth)
  obtain p' r where s: "s = ?s0\<lparr>sv_pool := p', sv_accept := [r]\<rparr>"
    and p': "pool_ok pf p'" "good_request p' r" "tp_thread_num p' = n"
  proof (rule AsyncAccept_spec [OF ok])
    fix p' r
    assume a: "AsyncAccept (?s0\<lparr>sv_pool := p\<rparr>) = Inr (?s0\<lparr>sv_pool := p\<rparr>
        \<lparr>sv_pool := p', sv_accept := sv_accept (?s0\<lparr>sv_pool := p\<rparr>) @ [r]\<rparr>)"
      and b: "pool_ok pf p'" "tp_threads p' = tp_threads (sv_pool (?s0\<lparr>sv_pool := p\<rparr>))"
      and c: "good_request p' r"
    have "sv_accept ?s0 = []"
      by (simp add: s0 TCPServer_SetMessageCallback_def SetConnectionCallback_def)
    then have "s = ?s0\<lparr>sv_pool := p', sv_accept := [r]\<rparr>" using a acc by simp
    moreover have "tp_thread_num p' = tp_thread_num p" using AsyncAccept_thread_num [OF a] by simp
    then have "tp_thread_num p' = n" using est by (simp add: EventLoopThreadPool_new_def)
    ultimately show thesis using that b(1) c by blast
  qed
  have "s = fresh_server running name cf mf env p' r"
    by (simp add: s s0 fresh_server_def TCPServer_SetMessageCallback_def SetConnectionCallback_def)
  with p' show ?thesis by blast
qed

lemma started_inv:
  assumes pf: "platform_ok pf" and new: "TCPServer_new True running name n env = Inr s0"
    and env: "oe_removed env = 0" and sched: "is_schedule sched"
    and start: "TCPServer_Start pf sched (TCPServer_SetMessageCallback mf (SetConnectionCallback cf s0)) = Inr (Some s)"
    and quiet: "\<forall>t \<in> set (tp_threads (sv_pool s)). \<not> ts_app_stop t"
  shows "server_inv cf mf pf s"
proof -
  obtain p r where eq: "s = fresh_server running name cf mf env p r" and p: "pool_ok pf p" "good_request p r"
    using started_fresh [OF pf new sched start quiet] by blast
  have "table_inv s" by (simp add: eq fresh_server_def table_inv_def name_of_def removed_def erasing_def)
  moreover have "apps_inv cf mf s" using env by (simp add: eq fresh_server_def apps_inv_def)
  ultimately show ?thesis using p by (simp add: server_inv_def core_inv_def eq) (simp add: fresh_server_def)
qed

lemma server_reachable_inv:
  assumes "server_app cf mf" and "platform_ok pf" and "server_reachable pf cf mf s"
  shows "server_inv cf mf pf s"
  using assms(3)
proof (induction rule: server_reachable.induct)
  case (started running name n env s0 sched s)
  then show ?case using started_inv [OF assms(2)] by blast
next
  case (event s ev s')
  then show ?case using server_app.server_step_inv [OF assms(1)] by blast
qed


section \<open>A server of the echo example\<close>

lemma echo_server_app: "server_app (Some server_OnConnection) (Some server_OnMessage)"
  by unfold_locales (auto intro: server_OnConnection_owner OnMessage_owner)

interpretation echo_on_server: server_app "Some server_OnConnection" "Some server_OnMessage"
  by (rule echo_server_app)

definition demo_platform :: platform where
  "demo_platform = \<lparr>pf_ids = (\<lambda>i. decimal i), pf_self = 0, pf_tid = Suc,
     pf_order = (\<lambda>m. if m = Map.empty then [] else [0])\<rparr>"

definition demo_socket :: asio_socket where
  "demo_socket = \<lparr>so_open = True, so_local = Some (''127.0.0.1'', 3001),
     so_remote = Some (''127.0.0.1'', 40000)\<rparr>"

definition server_sched :: "server_task schedule" where
  "server_sched i = [Worker, Worker, Worker, Worker, Worker, Worker, Owner]"

definition demo_server :: "uint32 \<Rightarrow> unit app_env_ext tcp_server option res" where
  "demo_server n = rbind (TCPServer_new True True ''echo'' n \<lparr>oe_removed = 0, ap_console = []\<rparr>) (\<lambda>s.
     TCPServer_Start demo_platform server_sched
       (TCPServer_SetMessageCallback (Some server_OnMessage) (SetConnectionCallback (Some server_OnConnection) s)))"

lemma demo_platform_ok: "platform_ok demo_platform"
  by (simp add: platform_ok_def demo_platform_def)

lemma demo_server_reachable:
  assumes "demo_server n = Inr (Some s)" and "\<forall>t \<in> set (tp_threads (sv_pool s)). \<not> ts_app_stop t"
  shows "server_reachable demo_platform (Some server_OnConnection) (Some server_OnMessage) s"
  using assms
  by (auto simp: demo_server_def TCPServer_new_def is_schedule_def server_sched_def
      intro!: server_reachable.started)

lemmas server_eval = demo_server_def TCPServer_new_def TCPServer_Start_def SetConnectionCallback_def
  TCPServer_SetMessageCallback_def pool_eval thread_eval server_sched_def demo_platform_def
  AsyncAccept_def GetThreadNum_def GetSocketForAccept_def pool_pick_def server_exec_def
  thread_loop_ptr_def GetEventLoop_def

section \<open>The table of connections\<close>

text \<open>C19. The table of a server, in every reachable state: an entry leads to the connection of
  that name; below \<open>2 ^ 64\<close> connections all names differ and a connection whose close callback
  has not run is in the table; and a connection whose close callback has run is out of it, or
  the functor that erases it is queued.\<close>

theorem server_table_invariant:
  assumes "server_app cf mf" and "platform_ok pf" and "server_reachable pf cf mf s"
  shows "(\<forall>n i. sv_conns s n = Some i \<longrightarrow> i < conn_count s \<and> name_of s i = n)
    \<and> (conn_count s \<le> 2 ^ 64 \<longrightarrow> inj_on (name_of s) {..<conn_count s}
        \<and> (\<forall>i < conn_count s. removed s i = 0 \<longrightarrow> sv_conns s (name_of s i) = Some i))
    \<and> (\<forall>i < conn_count s. 0 < removed s i \<longrightarrow>
        sv_conns s (name_of s i) \<noteq> Some i \<or> erasing s (name_of s i))"
proof -
  have tab: "table_inv s"
    using server_reachable_inv [OF assms] by (simp add: server_inv_def core_inv_def)
  have "inj_on (name_of s) {..<conn_count s}" if "conn_count s \<le> 2 ^ 64"
    using names_distinct [OF tab _ _ that] by (auto simp: inj_on_def)
  then show ?thesis using table_invD [OF tab] by blast
qed

text \<open>A connection is accepted on the single loop, the peer closes it.\<close>

definition demo_life :: "server_event list" where
  "demo_life = [SvAccepted demo_socket, SvConn 0 (EvReadFailed eof)]"

lemmas server_run_eval = server_eval demo_life_def demo_socket_def accept_handler_def HandleNewConn_def
  TCPConn_new_def server_conn_event_def OnAttachedToLoop_def HandleRead_def HandleClose_def
  initial_sys_def no_callbacks_def SetConnCallback_def SetMessageCallback_def SetCloseCallback_def
  server_OnConnection_def print_def IsConnected_def IsDisconnecting_def AsyncRead_def outgoing_call_def
  owner_close_fn_def RemoveConn_def erase_conn_def post_task_def socket_close_def is_open_def Let_def

definition single_server :: "unit app_env_ext tcp_server" where
  "single_server = \<lparr>sv_loop_running = True, sv_acceptor_open = True, sv_closed = False,
     sv_name = ''echo'', sv_pool = (EventLoopThreadPool_new 0)\<lparr>tp_started := True\<rparr>,
     sv_conn_fn = Some server_OnConnection, sv_msg_fn = Some server_OnMessage, sv_next_conn_id = 0,
     sv_conns = Map.empty, sv_heap = [], sv_posted = [], sv_accept = [(OwnSocket, BaseLoop)],
     sv_waiting = False, sv_env = \<lparr>oe_removed = 0, ap_console = []\<rparr>\<rparr>"

lemma demo_server_single: "demo_server 0 = Inr (Some single_server)"
  by (simp add: server_eval single_server_def)

lemma single_server_reachable:
  "server_run demo_platform evs single_server = Inr s \<Longrightarrow>
   server_reachable demo_platform (Some server_OnConnection) (Some server_OnMessage) s"
  by (rule server_run_reachable [OF demo_server_reachable [OF demo_server_single]])
     (simp_all add: single_server_def EventLoopThreadPool_new_def)

theorem server_table_invariant_witness:
  "\<exists>s1 s2. server_run demo_platform (take 1 demo_life) single_server = Inr s1
     \<and> sv_conns s1 (name_of s1 0) = Some 0
     \<and> server_run demo_platform demo_life single_server = Inr s2 \<and> sv_conns s2 (name_of s2 0) \<noteq> Some 0"
proof -
  obtain s1 where s1: "server_run demo_platform (take 1 demo_life) single_server = Inr s1"
    and r1: "conn_count s1 = 1" "removed s1 0 = 0"
    by (simp add: server_run_eval single_server_def removed_def)
  obtain s2 where s2: "server_run demo_platform demo_life single_server = Inr s2"
    and r2: "conn_count s2 = 1" "removed s2 0 = 1" "\<not> erasing s2 (name_of s2 0)"
    by (simp add: server_run_eval single_server_def removed_def erasing_def)
  note inv = server_table_invariant [OF echo_server_app demo_platform_ok single_server_reachable]
  have "sv_conns s1 (name_of s1 0) = Some 0" using inv [OF s1] r1 by simp
  moreover have "sv_conns s2 (name_of s2 0) \<noteq> Some 0" using inv [OF s2] r2 by simp
  ultimately show ?thesis using s1 s2 by blast
qed


lemma live_request:
  assumes "server_inv cf mf pf s" and "sv_accept s \<noteq> []"
  obtains r where "sv_accept s = [r]" and "good_request (sv_pool s) r" and "pool_ok pf (sv_pool s)"
proof -
  have len: "length (sv_accept s) \<le> 1" using assms(1) by (simp add: server_inv_def)
  with assms(2) obtain r where r: "sv_accept s = [r]" by (cases "sv_accept s") auto
  moreover have "good_request (sv_pool s) r" "pool_ok pf (sv_pool s)"
    using assms(1) r by (simp_all add: server_inv_def core_inv_def)
  ultimately show ?thesis using that by blast
qed

text \<open>C20. The requests a server keeps up are well formed. Until it has closed exactly one
  \<open>async_accept\<close> is outstanding; the socket is the server's own with the listening loop when the
  pool has no threads, and otherwise a thread's socket together with the loop of the same
  thread; and the next request can always be made, so \<open>AsyncAccept\<close> never dereferences a null
  socket.\<close>

theorem server_accept_requests:
  assumes "server_app cf mf" and "platform_ok pf" and "server_reachable pf cf mf s"
  shows "(\<not> sv_closed s \<longrightarrow> length (sv_accept s) = 1) \<and> length (sv_accept s) \<le> 1
    \<and> (\<forall>r \<in> set (sv_accept s).
        if tp_threads (sv_pool s) = [] then r = (OwnSocket, BaseLoop)
        else \<exists>i < length (tp_threads (sv_pool s)). r = (ThreadSocket i, ThreadLoop i))
    \<and> (\<exists>s'. AsyncAccept s = Inr s' \<and> length (sv_accept s') = Suc (length (sv_accept s)))"
proof -
  have inv: "server_inv cf mf pf s" using server_reachable_inv [OF assms] .
  then have ok: "pool_ok pf (sv_pool s)" by (simp add: server_inv_def core_inv_def)
  obtain p r where "AsyncAccept s = Inr (s\<lparr>sv_pool := p, sv_accept := sv_accept s @ [r]\<rparr>)"
    by (rule AsyncAccept_spec [OF ok])
  moreover have "\<forall>r \<in> set (sv_accept s). good_request (sv_pool s) r"
    using inv by (simp add: server_inv_def core_inv_def)
  ultimately show ?thesis using inv by (auto simp: server_inv_def good_request_def)
qed

lemma TCPConn_new_ok:
  assumes "so_local sock \<noteq> None" and "so_remote sock \<noteq> None"
  obtains c where "TCPConn_new l sock n env = Inr c" and "tc_type c = kIncoming" and "tc_name c = n"
  using assms by (auto simp: TCPConn_new_def)

lemma HandleNewConn_thread:
  assumes "TCPConn_new (Suc i) sock (conn_name (sv_name s) (sv_next_conn_id s)) (sv_env s) = Inr c"
    and "tc_type c = kIncoming"
  shows "\<exists>sc. HandleNewConn True sock (ThreadLoop i) s = Inr (s\<lparr>
      sv_next_conn_id := sv_next_conn_id s + 1, sv_heap := sv_heap s @ [sc],
      sv_posted := sv_posted s @ [(ThreadLoop i, TaskAttach (conn_count s))],
      sv_conns := (sv_conns s)(conn_name (sv_name s) (sv_next_conn_id s) \<mapsto> conn_count s)\<rparr>)
    \<and> sc_loop sc = ThreadLoop i \<and> cs_conn (sc_sys sc) = c \<and> sc_sys sc = initial_sys c
    \<and> sc_cbs sc = SetCloseCallback (Some owner_close_fn)
      (SetConnCallback (sv_conn_fn s) (SetMessageCallback (sv_msg_fn s) no_callbacks))"
  using assms
  by (intro exI [of _ "\<lparr>sc_cbs = SetCloseCallback (Some owner_close_fn)
      (SetConnCallback (sv_conn_fn s) (SetMessageCallback (sv_msg_fn s) no_callbacks)),
      sc_loop = ThreadLoop i, sc_sys = initial_sys c\<rparr>"])
    (simp add: HandleNewConn_def Let_def post_task_def initial_sys_def)



section \<open>Stopping\<close>

definition being_closed :: "nat \<Rightarrow> 'm tcp_server \<Rightarrow> bool" where
  "being_closed i s \<longleftrightarrow> (let c = cs_conn (sc_sys (sv_heap s ! i))
     in tc_status c = kDisconnecting \<and> QueueTask TaskClose \<in> set (tc_calls c))"

lemma close_conn_closing:
  "i < conn_count s \<Longrightarrow> being_closed i (close_conn i s)"
  "being_closed i s \<Longrightarrow> i < conn_count s \<Longrightarrow> being_closed i (close_conn j s)"
  by (cases "i = j"; simp add: being_closed_def close_conn_def Let_def Close_def)+

lemma close_all_keeps: "being_closed i s \<Longrightarrow> i < conn_count s \<Longrightarrow> being_closed i (fold close_conn is s)"
  by (induction "is" arbitrary: s) (simp_all add: close_conn_closing(2) close_conn_frame)

lemma close_all_closing: "i \<in> set is \<Longrightarrow> i < conn_count s \<Longrightarrow> being_closed i (fold close_conn is s)"
proof (induction "is" arbitrary: s)
  case (Cons j "is")
  show ?case
  proof (cases "i = j")
    case True
    with Cons.prems show ?thesis
      using close_all_keeps [OF close_conn_closing(1)] by (simp add: close_conn_frame)
  next
    case False
    with Cons show ?thesis by (simp add: close_conn_frame)
  qed
qed simp

lemma RemoveConn_frame:
  "sv_waiting ((RemoveConn self n ^^ k) s) = sv_waiting s"
  "sv_accept ((RemoveConn self n ^^ k) s) = sv_accept s"
  "sv_heap ((RemoveConn self n ^^ k) s) = sv_heap s"
  by (simp_all add: RemoveConn_many erase_conn_def)

lemma server_conn_event_frame:
  assumes "server_conn_event i ev s = Inr s'"
  shows "sv_waiting s' = sv_waiting s \<and> sv_accept s' = sv_accept s \<and> conn_count s' = conn_count s"
  using assms by (auto simp: server_conn_event_def Let_def RemoveConn_frame)

lemma StopInLoop_waits:
  assumes inv: "server_inv cf mf pf s" and "is_schedule sched" "\<forall>j. AppStop \<notin> set (sched j)"
    and "TCPServer_StopInLoop pf sched s = Inr s'" and w: "sv_waiting s"
  shows "sv_waiting s' \<and> sv_accept s' = sv_accept s \<and> conn_count s' = conn_count s"
proof -
  have "pool_ok pf (sv_pool s)" and "tp_threads (sv_pool s) \<noteq> []"
    using inv w by (simp_all add: server_inv_def core_inv_def)
  with StopInLoop_spec [OF _ assms(2-4)] w show ?thesis by (auto simp: close_all_frame)
qed

lemma waiting_forever:
  assumes "server_app cf mf" and "platform_ok pf"
  shows "server_reachable pf cf mf s \<Longrightarrow> sv_waiting s \<Longrightarrow> server_run pf evs s = Inr s' \<Longrightarrow>
    sv_waiting s' \<and> sv_accept s' = sv_accept s \<and> length (sv_heap s') = length (sv_heap s)"
proof (induction evs arbitrary: s)
  case Nil
  then show ?case by simp
next
  case (Cons ev evs)
  from Cons.prems obtain s1 where en: "server_enabled ev s" and step: "server_step pf ev s = Inr s1"
    and run: "server_run pf evs s1 = Inr s'" by (auto split: if_splits)
  have inv: "server_inv cf mf pf s" using server_reachable_inv [OF assms Cons.prems(1)] .
  have one: "sv_waiting s1 \<and> sv_accept s1 = sv_accept s \<and> conn_count s1 = conn_count s"
  proof (cases ev)
    case (SvConn i e)
    with step have "server_conn_event i e s = Inr s1" by simp
    from server_conn_event_frame [OF this] Cons.prems(2) show ?thesis by simp
  next
    case (SvStop self sched)
    then have off: "self \<noteq> BaseLoop" using en Cons.prems(2) by simp
    with SvStop step show ?thesis using Cons.prems(2) by (auto simp: TCPServer_Stop_def post_task_def)
  next
    case (SvTask i sched)
    then have sched: "is_schedule sched" "\<forall>j. AppStop \<notin> set (sched j)" and i: "i < length (sv_posted s)"
      and run: "run_server_task pf sched (snd (sv_posted s ! i)) (dequeue i s) = Inr s1"
      using en step by (simp_all add: dequeue_def)
    show ?thesis
    proof (cases "snd (sv_posted s ! i)")
      case TaskStopInLoop
      have "server_inv cf mf pf (dequeue i s)" using dequeue_keeps [OF inv i] TaskStopInLoop by simp
      from StopInLoop_waits [OF this sched] run TaskStopInLoop Cons.prems(2) show ?thesis
        by (simp add: dequeue_def)
    next
      case (TaskErase n)
      with run Cons.prems(2) show ?thesis by (auto simp: erase_conn_def dequeue_def)
    next
      case (TaskAttach j)
      with run have "server_conn_event j EvAttached (dequeue i s) = Inr s1" by simp
      from server_conn_event_frame [OF this] Cons.prems(2) show ?thesis by (simp add: dequeue_def)
    qed
  qed (use en Cons.prems(2) in simp_all)
  have "server_reachable pf cf mf s1" using server_reachable.event [OF Cons.prems(1) en step] .
  from Cons.IH [OF this _ run] one show ?case by simp
qed

text \<open>C22. What \<open>Stop\<close> on the listening loop does. The acceptor is closed and every connection of
  the table is on its way to be closed. A server without threads is then closed, and the
  pending accept, which fails, is not renewed. A server with threads waits for them inside
  \<open>StopInLoop\<close> for ever: whatever happens afterwards, its listening loop is never left, no
  completion of an accept is handled and \<open>closed_\<close> is never set.\<close>

theorem server_stop:
  assumes "server_app cf mf" and "platform_ok pf" and "server_reachable pf cf mf s"
    and "server_enabled (SvStop BaseLoop sched) s"
    and "set (pf_order pf (sv_conns s)) = ran (sv_conns s)"
    and "server_step pf (SvStop BaseLoop sched) s = Inr s'"
  shows "\<not> sv_acceptor_open s' \<and> (\<forall>n i. sv_conns s n = Some i \<longrightarrow> being_closed i s')
    \<and> (tp_threads (sv_pool s) = [] \<longrightarrow> sv_closed s' \<and>
        (server_enabled SvAcceptFailed s' \<longrightarrow>
          (\<exists>s''. server_step pf SvAcceptFailed s' = Inr s'' \<and> sv_accept s'' = [])))
    \<and> (tp_threads (sv_pool s) \<noteq> [] \<longrightarrow> sv_waiting s' \<and>
        (\<forall>evs s''. server_run pf evs s' = Inr s'' \<longrightarrow>
          sv_waiting s'' \<and> \<not> sv_closed s'' \<and> sv_accept s'' = sv_accept s' \<and> conn_count s'' = conn_count s'))"
proof -
  have inv: "server_inv cf mf pf s" using server_reachable_inv [OF assms(1-3)] .
  then have ok: "pool_ok pf (sv_pool s)" and tab: "table_inv s"
    by (simp_all add: server_inv_def core_inv_def)
  have sched: "is_schedule sched" "\<forall>j. AppStop \<notin> set (sched j)" using assms(4) by simp_all
  have run: "TCPServer_StopInLoop pf sched s = Inr s'" using assms(6) by (simp add: TCPServer_Stop_def)
  let ?s1 = "fold close_conn (pf_order pf (sv_conns s)) (s\<lparr>sv_acceptor_open := False\<rparr>)"
  note spec = StopInLoop_spec [OF ok sched run]
  have acc: "\<not> sv_acceptor_open s'" using spec by (auto simp: close_all_frame)
  have heap: "sv_heap s' = sv_heap ?s1" using spec by auto
  have cl: "being_closed i s'" if "sv_conns s n = Some i" for n i
  proof -
    have "i \<in> set (pf_order pf (sv_conns s))" using that assms(5) by (auto simp: ran_def)
    moreover have "i < conn_count s" using table_invD(3) [OF tab that] by simp
    ultimately have "being_closed i ?s1" by (intro close_all_closing) simp_all
    then show ?thesis by (simp add: being_closed_def heap)
  qed
  have reach: "server_reachable pf cf mf s'" using server_reachable.event [OF assms(3,4,6)] .
  have one: "length (sv_accept s') \<le> 1"
    using server_reachable_inv [OF assms(1,2) reach] by (simp add: server_inv_def)
  have none: "sv_closed s' \<and> (server_enabled SvAcceptFailed s' \<longrightarrow>
      (\<exists>s''. server_step pf SvAcceptFailed s' = Inr s'' \<and> sv_accept s'' = []))"
    if "tp_threads (sv_pool s) = []"
    using spec that one by (cases "sv_accept s'") (auto simp: accept_handler_def)
  have some: "sv_waiting s'' \<and> \<not> sv_closed s'' \<and> sv_accept s'' = sv_accept s' \<and> conn_count s'' = conn_count s'"
    if thr: "tp_threads (sv_pool s) \<noteq> []" and r: "server_run pf evs s' = Inr s''" for evs s''
  proof -
    have w: "sv_waiting s'" using spec thr by auto
    note fut = waiting_forever [OF assms(1,2) reach w r]
    have "server_inv cf mf pf s''"
      using server_reachable_inv [OF assms(1,2) server_run_reachable [OF reach r]] .
    with fut have "\<not> sv_closed s''" by (auto simp: server_inv_def core_inv_def)
    with fut show ?thesis by simp
  qed
  have "sv_waiting s'" if "tp_threads (sv_pool s) \<noteq> []" using spec that by auto
  with acc cl none some show ?thesis by blast
qed


theorem server_accept_requests_witness:
  "\<exists>s. demo_server 1 = Inr (Some s) \<and> sv_accept s = [(ThreadSocket 0, ThreadLoop 0)]
     \<and> (\<exists>s'. AsyncAccept s = Inr s')"
proof -
  obtain s where s: "demo_server 1 = Inr (Some s)" and h: "length (tp_threads (sv_pool s)) = 1"
    "\<not> sv_closed s" and q: "\<forall>t \<in> set (tp_threads (sv_pool s)). \<not> ts_app_stop t"
    by (simp add: server_eval)
  note c = server_accept_requests [OF echo_server_app demo_platform_ok demo_server_reachable [OF s q]]
  then obtain r where r: "sv_accept s = [r]" using h(2) by (auto simp: length_Suc_conv)
  with c h(1) have "r = (ThreadSocket 0, ThreadLoop 0)" by (auto split: if_splits)
  with c r s show ?thesis by blast
qed


definition stop_sched :: "server_task schedule" where
  "stop_sched i = [Owner, Owner, Owner, Worker, Owner, Owner]"

theorem server_stop_witness:
  "\<exists>s s' s1 s2 s3. server_run demo_platform (take 1 demo_life) single_server = Inr s
     \<and> server_step demo_platform (SvStop BaseLoop stop_sched) s = Inr s'
     \<and> being_closed 0 s' \<and> sv_closed s' 
     \<and> demo_server 1 = Inr (Some s1) \<and> server_step demo_platform (SvStop BaseLoop stop_sched) s1 = Inr s2
     \<and> sv_waiting s2 \<and> server_run demo_platform [SvStop NullLoop stop_sched] s2 = Inr s3 \<and> \<not> sv_closed s3"
proof -
  have sched: "is_schedule stop_sched" "\<forall>j. AppStop \<notin> set (stop_sched j)"
    by (simp_all add: is_schedule_def stop_sched_def)
  obtain s where s: "server_run demo_platform (take 1 demo_life) single_server = Inr s"
    and h: "sv_conns s = [name_of s 0 \<mapsto> 0]" "\<not> sv_waiting s" "tp_threads (sv_pool s) = []" "tp_thread_num (sv_pool s) = 0"
    by (simp add: server_run_eval single_server_def name_of_def)
  obtain s' where s': "server_step demo_platform (SvStop BaseLoop stop_sched) s = Inr s'"
    using h by (simp add: TCPServer_Stop_def TCPServer_StopInLoop_def Let_def close_all_frame
        EventLoopThreadPool_Stop_def EventLoopThreadPool_IsStopped_def)
  have en: "server_enabled (SvStop BaseLoop stop_sched) s" using h sched by simp
  have ord: "set (pf_order demo_platform (sv_conns s)) = ran (sv_conns s)"
    by (simp add: h(1) demo_platform_def)
  from server_stop [OF echo_server_app demo_platform_ok single_server_reachable [OF s] en ord s'] h
  have a: "being_closed 0 s' \<and> sv_closed s'" by simp
  obtain s1 where s1: "demo_server 1 = Inr (Some s1)" and k: "\<not> sv_waiting s1" "sv_conns s1 = Map.empty"
    "tp_threads (sv_pool s1) \<noteq> []"
    and q: "\<forall>t \<in> set (tp_threads (sv_pool s1)). \<not> ts_app_stop t"
    and "\<exists>s2. server_step demo_platform (SvStop BaseLoop stop_sched) s1 = Inr s2"
    by (simp add: server_eval TCPServer_Stop_def TCPServer_StopInLoop_def Let_def
        EventLoopThreadPool_Stop_def pool_at_def stop_sched_def)
  then obtain s2 where s2: "server_step demo_platform (SvStop BaseLoop stop_sched) s1 = Inr s2" by blast
  have en1: "server_enabled (SvStop BaseLoop stop_sched) s1" using k sched by simp
  have ord1: "set (pf_order demo_platform (sv_conns s1)) = ran (sv_conns s1)"
    by (simp add: k demo_platform_def)
  note b = server_stop [OF echo_server_app demo_platform_ok demo_server_reachable [OF s1 q] en1 ord1 s2]
  have "\<exists>s3. server_run demo_platform [SvStop NullLoop stop_sched] s2 = Inr s3"
    using sched by (simp add: TCPServer_Stop_def)
  with b k(3) s s' a s1 s2 show ?thesis by blast
qed

end
