(* ===== verification/Packet.thy ===== *)
theory Packet
  imports Client_Properties Server_Properties
begin

text \<open>
  The packets of \<open>examples/tcp_cereal_packet/packet\<close> and their serialization through
  \<open>src/serialize.h\<close>.

  cereal is not part of the repository. It is the record \<open>archive\<close>: how it writes and reads an
  integer of 32 or 64 bits, a string, and the header of a polymorphic pointer (the class, or null);
  what the code relies on is \<open>archive_ok\<close>: reading back what was written, ending where it ended;
  an exception when the input ends too early; and a header whose first byte is one, which is
  what the receivers test for. The order of the fields is that of the classes' \<open>serialize\<close>
  members.

  A default constructor that leaves a field uninitialised takes what the memory held.
\<close>

section \<open>Packet types\<close>

definition OPERATE_SUCCESS :: uint16 where "OPERATE_SUCCESS = 0"
definition OPERATE_FAILED :: uint16 where "OPERATE_FAILED = - 1"
definition PACKET_KEEPALIVE :: uint32 where "PACKET_KEEPALIVE = 0x00000001"
definition PACKET_KEEPALIVE_ACK :: uint32 where "PACKET_KEEPALIVE_ACK = 0x80000001"
definition PACKET_LOGIN :: uint32 where "PACKET_LOGIN = 0x00000002"
definition PACKET_LOGIN_ACK :: uint32 where "PACKET_LOGIN_ACK = 0x80000002"

lemmas packet_types = PACKET_KEEPALIVE_def PACKET_KEEPALIVE_ACK_def PACKET_LOGIN_def PACKET_LOGIN_ACK_def

section \<open>Packets\<close>

record packet_head =
  ph_type :: uint32

record login_packet = packet_head +
  lg_id :: uint64
  lg_name :: string
  lg_password :: string

record login_ack_packet = packet_head +
  la_ack :: uint64

text \<open>An object of one of the four registered classes, with its dynamic class.\<close>

datatype packet =
    KeepAlive packet_head
  | KeepAliveAck packet_head
  | Login login_packet
  | LoginAck login_ack_packet

datatype packet_class = KeepAliveClass | KeepAliveAckClass | LoginClass | LoginAckClass

fun class_of :: "packet \<Rightarrow> packet_class" where
  "class_of (KeepAlive h) = KeepAliveClass"
| "class_of (KeepAliveAck h) = KeepAliveAckClass"
| "class_of (Login l) = LoginClass"
| "class_of (LoginAck a) = LoginAckClass"

definition PacketHead_new :: "uint32 \<Rightarrow> packet_head" where
  "PacketHead_new t = \<lparr>ph_type = t\<rparr>"

fun Type :: "packet \<Rightarrow> uint32" where
  "Type (KeepAlive h) = ph_type h"
| "Type (KeepAliveAck h) = ph_type h"
| "Type (Login l) = ph_type l"
| "Type (LoginAck a) = ph_type a"

fun set_Type :: "uint32 \<Rightarrow> packet \<Rightarrow> packet" where
  "set_Type t (KeepAlive h) = KeepAlive (h\<lparr>ph_type := t\<rparr>)"
| "set_Type t (KeepAliveAck h) = KeepAliveAck (h\<lparr>ph_type := t\<rparr>)"
| "set_Type t (Login l) = Login (l\<lparr>ph_type := t\<rparr>)"
| "set_Type t (LoginAck a) = LoginAck (a\<lparr>ph_type := t\<rparr>)"

definition KeepAlive_new :: packet where
  "KeepAlive_new = KeepAlive (PacketHead_new PACKET_KEEPALIVE)"

definition KeepAliveAck_new :: packet where
  "KeepAliveAck_new = KeepAliveAck (PacketHead_new PACKET_KEEPALIVE_ACK)"

definition Login_default :: "uint64 \<Rightarrow> login_packet" where
  "Login_default memory = \<lparr>ph_type = PACKET_LOGIN, lg_id = memory, lg_name = [], lg_password = []\<rparr>"

definition Login_new :: "uint64 \<Rightarrow> string \<Rightarrow> string \<Rightarrow> login_packet" where
  "Login_new i name password = \<lparr>ph_type = PACKET_LOGIN, lg_id = i, lg_name = name, lg_password = password\<rparr>"

definition Login_Id :: "login_packet \<Rightarrow> uint64" where "Login_Id l = lg_id l"
definition Login_set_Id :: "uint64 \<Rightarrow> login_packet \<Rightarrow> login_packet" where "Login_set_Id i l = l\<lparr>lg_id := i\<rparr>"
definition Login_Name :: "login_packet \<Rightarrow> string" where "Login_Name l = lg_name l"
definition Login_set_Name :: "string \<Rightarrow> login_packet \<Rightarrow> login_packet" where "Login_set_Name n l = l\<lparr>lg_name := n\<rparr>"
definition Login_PassWord :: "login_packet \<Rightarrow> string" where "Login_PassWord l = lg_password l"
definition Login_set_PassWord :: "string \<Rightarrow> login_packet \<Rightarrow> login_packet" where
  "Login_set_PassWord p l = l\<lparr>lg_password := p\<rparr>"

definition LoginAck_default :: "uint64 \<Rightarrow> login_ack_packet" where
  "LoginAck_default memory = \<lparr>ph_type = PACKET_LOGIN_ACK, la_ack = memory\<rparr>"

definition LoginAck_new :: "uint64 \<Rightarrow> login_ack_packet" where
  "LoginAck_new a = \<lparr>ph_type = PACKET_LOGIN_ACK, la_ack = a\<rparr>"

definition Ack :: "login_ack_packet \<Rightarrow> uint64" where "Ack p = la_ack p"
definition set_Ack :: "uint64 \<Rightarrow> login_ack_packet \<Rightarrow> login_ack_packet" where "set_Ack a p = p\<lparr>la_ack := a\<rparr>"

section \<open>Archives\<close>

type_synonym 'a reader = "byte list \<Rightarrow> ('a \<times> byte list) res"
type_synonym 'a writer = "'a \<Rightarrow> byte list"

record archive =
  ar_u32 :: "uint32 writer"
  ar_u64 :: "uint64 writer"
  ar_string :: "string writer"
  ar_header :: "packet_class option writer"
  rd_u32 :: "uint32 reader"
  rd_u64 :: "uint64 reader"
  rd_string :: "string reader"
  rd_header :: "packet_class option reader"

text \<open>A reader that reads \<open>x\<close> from the bytes \<open>bs\<close>, and from no fewer.\<close>

definition reads_as :: "'a reader \<Rightarrow> byte list \<Rightarrow> 'a \<Rightarrow> bool" where
  "reads_as rd bs x \<longleftrightarrow> (\<forall>r. rd (bs @ r) = Inr (x, r))
     \<and> (\<forall>n < length bs. rd (take n bs) = Inl ArchiveError)"

definition codec :: "'a reader \<Rightarrow> 'a writer \<Rightarrow> bool" where
  "codec rd wr \<longleftrightarrow> (\<forall>x. reads_as rd (wr x) x)"

definition archive_ok :: "archive \<Rightarrow> bool" where
  "archive_ok ar \<longleftrightarrow> codec (rd_u32 ar) (ar_u32 ar) \<and> codec (rd_u64 ar) (ar_u64 ar)
     \<and> codec (rd_string ar) (ar_string ar) \<and> codec (rd_header ar) (ar_header ar)
     \<and> (\<forall>k. \<exists>bs. ar_header ar (Some k) = 1 # bs)"

section \<open>The \<open>serialize\<close> members\<close>

text \<open>One after another: \<open>archive(a, b)\<close>.\<close>

definition read_then :: "'a reader \<Rightarrow> ('a \<Rightarrow> 'b reader) \<Rightarrow> 'b reader" where
  "read_then rd f s = rbind (rd s) (\<lambda>(x, r). f x r)"

definition read_done :: "'a \<Rightarrow> 'a reader" where
  "read_done x r = Inr (x, r)"

definition save_head :: "archive \<Rightarrow> packet_head writer" where
  "save_head ar h = ar_u32 ar (ph_type h)"

definition load_head :: "archive \<Rightarrow> packet_head reader" where
  "load_head ar = read_then (rd_u32 ar) (\<lambda>t. read_done \<lparr>ph_type = t\<rparr>)"

definition save_login :: "archive \<Rightarrow> login_packet writer" where
  "save_login ar l = save_head ar (packet_head.truncate l) @ ar_u64 ar (lg_id l) @ ar_string ar (lg_name l)
     @ ar_string ar (lg_password l)"

definition load_login :: "archive \<Rightarrow> login_packet reader" where
  "load_login ar = read_then (load_head ar) (\<lambda>h. read_then (rd_u64 ar) (\<lambda>i.
     read_then (rd_string ar) (\<lambda>n. read_then (rd_string ar) (\<lambda>p.
     read_done \<lparr>ph_type = ph_type h, lg_id = i, lg_name = n, lg_password = p\<rparr>))))"

definition save_login_ack :: "archive \<Rightarrow> login_ack_packet writer" where
  "save_login_ack ar a = save_head ar (packet_head.truncate a) @ ar_u64 ar (la_ack a)"

definition load_login_ack :: "archive \<Rightarrow> login_ack_packet reader" where
  "load_login_ack ar = read_then (load_head ar) (\<lambda>h. read_then (rd_u64 ar) (\<lambda>a.
     read_done \<lparr>ph_type = ph_type h, la_ack = a\<rparr>))"

definition save_keepalive :: "archive \<Rightarrow> packet_head writer" where
  "save_keepalive ar h = save_head ar h"

definition load_keepalive :: "archive \<Rightarrow> packet_head reader" where
  "load_keepalive ar = load_head ar"

definition save_keepalive_ack :: "archive \<Rightarrow> packet_head writer" where
  "save_keepalive_ack ar h = save_head ar h"

definition load_keepalive_ack :: "archive \<Rightarrow> packet_head reader" where
  "load_keepalive_ack ar = load_head ar"

fun save_packet :: "archive \<Rightarrow> packet writer" where
  "save_packet ar (KeepAlive h) = save_keepalive ar h"
| "save_packet ar (KeepAliveAck h) = save_keepalive_ack ar h"
| "save_packet ar (Login l) = save_login ar l"
| "save_packet ar (LoginAck a) = save_login_ack ar a"

fun load_packet :: "archive \<Rightarrow> packet_class \<Rightarrow> packet reader" where
  "load_packet ar KeepAliveClass = read_then (load_keepalive ar) (\<lambda>h. read_done (KeepAlive h))"
| "load_packet ar KeepAliveAckClass = read_then (load_keepalive_ack ar) (\<lambda>h. read_done (KeepAliveAck h))"
| "load_packet ar LoginClass = read_then (load_login ar) (\<lambda>l. read_done (Login l))"
| "load_packet ar LoginAckClass = read_then (load_login_ack ar) (\<lambda>a. read_done (LoginAck a))"

section \<open>\<open>serialize.h\<close>\<close>

text \<open>A \<open>std::shared_ptr\<close> to a packet is written with its header, a null one is only that.\<close>

definition cereal_serialize :: "archive \<Rightarrow> packet option writer" where
  "cereal_serialize ar t =
     ar_header ar (map_option class_of t) @ (case t of None \<Rightarrow> [] | Some p \<Rightarrow> save_packet ar p)"

definition cereal_deserialize :: "'a reader \<Rightarrow> byte list \<Rightarrow> 'a res" where
  "cereal_deserialize iarchive s = rbind (iarchive s) (\<lambda>(d, r). Inr d)"

definition read_pointer :: "archive \<Rightarrow> packet option reader" where
  "read_pointer ar = read_then (rd_header ar) (\<lambda>k.
     case k of None \<Rightarrow> read_done None
     | Some k \<Rightarrow> read_then (load_packet ar k) (\<lambda>p. read_done (Some p)))"

definition cereal_deserialize_ptr :: "archive \<Rightarrow> byte list \<Rightarrow> packet option res" where
  "cereal_deserialize_ptr ar s = rbind (read_pointer ar s) (\<lambda>(d, r). Inr d)"

section \<open>Readers compose\<close>

lemma reads_then:
  assumes a: "reads_as rd bs x" and b: "reads_as (f x) cs y"
  shows "reads_as (read_then rd f) (bs @ cs) y"
  unfolding reads_as_def
proof (intro conjI allI impI)
  fix r
  show "read_then rd f ((bs @ cs) @ r) = Inr (y, r)"
    using a b by (simp add: reads_as_def read_then_def)
next
  fix n
  assume n: "n < length (bs @ cs)"
  show "read_then rd f (take n (bs @ cs)) = Inl ArchiveError"
    using a b n by (cases "n < length bs") (simp_all add: reads_as_def read_then_def)
qed

lemma reads_done: "reads_as (read_done x) [] x"
  by (simp add: reads_as_def read_done_def)

lemma reads_codec: "codec rd wr \<Longrightarrow> reads_as rd (wr x) x"
  by (simp add: codec_def)

lemma reads_map:
  "reads_as rd bs x \<Longrightarrow> y = g x \<Longrightarrow> reads_as (read_then rd (\<lambda>x. read_done (g x))) bs y"
  using reads_then [of rd bs x "\<lambda>x. read_done (g x)" "[]" "g x", OF _ reads_done] by simp

lemma reads_primitives:
  assumes "archive_ok ar"
  shows "reads_as (rd_u32 ar) (ar_u32 ar t) t" "reads_as (rd_u64 ar) (ar_u64 ar i) i"
    "reads_as (rd_string ar) (ar_string ar n) n" "reads_as (rd_header ar) (ar_header ar k) k"
  using assms by (simp_all add: archive_ok_def codec_def)

lemma reads_head: "archive_ok ar \<Longrightarrow> reads_as (load_head ar) (save_head ar h) h"
  unfolding load_head_def save_head_def by (rule reads_map [OF reads_primitives(1)]) simp_all

lemma reads_login:
  assumes ok: "archive_ok ar"
  shows "reads_as (load_login ar) (save_login ar l) l"
proof -
  note prim = reads_primitives [OF ok]
  have "reads_as (load_login ar) (save_head ar (packet_head.truncate l) @ ar_u64 ar (lg_id l)
      @ ar_string ar (lg_name l) @ ar_string ar (lg_password l)) l"
    unfolding load_login_def
    by (intro reads_then [OF reads_head [OF ok]] reads_then [OF prim(2)] reads_then [OF prim(3)]
        reads_map [OF prim(3)]) (simp add: packet_head.truncate_def)
  then show ?thesis by (simp add: save_login_def)
qed

lemma reads_login_ack:
  assumes ok: "archive_ok ar"
  shows "reads_as (load_login_ack ar) (save_login_ack ar a) a"
  unfolding load_login_ack_def save_login_ack_def
  by (intro reads_then [OF reads_head [OF ok]] reads_map [OF reads_primitives(2) [OF ok]])
    (simp add: packet_head.truncate_def)

lemma reads_packet:
  assumes ok: "archive_ok ar"
  shows "reads_as (load_packet ar (class_of p)) (save_packet ar p) p"
  by (cases p)
    (auto simp: save_keepalive_def load_keepalive_def save_keepalive_ack_def load_keepalive_ack_def
      intro: reads_map reads_head [OF ok] reads_login [OF ok] reads_login_ack [OF ok])

lemma reads_pointer:
  assumes ok: "archive_ok ar"
  shows "reads_as (read_pointer ar) (cereal_serialize ar t) t"
proof (cases t)
  case None
  have "reads_as (read_pointer ar) (ar_header ar None @ []) None"
    unfolding read_pointer_def by (rule reads_then [OF reads_primitives(4) [OF ok]]) (simp add: reads_done)
  with None show ?thesis by (simp add: cereal_serialize_def)
next
  case (Some p)
  have "reads_as (read_pointer ar) (ar_header ar (Some (class_of p)) @ save_packet ar p) (Some p)"
    unfolding read_pointer_def
    by (rule reads_then [OF reads_primitives(4) [OF ok]]) (simp add: reads_map [OF reads_packet [OF ok]])
  with Some show ?thesis by (simp add: cereal_serialize_def)
qed

lemma deserialize_prefix:
  "archive_ok ar \<Longrightarrow> cereal_deserialize_ptr ar (cereal_serialize ar t @ r) = Inr t"
  using reads_pointer [of ar t] by (simp add: cereal_deserialize_ptr_def reads_as_def)

lemma deserialize_truncated:
  "archive_ok ar \<Longrightarrow> n < length (cereal_serialize ar t) \<Longrightarrow>
   cereal_deserialize_ptr ar (take n (cereal_serialize ar t)) = Inl ArchiveError"
  using reads_pointer [of ar t] by (simp add: cereal_deserialize_ptr_def reads_as_def)

lemma serialize_first: "archive_ok ar \<Longrightarrow> \<exists>bs. cereal_serialize ar (Some p) = 1 # bs"
  by (simp add: archive_ok_def cereal_serialize_def) (metis append_Cons)

end
