(* ===== verification/Packet_Apps.thy ===== *)
theory Packet_Apps
  imports Packet
begin

text \<open>
  The packet layer over a connection, \<open>src/tcp_server_impl.h\<close> and \<open>src/tcp_client_impl.h\<close>, and
  the two programs of \<open>examples/tcp_cereal_packet\<close> built on it, \<open>SimpleServer\<close> and
  \<open>SimpleClient\<close>, as callbacks of a connection.

  What the programs log is a list. The client's members \<open>is_login_\<close>, \<open>conn_\<close> (here: whether it
  is set) and the keep-alive timer are in the environment of its connection and pass to the next
  connection when the client reconnects. Of the timer we keep how many waits are armed and how
  many have ended with their handler still to run; setting a new expiry time ends the armed
  waits (with an error code that \<open>DoKeepAlve\<close>, bound without it, never sees).
\<close>

section \<open>Packets over a connection\<close>

text \<open>\<open>OnRecvData_\<close>: everything in the buffer is taken for one packet.\<close>

definition TcpServerImpl_OnRecvData :: "archive \<Rightarrow> (packet option \<Rightarrow> 'w conn_fun) \<Rightarrow> 'w conn_fun" where
  "TcpServerImpl_OnRecvData ar on_recv c =
     (let buffer = tc_recv_buffer c in
      rbind (mem_read (unat (Data buffer)) (unat (Size buffer)) (bb_storage buffer)) (\<lambda>ss.
      rbind (Normalize (ReadBytes (Size buffer) buffer)) (\<lambda>b.
      let c1 = c\<lparr>tc_recv_buffer := b\<rparr>
      in if (case ss of [] \<Rightarrow> 0 | x # _ \<Rightarrow> x) \<noteq> 1 then Inr c1
         else rbind (cereal_deserialize_ptr ar ss) (\<lambda>p. on_recv p c1))))"

definition TcpClientImpl_OnRecvData :: "archive \<Rightarrow> (packet option \<Rightarrow> 'w conn_fun) \<Rightarrow> 'w conn_fun" where
  "TcpClientImpl_OnRecvData ar on_recv c =
     (let buffer = tc_recv_buffer c in
      rbind (mem_read (unat (Data buffer)) (unat (Size buffer)) (bb_storage buffer)) (\<lambda>ss.
      rbind (Normalize (ReadBytes (Size buffer) buffer)) (\<lambda>b.
      let c1 = c\<lparr>tc_recv_buffer := b\<rparr>
      in if (case ss of [] \<Rightarrow> 0 | x # _ \<Rightarrow> x) \<noteq> 1 then Inr c1
         else rbind (cereal_deserialize_ptr ar ss) (\<lambda>p. on_recv p c1))))"

text \<open>\<open>OnConnect_\<close> forwards.\<close>

definition TcpServerImpl_OnConnect :: "'w conn_fun \<Rightarrow> 'w conn_fun" where
  "TcpServerImpl_OnConnect on_connect c = on_connect c"

definition TcpClientImpl_OnConnect :: "'w conn_fun \<Rightarrow> 'w conn_fun" where
  "TcpClientImpl_OnConnect on_connect c = on_connect c"

definition TcpServerImpl_SendPkt :: "archive \<Rightarrow> packet option \<Rightarrow> 'w conn_fun" where
  "TcpServerImpl_SendPkt ar p c = Send no_callbacks True (cereal_serialize ar p) c"

definition TcpClientImpl_SendPkt :: "archive \<Rightarrow> packet option \<Rightarrow> 'w conn_fun" where
  "TcpClientImpl_SendPkt ar p c = Send no_callbacks True (cereal_serialize ar p) c"

text \<open>The constructors. The server's starts it; the client's connects before it sets the callbacks.\<close>

definition TcpServerImpl_new :: "platform \<Rightarrow> server_task schedule \<Rightarrow> bool \<Rightarrow> bool \<Rightarrow> string \<Rightarrow> uint32
    \<Rightarrow> 'm owner_env_scheme \<Rightarrow> 'm owner_env_scheme conn_fun \<Rightarrow> 'm owner_env_scheme conn_fun
    \<Rightarrow> 'm tcp_server option res" where
  "TcpServerImpl_new pf sched bind_ok running name n env on_connect on_message =
     rbind (TCPServer_new bind_ok running name n env) (\<lambda>s.
     let s1 = SetConnectionCallback (Some (TcpServerImpl_OnConnect on_connect)) s;
         s2 = TCPServer_SetMessageCallback (Some on_message) s1
     in if TCPServer_Init s2 then TCPServer_Start pf sched s2 else TCPServer_Start pf sched s2)"

definition TcpClientImpl_new :: "resolver \<Rightarrow> string \<Rightarrow> uint16 \<Rightarrow> string
    \<Rightarrow> 'm owner_env_scheme \<Rightarrow> 'm owner_env_scheme conn_fun \<Rightarrow> 'm owner_env_scheme conn_fun
    \<Rightarrow> 'm tcp_client res" where
  "TcpClientImpl_new rs addr port name env on_connect on_message =
     rbind (TCPClient_Connect rs (TCPClient_new addr port name env)) (\<lambda>s.
     Inr (client_SetMessageCallback (Some on_message)
           (client_SetConnCallback (Some (TcpClientImpl_OnConnect on_connect))
             (SetAutoReconnect True s))))"

text \<open>What they tell of themselves. The client's own copies of address and port are those it made its client with.\<close>

definition TcpServerImpl_Address :: "endpoint \<Rightarrow> 'm tcp_server \<Rightarrow> string res" where
  "TcpServerImpl_Address ep s = TCPServer_Address ep s"

definition TcpClientImpl_GetRemoteAddress :: "'m tcp_client \<Rightarrow> string" where
  "TcpClientImpl_GetRemoteAddress s = RemoteAddress s"

definition TcpClientImpl_GetPort :: "'m tcp_client \<Rightarrow> uint16" where
  "TcpClientImpl_GetPort s = RemotePort s"

section \<open>The server program\<close>

datatype packet_log =
    LogConnected string
  | LogDisconnected string
  | LogType uint32
  | LogLogin string string
  | LogKeepAliveAck
  | LogLoginAck uint64
  | LogLoginSuccess
  | LogLoginFailed uint64

record packet_env = owner_env +
  pk_log :: "packet_log list"

definition log :: "packet_log \<Rightarrow> 'm packet_env_scheme tcpconn \<Rightarrow> 'm packet_env_scheme tcpconn" where
  "log x c = c\<lparr>tc_env := (tc_env c)\<lparr>pk_log := pk_log (tc_env c) @ [x]\<rparr>\<rparr>"

definition SimpleServer_OnKeepAlive :: "archive \<Rightarrow> 'm packet_env_scheme conn_fun" where
  "SimpleServer_OnKeepAlive ar c = TcpServerImpl_SendPkt ar (Some KeepAliveAck_new) c"

text \<open>
  \<open>static_pointer_cast<Login>\<close> of another class: its members lie outside the object.
  \<open>memory\<close> is what the field of a default-constructed packet held.
\<close>

definition SimpleServer_OnLogin :: "archive \<Rightarrow> uint64 \<Rightarrow> packet \<Rightarrow> 'm packet_env_scheme conn_fun" where
  "SimpleServer_OnLogin ar memory p c =
     (case p of
        Login l \<Rightarrow>
          TcpServerImpl_SendPkt ar (Some (LoginAck (set_Ack (ucast OPERATE_SUCCESS) (LoginAck_default memory))))
            (log (LogLogin (Login_Name l) (Login_PassWord l)) c)
      | _ \<Rightarrow> Inl OutOfBounds)"

definition SimpleServer_OnConnect :: "'m packet_env_scheme conn_fun" where
  "SimpleServer_OnConnect c =
     (if IsConnected c then Inr (log (LogConnected (tc_name c)) c)
      else if IsDisconnecting c then Inr (log (LogDisconnected (tc_name c)) c)
      else Inr c)"

definition SimpleServer_OnRecvData :: "archive \<Rightarrow> uint64 \<Rightarrow> packet option \<Rightarrow> 'm packet_env_scheme conn_fun" where
  "SimpleServer_OnRecvData ar memory pPkt c =
     (case pPkt of
        None \<Rightarrow> Inr c
      | Some p \<Rightarrow>
          (let c1 = log (LogType (Type p)) c
           in if Type p = PACKET_KEEPALIVE then SimpleServer_OnKeepAlive ar c1
              else if Type p = PACKET_LOGIN then SimpleServer_OnLogin ar memory p c1
              else Inr c1))"

definition SimpleServer_new :: "platform \<Rightarrow> server_task schedule \<Rightarrow> bool \<Rightarrow> bool \<Rightarrow> string \<Rightarrow> uint32
    \<Rightarrow> archive \<Rightarrow> uint64 \<Rightarrow> 'm packet_env_scheme \<Rightarrow> 'm packet_env_ext tcp_server option res" where
  "SimpleServer_new pf sched bind_ok running name n ar memory env =
     TcpServerImpl_new pf sched bind_ok running name n env SimpleServer_OnConnect
       (TcpServerImpl_OnRecvData ar (SimpleServer_OnRecvData ar memory))"

section \<open>The client program\<close>

record simple_env = packet_env +
  sm_is_login :: bool
  sm_conn :: bool
  sm_armed :: nat
  sm_ended :: nat

definition expires :: "'m simple_env_scheme \<Rightarrow> 'm simple_env_scheme" where
  "expires e = e\<lparr>sm_ended := sm_ended e + sm_armed e, sm_armed := 0\<rparr>"

definition async_wait :: "'m simple_env_scheme \<Rightarrow> 'm simple_env_scheme" where
  "async_wait e = e\<lparr>sm_armed := Suc (sm_armed e)\<rparr>"

definition with_env :: "('w \<Rightarrow> 'w) \<Rightarrow> 'w tcpconn \<Rightarrow> 'w tcpconn" where
  "with_env f c = c\<lparr>tc_env := f (tc_env c)\<rparr>"

text \<open>\<open>SendPkt\<close>; the message it logs for a null \<open>conn_\<close> calls a member of \<open>*conn_\<close>.\<close>

definition SimpleClient_SendPkt :: "archive \<Rightarrow> packet \<Rightarrow> 'm simple_env_scheme tcpconn
    \<Rightarrow> (bool \<times> 'm simple_env_scheme tcpconn) res" where
  "SimpleClient_SendPkt ar p c =
     (if \<not> sm_conn (tc_env c) then Inl NullDeref
      else rbind (TcpClientImpl_SendPkt ar (Some p) c) (\<lambda>c. Inr (True, c)))"

definition DoKeepAlve :: "archive \<Rightarrow> 'm simple_env_scheme tcpconn \<Rightarrow> (bool \<times> 'm simple_env_scheme tcpconn) res" where
  "DoKeepAlve ar c =
     (if \<not> sm_is_login (tc_env c) then Inr (False, c)
      else SimpleClient_SendPkt ar KeepAlive_new (with_env (\<lambda>e. async_wait (expires e)) c))"

definition OnKeepAliveAck :: "'m simple_env_scheme conn_fun" where
  "OnKeepAliveAck c = Inr (log LogKeepAliveAck c)"

definition OnLoginAck :: "packet \<Rightarrow> 'm simple_env_scheme conn_fun" where
  "OnLoginAck p c =
     (case p of
        LoginAck a \<Rightarrow>
          (let c1 = log (LogLoginAck (Ack a)) c
           in if Ack a = 0
              then Inr (with_env (\<lambda>e. async_wait (expires (e\<lparr>sm_is_login := True\<rparr>))) (log LogLoginSuccess c1))
              else Inr (log (LogLoginFailed (Ack a)) (with_env (\<lambda>e. e\<lparr>sm_is_login := False\<rparr>) c1)))
      | _ \<Rightarrow> Inl OutOfBounds)"

definition SimpleClient_OnConnect :: "archive \<Rightarrow> uint64 \<Rightarrow> 'm simple_env_scheme conn_fun" where
  "SimpleClient_OnConnect ar memory c =
     (if IsConnected c
      then let c1 = with_env (\<lambda>e. e\<lparr>sm_conn := True\<rparr>) (log (LogConnected (tc_name c)) c);
               p = Login_set_PassWord ''abc#123'' (Login_set_Name ''test'' (Login_default memory))
           in rbind (SimpleClient_SendPkt ar (Login p) c1) (\<lambda>(_, c). Inr c)
      else if IsDisconnecting c
      then Inr (with_env (\<lambda>e. e\<lparr>sm_is_login := False\<rparr>) (log (LogDisconnected (tc_name c)) c))
      else Inr c)"

definition SimpleClient_OnRecvData :: "packet option \<Rightarrow> 'm simple_env_scheme conn_fun" where
  "SimpleClient_OnRecvData pPkt c =
     (case pPkt of
        None \<Rightarrow> Inl NullDeref
      | Some p \<Rightarrow>
          (let c1 = log (LogType (Type p)) c
           in if Type p = PACKET_KEEPALIVE_ACK then OnKeepAliveAck c1
              else if Type p = PACKET_LOGIN_ACK then OnLoginAck p c1
              else Inr c1))"

definition SimpleClient_new :: "resolver \<Rightarrow> string \<Rightarrow> uint16 \<Rightarrow> string \<Rightarrow> archive \<Rightarrow> uint64
    \<Rightarrow> 'm simple_env_scheme \<Rightarrow> 'm simple_env_ext packet_env_ext tcp_client res" where
  "SimpleClient_new rs addr port name ar memory env =
     TcpClientImpl_new rs addr port name (env\<lparr>sm_is_login := False, sm_conn := False, sm_armed := 0, sm_ended := 0\<rparr>)
       (SimpleClient_OnConnect ar memory)
       (TcpClientImpl_OnRecvData ar SimpleClient_OnRecvData)"

text \<open>The callbacks of the two programs' connections.\<close>

definition simple_server_cbs :: "archive \<Rightarrow> uint64 \<Rightarrow> 'm packet_env_scheme conn_callbacks" where
  "simple_server_cbs ar memory = owner_cbs (Some (TcpServerImpl_OnConnect SimpleServer_OnConnect))
     (Some (TcpServerImpl_OnRecvData ar (SimpleServer_OnRecvData ar memory))) owner_close_fn"

definition simple_client_cbs :: "archive \<Rightarrow> uint64 \<Rightarrow> 'm simple_env_scheme conn_callbacks" where
  "simple_client_cbs ar memory = owner_cbs (Some (TcpClientImpl_OnConnect (SimpleClient_OnConnect ar memory)))
     (Some (TcpClientImpl_OnRecvData ar SimpleClient_OnRecvData)) owner_close_fn"

section \<open>The client at work\<close>

datatype simple_event =
    SmConn conn_event              \<comment> \<open>an event of the connection\<close>
  | SmTime                         \<comment> \<open>the expiry time of the timer is reached\<close>
  | SmHandler                      \<comment> \<open>the handler of an ended wait runs\<close>
  | SmReconnect asio_socket        \<comment> \<open>the connection is replaced by a new one\<close>

abbreviation sm_env :: "'m simple_env_scheme conn_sys \<Rightarrow> 'm simple_env_scheme" where
  "sm_env s \<equiv> tc_env (cs_conn s)"

fun simple_enabled :: "simple_event \<Rightarrow> 'm simple_env_scheme conn_sys \<Rightarrow> bool" where
  "simple_enabled (SmConn ev) s = enabled ev s"
| "simple_enabled SmTime s = (0 < sm_armed (sm_env s))"
| "simple_enabled SmHandler s = (0 < sm_ended (sm_env s))"
| "simple_enabled (SmReconnect sock) s = IsDisconnected (cs_conn s)"

fun simple_step :: "archive \<Rightarrow> uint64 \<Rightarrow> simple_event \<Rightarrow> 'm simple_env_scheme conn_sys
    \<Rightarrow> 'm simple_env_scheme conn_sys res" where
  "simple_step ar memory (SmConn ev) s = conn_step (simple_client_cbs ar memory) ev s"
| "simple_step ar memory SmTime s = Inr (s\<lparr>cs_conn := with_env expires (cs_conn s)\<rparr>)"
| "simple_step ar memory SmHandler s =
     rbind (DoKeepAlve ar (with_env (\<lambda>e. e\<lparr>sm_ended := sm_ended e - 1\<rparr>) (cs_conn s)))
       (\<lambda>(_, c). Inr (s\<lparr>cs_conn := c\<rparr>))"
| "simple_step ar memory (SmReconnect sock) s =
     rbind (TCPConn_new (tc_loop (cs_conn s)) sock (tc_name (cs_conn s)) (sm_env s)) (\<lambda>c.
     conn_step (simple_client_cbs ar memory) EvAttached (initial_sys (SetType kOutgoing c)))"

fun simple_run :: "archive \<Rightarrow> uint64 \<Rightarrow> simple_event list \<Rightarrow> 'm simple_env_scheme conn_sys
    \<Rightarrow> 'm simple_env_scheme conn_sys res" where
  "simple_run ar memory [] s = Inr s"
| "simple_run ar memory (ev # evs) s =
     (if simple_enabled ev s then rbind (simple_step ar memory ev s) (simple_run ar memory evs)
      else Inl AssertFailed)"

end
