(* ===== verification/Packet_Properties.thy ===== *)
theory Packet_Properties
  imports Packet_Apps
begin

text \<open>
  The properties of the packet layer and of its two programs: what goes through in one piece
  comes out, what does not is lost or throws, the login handshake, and the keep-alive timer.
\<close>

section \<open>An archive\<close>

text \<open>
  One archive that fulfils \<open>archive_ok\<close>: numbers in binary, each digit, each character and each class after a
  mark.
\<close>

fun mark_nat :: "nat \<Rightarrow> byte list" where
  "mark_nat n = (if n = 0 then [0] else (if even n then 1 else 2) # mark_nat (n div 2))"

declare mark_nat.simps [simp del]

fun read_nat :: "nat reader" where
  "read_nat [] = Inl ArchiveError"
| "read_nat (b # bs) = (if b = 0 then Inr (0, bs) else rbind (read_nat bs) (\<lambda>(n, r). Inr (2 * n + (if b = 1 then 0 else 1), r)))"

fun mark_string :: "string \<Rightarrow> byte list" where
  "mark_string [] = [0]"
| "mark_string (c # cs) = 1 # of_nat (of_char c) # mark_string cs"

fun read_string :: "string reader" where
  "read_string (b # bs) = (if b = 0 then Inr ([], bs)
     else case bs of [] \<Rightarrow> Inl ArchiveError
          | x # xs \<Rightarrow> rbind (read_string xs) (\<lambda>(s, r). Inr (char_of (unat x) # s, r)))"
| "read_string [] = Inl ArchiveError"

fun mark_header :: "packet_class option \<Rightarrow> byte list" where
  "mark_header None = [0]"
| "mark_header (Some KeepAliveClass) = [1, 0]"
| "mark_header (Some KeepAliveAckClass) = [1, 1]"
| "mark_header (Some LoginClass) = [1, 2]"
| "mark_header (Some LoginAckClass) = [1, 3]"

fun read_header :: "packet_class option reader" where
  "read_header (b # bs) = (if b = 0 then Inr (None, bs)
     else case bs of [] \<Rightarrow> Inl ArchiveError
          | x # xs \<Rightarrow> Inr (Some (if x = 0 then KeepAliveClass else if x = 1 then KeepAliveAckClass
                            else if x = 2 then LoginClass else LoginAckClass), xs))"
| "read_header [] = Inl ArchiveError"

definition marked_archive :: archive where
  "marked_archive = \<lparr>ar_u32 = (\<lambda>x. mark_nat (unat x)), ar_u64 = (\<lambda>x. mark_nat (unat x)),
     ar_string = mark_string, ar_header = mark_header,
     rd_u32 = read_then read_nat (\<lambda>n. read_done (of_nat n)),
     rd_u64 = read_then read_nat (\<lambda>n. read_done (of_nat n)),
     rd_string = read_string, rd_header = read_header\<rparr>"

lemma char_byte [simp]: "char_of (unat (of_nat (of_char c) :: byte)) = c"
proof -
  have "of_char c < (256 :: nat)" by (rule nat_of_char_less_256)
  then have "unat (of_nat (of_char c) :: byte) = of_char c" by (simp add: unat_of_nat)
  then show ?thesis by simp
qed

lemma reads_nat: "reads_as read_nat (mark_nat n) n"
  unfolding reads_as_def
proof (intro conjI allI impI)
  fix r
  show "read_nat (mark_nat n @ r) = Inr (n, r)" by (induction n rule: mark_nat.induct) (subst mark_nat.simps, auto)
next
  fix k
  assume "k < length (mark_nat n)"
  then show "read_nat (take k (mark_nat n)) = Inl ArchiveError"
  proof (induction n arbitrary: k rule: mark_nat.induct)
    case (1 n)
    then show ?case by (subst mark_nat.simps) (auto simp: mark_nat.simps [of n] take_Cons split: nat.splits if_splits)
  qed
qed

lemma reads_string: "reads_as read_string (mark_string s) s"
  unfolding reads_as_def
proof (intro conjI allI impI)
  fix r
  show "read_string (mark_string s @ r) = Inr (s, r)" by (induction s) simp_all
next
  fix k
  assume "k < length (mark_string s)"
  then show "read_string (take k (mark_string s)) = Inl ArchiveError"
    by (induction s arbitrary: k) (auto simp: take_Cons split: nat.splits)
qed

lemma reads_header: "reads_as read_header (mark_header k) k"
  by (cases k rule: mark_header.cases) (auto simp: reads_as_def take_Cons split: nat.splits)

lemma marked_archive_ok: "archive_ok marked_archive"
proof -
  have "\<exists>bs. mark_header (Some k) = 1 # bs" for k by (cases k) simp_all
  then show ?thesis
    by (auto simp: archive_ok_def marked_archive_def codec_def reads_string reads_header
        intro!: reads_map reads_nat)
qed

section \<open>Serialization\<close>



section \<open>Receiving\<close>

lemma receive_packet:
  assumes "buf_ok (tc_recv_buffer c)" and "bb_rpos (tc_recv_buffer c) = 0"
  obtains b where "buf_ok b" and "readable b = []" and "bb_rpos b = 0" and
    "TcpServerImpl_OnRecvData ar f c =
      (if (case readable (tc_recv_buffer c) of [] \<Rightarrow> 0 | x # _ \<Rightarrow> x) \<noteq> 1 then Inr (c\<lparr>tc_recv_buffer := b\<rparr>)
       else rbind (cereal_deserialize_ptr ar (readable (tc_recv_buffer c))) (\<lambda>p. f p (c\<lparr>tc_recv_buffer := b\<rparr>)))"
proof -
  let ?b = "tc_recv_buffer c"
  have m: "mem_read (unat (Data ?b)) (unat (Size ?b)) (bb_storage ?b) = Inr (readable ?b)"
    using mem_read_readable [OF assms(1) order.refl] length_readable [OF assms(1)] assms(2)
    by (simp add: Data_def ReadBegin_def)
  have "buf_ok (ReadBytes (Size ?b) ?b)" and e: "readable (ReadBytes (Size ?b) ?b) = []"
    using ReadBytes_ok [OF assms(1) order.refl] length_readable [OF assms(1)] by simp_all
  then obtain b where "Normalize (ReadBytes (Size ?b) ?b) = Inr b" "buf_ok b" "readable b = []" "bb_rpos b = 0"
    by (metis Normalize_ok)
  with that m show thesis by (simp add: TcpServerImpl_OnRecvData_def Let_def)
qed

lemma client_receives_alike: "TcpClientImpl_OnRecvData = TcpServerImpl_OnRecvData"
  by (intro ext) (simp add: TcpClientImpl_OnRecvData_def TcpServerImpl_OnRecvData_def)

lemma receive_eq:
  assumes "buf_ok (tc_recv_buffer c)" and "bb_rpos (tc_recv_buffer c) = 0"
    and "impl \<in> {TcpServerImpl_OnRecvData ar f, TcpClientImpl_OnRecvData ar f}"
  obtains b where "buf_ok b" and "readable b = []" and "bb_rpos b = 0"
    and "impl c = (if (case readable (tc_recv_buffer c) of [] \<Rightarrow> 0 | x # _ \<Rightarrow> x) \<noteq> 1
         then Inr (c\<lparr>tc_recv_buffer := b\<rparr>)
       else rbind (cereal_deserialize_ptr ar (readable (tc_recv_buffer c))) (\<lambda>p. f p (c\<lparr>tc_recv_buffer := b\<rparr>)))"
  using receive_packet [OF assms(1,2), of ar f] assms(3) by (auto simp: client_receives_alike)

lemma packet_and_more:
  assumes "archive_ok ar" and "buf_ok (tc_recv_buffer c)" and "bb_rpos (tc_recv_buffer c) = 0"
    and "impl \<in> {TcpServerImpl_OnRecvData ar f, TcpClientImpl_OnRecvData ar f}"
    and "readable (tc_recv_buffer c) = cereal_serialize ar (Some p) @ rest"
  shows "\<exists>b. buf_ok b \<and> readable b = [] \<and> bb_rpos b = 0 \<and> impl c = f (Some p) (c\<lparr>tc_recv_buffer := b\<rparr>)"
proof -
  obtain bs where "readable (tc_recv_buffer c) = 1 # bs"
    using serialize_first [OF assms(1), of p] assms(5) by auto
  moreover have "cereal_deserialize_ptr ar (readable (tc_recv_buffer c)) = Inr (Some p)"
    using deserialize_prefix [OF assms(1)] assms(5) by simp
  moreover obtain b where "buf_ok b" "readable b = []" "bb_rpos b = 0"
    and "impl c = (if (case readable (tc_recv_buffer c) of [] \<Rightarrow> 0 | x # _ \<Rightarrow> x) \<noteq> 1
         then Inr (c\<lparr>tc_recv_buffer := b\<rparr>)
       else rbind (cereal_deserialize_ptr ar (readable (tc_recv_buffer c))) (\<lambda>p. f p (c\<lparr>tc_recv_buffer := b\<rparr>)))"
    by (rule receive_eq [OF assms(2-4)])
  ultimately show ?thesis by auto
qed

lemma packet_in_one_read:
  assumes "archive_ok ar" and "buf_ok (tc_recv_buffer c)" and "bb_rpos (tc_recv_buffer c) = 0"
    and "impl \<in> {TcpServerImpl_OnRecvData ar f, TcpClientImpl_OnRecvData ar f}"
    and "readable (tc_recv_buffer c) = cereal_serialize ar (Some p)"
  shows "\<exists>b. buf_ok b \<and> readable b = [] \<and> bb_rpos b = 0 \<and> impl c = f (Some p) (c\<lparr>tc_recv_buffer := b\<rparr>)"
  using packet_and_more [OF assms(1-4), of p "[]"] assms(5) by simp

lemma packet_part:
  assumes "archive_ok ar" and "buf_ok (tc_recv_buffer c)" and "bb_rpos (tc_recv_buffer c) = 0"
    and "impl \<in> {TcpServerImpl_OnRecvData ar f, TcpClientImpl_OnRecvData ar f}"
    and "0 < n" and "n < length (cereal_serialize ar (Some p))"
    and "readable (tc_recv_buffer c) = take n (cereal_serialize ar (Some p))"
  shows "impl c = Inl ArchiveError"
proof -
  obtain bs where "cereal_serialize ar (Some p) = 1 # bs" using serialize_first [OF assms(1)] by blast
  with assms(5,7) obtain bs' where "readable (tc_recv_buffer c) = 1 # bs'" by (cases n) simp_all
  moreover have "cereal_deserialize_ptr ar (readable (tc_recv_buffer c)) = Inl ArchiveError"
    using deserialize_truncated [OF assms(1,6)] assms(7) by simp
  moreover obtain b where "buf_ok b" "readable b = []" "bb_rpos b = 0"
    and "impl c = (if (case readable (tc_recv_buffer c) of [] \<Rightarrow> 0 | x # _ \<Rightarrow> x) \<noteq> 1
         then Inr (c\<lparr>tc_recv_buffer := b\<rparr>)
       else rbind (cereal_deserialize_ptr ar (readable (tc_recv_buffer c))) (\<lambda>p. f p (c\<lparr>tc_recv_buffer := b\<rparr>)))"
    by (rule receive_eq [OF assms(2-4)])
  ultimately show ?thesis by auto
qed

text \<open>C27. One read is one packet. When the receive buffer holds exactly one serialized packet,
  the program gets that packet and the buffer is emptied. When a second packet has arrived with
  it, the program gets the first and the second is lost. When only a part of a packet has
  arrived, the handler throws. On the client as on the server.\<close>

theorem packet_per_read:
  assumes "archive_ok ar" and "buf_ok (tc_recv_buffer c)" and "bb_rpos (tc_recv_buffer c) = 0"
    and "impl \<in> {TcpServerImpl_OnRecvData ar f, TcpClientImpl_OnRecvData ar f}"
  defines "ser \<equiv> \<lambda>p. cereal_serialize ar (Some p)"
  shows "(\<forall>p others. readable (tc_recv_buffer c) = ser p @ concat (map ser others) \<longrightarrow>
      (\<exists>b. buf_ok b \<and> readable b = [] \<and> bb_rpos b = 0 \<and> impl c = f (Some p) (c\<lparr>tc_recv_buffer := b\<rparr>)))
    \<and> (\<forall>p n. 0 < n \<and> n < length (ser p) \<and> readable (tc_recv_buffer c) = take n (ser p) \<longrightarrow>
      impl c = Inl ArchiveError)"
  using packet_and_more [OF assms(1-4)] packet_part [OF assms(1-4)] unfolding ser_def by blast

text \<open>A connection whose receive buffer holds the given bytes.\<close>

definition holding :: "byte list \<Rightarrow> 'w tcpconn \<Rightarrow> 'w tcpconn" where
  "holding d c = c\<lparr>tc_recv_buffer := \<lparr>bb_wpos = of_nat (length d), bb_rpos = 0, bb_storage = d\<rparr>\<rparr>"

lemma holding_ok:
  assumes "length d < 2 ^ 60"
  shows "buf_ok (tc_recv_buffer (holding d c))" "bb_rpos (tc_recv_buffer (holding d c)) = 0"
    "readable (tc_recv_buffer (holding d c)) = d"
  using assms by (simp_all add: holding_def buf_ok_def readable_def vec_max_size_eval unat_of_size)

theorem packet_per_read_witness:
  "\<forall>c :: packet_env tcpconn. \<exists>b. readable b = [] \<and> TcpServerImpl_OnRecvData marked_archive (SimpleServer_OnRecvData marked_archive 0)
       (holding (cereal_serialize marked_archive (Some KeepAlive_new)
                 @ cereal_serialize marked_archive (Some KeepAlive_new)) c)
     = SimpleServer_OnRecvData marked_archive 0 (Some KeepAlive_new) (c\<lparr>tc_recv_buffer := b\<rparr>)
   \<and> TcpServerImpl_OnRecvData marked_archive (SimpleServer_OnRecvData marked_archive 0) (holding [1] c)
     = Inl ArchiveError"
proof
  fix c :: "packet_env tcpconn"
  let ?k = "cereal_serialize marked_archive (Some KeepAlive_new)"
  have k: "?k = [1, 0, 2, 0]"
    by (simp add: cereal_serialize_def marked_archive_def KeepAlive_new_def PacketHead_new_def
        save_keepalive_def save_head_def packet_types mark_nat.simps)
  have len: "length (?k @ ?k) < 2 ^ 60" "length [1 :: byte] < 2 ^ 60" by (simp_all add: k)
  note h = holding_ok [OF len(1), of c] and h1 = holding_ok [OF len(2), of c]
  let ?f = "SimpleServer_OnRecvData marked_archive 0"
  let ?impl = "TcpServerImpl_OnRecvData marked_archive ?f"
  have i: "?impl \<in> {?impl, TcpClientImpl_OnRecvData marked_archive ?f}" by simp
  have "readable (tc_recv_buffer (holding (?k @ ?k) c)) = ?k @ concat (map (\<lambda>p. cereal_serialize marked_archive (Some p)) [KeepAlive_new])"
    by (simp add: h)
  with packet_per_read [OF marked_archive_ok h(1,2) i] obtain b where "readable b = []"
    "?impl (holding (?k @ ?k) c) = ?f (Some KeepAlive_new) ((holding (?k @ ?k) c)\<lparr>tc_recv_buffer := b\<rparr>)"
    by blast
  moreover have "0 < (1 :: nat) \<and> 1 < length ?k \<and> readable (tc_recv_buffer (holding [1] c)) = take 1 ?k"
    by (simp add: h1 k)
  then have "?impl (holding [1] c) = Inl ArchiveError"
    using conjunct2 [OF packet_per_read [OF marked_archive_ok h1(1,2) i]] by blast
  ultimately show "\<exists>b. readable b = [] \<and> ?impl (holding (?k @ ?k) c) = ?f (Some KeepAlive_new) (c\<lparr>tc_recv_buffer := b\<rparr>)
      \<and> ?impl (holding [1] c) = Inl ArchiveError" by (auto simp: holding_def)
qed

section \<open>Sending\<close>

lemma with_env_sel [simp]:
  "tc_env (with_env f c) = f (tc_env c)" "accepted (with_env f c) = accepted c"
  "is_open (with_env f c) = is_open c" "tx_inv (with_env f c) = tx_inv c"
  "tc_status (with_env f c) = tc_status c" "tc_recv_buffer (with_env f c) = tc_recv_buffer c"
  by (simp_all add: with_env_def is_open_def tx_inv_def pending_def current_request_def)

lemma log_sel [simp]:
  "tc_env (log x c) = (tc_env c)\<lparr>pk_log := pk_log (tc_env c) @ [x]\<rparr>" "accepted (log x c) = accepted c"
  "is_open (log x c) = is_open c" "tx_inv (log x c) = tx_inv c"
  "tc_status (log x c) = tc_status c" "tc_recv_buffer (log x c) = tc_recv_buffer c"
  by (simp_all add: log_def is_open_def tx_inv_def pending_def current_request_def)

lemma recv_sel [simp]: "tx_inv (c\<lparr>tc_recv_buffer := b\<rparr>) = tx_inv c"
  by (simp add: is_open_def tx_inv_def pending_def current_request_def)

section \<open>The two programs\<close>

text \<open>Logging in. A client that has just been connected sends a login whose identifier is what
  its memory held before, as no one sets it; a server that receives a login answers with an
  acknowledgement of zero, and a client that receives that is logged in and has one wait armed. A
  packet of another class that carries the login's type makes the server read outside the
  object.\<close>

theorem login_handshake:
  fixes c :: "'m packet_env_scheme tcpconn" and d :: "'n simple_env_scheme tcpconn"
  assumes "archive_ok ar"
    and "tx_inv c" and "is_open c" and "buf_ok (tc_recv_buffer c)" and "bb_rpos (tc_recv_buffer c) = 0"
    and "ph_type l = PACKET_LOGIN" and "readable (tc_recv_buffer c) = cereal_serialize ar (Some (Login l))"
    and "length (accepted c) + length (cereal_serialize ar (Some (LoginAck (LoginAck_new 0)))) < 2 ^ 60"
    and "tx_inv d" and "is_open d" and "IsConnected d"
    and "length (accepted d) + length (cereal_serialize ar (Some (Login (Login_new m ''test'' ''abc#123'')))) < 2 ^ 60"
  shows "(\<exists>d1. SimpleClient_OnConnect ar m d = Inr d1 \<and> sm_conn (tc_env d1)
      \<and> accepted d1 = accepted d @ cereal_serialize ar (Some (Login (Login_new m ''test'' ''abc#123''))))
    \<and> (\<exists>c1. TcpServerImpl_OnRecvData ar (SimpleServer_OnRecvData ar m') c = Inr c1
      \<and> accepted c1 = accepted c @ cereal_serialize ar (Some (LoginAck (LoginAck_new 0))))
    \<and> (\<forall>d. buf_ok (tc_recv_buffer d) \<and> bb_rpos (tc_recv_buffer d) = 0
        \<and> readable (tc_recv_buffer d) = cereal_serialize ar (Some (LoginAck (LoginAck_new 0))) \<longrightarrow>
        (\<exists>d2. TcpClientImpl_OnRecvData ar SimpleClient_OnRecvData (d :: 'n simple_env_scheme tcpconn) = Inr d2
          \<and> sm_is_login (tc_env d2) \<and> sm_armed (tc_env d2) = 1))
    \<and> (\<forall>p. Type p = PACKET_LOGIN \<and> class_of p \<noteq> LoginClass \<longrightarrow>
        SimpleServer_OnRecvData ar m' (Some p) c = Inl OutOfBounds)"
proof (intro conjI, goal_cases)
  case 1
  let ?d = "with_env (\<lambda>e. e\<lparr>sm_conn := True\<rparr>) (log (LogConnected (tc_name d)) d)"
  let ?p = "Login (Login_new m ''test'' ''abc#123'')"
  have p: "Login (Login_set_PassWord ''abc#123'' (Login_set_Name ''test'' (Login_default m))) = ?p"
    by (simp add: Login_set_PassWord_def Login_set_Name_def Login_default_def Login_new_def)
  have "tx_inv ?d" "is_open ?d" "length (accepted ?d) + length (cereal_serialize ar (Some ?p)) < 2 ^ 60"
    using assms(9,10,12) by simp_all
  then obtain d1 where "Send no_callbacks True (cereal_serialize ar (Some ?p)) ?d = Inr d1"
    "accepted d1 = accepted ?d @ cereal_serialize ar (Some ?p)" "tc_env d1 = tc_env ?d"
    by (rule quiet_send)
  then show ?case
    using assms(11) by (simp add: SimpleClient_OnConnect_def SimpleClient_SendPkt_def TcpClientImpl_SendPkt_def p Let_def)
next
  case 2
  let ?f = "SimpleServer_OnRecvData ar m'"
  have "TcpServerImpl_OnRecvData ar ?f \<in> {TcpServerImpl_OnRecvData ar ?f, TcpClientImpl_OnRecvData ar ?f}" by simp
  from packet_in_one_read [OF assms(1,4,5) this assms(7)] obtain b where
    b: "TcpServerImpl_OnRecvData ar ?f c = ?f (Some (Login l)) (c\<lparr>tc_recv_buffer := b\<rparr>)" by blast
  let ?c = "log (LogLogin (Login_Name l) (Login_PassWord l)) (log (LogType (ph_type l)) (c\<lparr>tc_recv_buffer := b\<rparr>))"
  let ?p = "LoginAck (LoginAck_new 0)"
  have p: "LoginAck (set_Ack (ucast OPERATE_SUCCESS) (LoginAck_default m')) = ?p"
    by (simp add: set_Ack_def LoginAck_default_def LoginAck_new_def OPERATE_SUCCESS_def)
  have "tx_inv ?c" "is_open ?c" "length (accepted ?c) + length (cereal_serialize ar (Some ?p)) < 2 ^ 60"
    using assms(2,3,8) by simp_all
  then obtain c1 where "Send no_callbacks True (cereal_serialize ar (Some ?p)) ?c = Inr c1"
    "accepted c1 = accepted ?c @ cereal_serialize ar (Some ?p)"
    by (rule quiet_send)
  then show ?case
    using assms(6) by (simp add: b SimpleServer_OnRecvData_def SimpleServer_OnLogin_def TcpServerImpl_SendPkt_def
        p packet_types)
next
  case 3
  show ?case
  proof (intro allI impI, elim conjE)
    fix d :: "'n simple_env_scheme tcpconn"
    let ?f = "SimpleClient_OnRecvData"
    assume d: "buf_ok (tc_recv_buffer d)" "bb_rpos (tc_recv_buffer d) = 0"
      and r: "readable (tc_recv_buffer d) = cereal_serialize ar (Some (LoginAck (LoginAck_new 0)))"
    have "TcpClientImpl_OnRecvData ar ?f \<in> {TcpServerImpl_OnRecvData ar ?f, TcpClientImpl_OnRecvData ar ?f}" by simp
    from packet_in_one_read [OF assms(1) d this r] obtain b where
      b: "TcpClientImpl_OnRecvData ar ?f d = ?f (Some (LoginAck (LoginAck_new 0))) (d\<lparr>tc_recv_buffer := b\<rparr>)" by blast
    then show "\<exists>d2. TcpClientImpl_OnRecvData ar ?f d = Inr d2 \<and> sm_is_login (tc_env d2) \<and> sm_armed (tc_env d2) = 1"
      by (simp add: SimpleClient_OnRecvData_def OnLoginAck_def LoginAck_new_def packet_types Ack_def
          async_wait_def expires_def)
  qed
next
  case 4
  show ?case
    by (auto simp: SimpleServer_OnRecvData_def SimpleServer_OnLogin_def packet_types split: packet.splits)
qed

text \<open>The handler of an ended wait, while the client is logged in and its connection open.\<close>

lemma timer_sel [simp]:
  "sm_conn (async_wait e) = sm_conn e" "sm_conn (expires e) = sm_conn e"
  "sm_is_login (async_wait e) = sm_is_login e" "sm_is_login (expires e) = sm_is_login e"
  by (simp_all add: async_wait_def expires_def)

lemma handler_step:
  assumes "tx_inv (cs_conn s)" and "is_open (cs_conn s)" and "sm_is_login (sm_env s)" and "sm_conn (sm_env s)"
    and "length (accepted (cs_conn s)) + length (cereal_serialize ar (Some KeepAlive_new)) < 2 ^ 60"
  obtains c where "simple_step ar memory SmHandler s = Inr (s\<lparr>cs_conn := c\<rparr>)"
    and "tx_inv c" and "is_open c"
    and "accepted c = accepted (cs_conn s) @ cereal_serialize ar (Some KeepAlive_new)"
    and "tc_env c = async_wait (expires ((sm_env s)\<lparr>sm_ended := sm_ended (sm_env s) - 1\<rparr>))"
proof -
  let ?c = "with_env (\<lambda>e. async_wait (expires e)) (with_env (\<lambda>e. e\<lparr>sm_ended := sm_ended e - 1\<rparr>) (cs_conn s))"
  have "tx_inv ?c" "is_open ?c" "length (accepted ?c) + length (cereal_serialize ar (Some KeepAlive_new)) < 2 ^ 60"
    using assms(1,2,5) by simp_all
  then obtain c where "Send no_callbacks True (cereal_serialize ar (Some KeepAlive_new)) ?c = Inr c"
    "tx_inv c" "is_open c" "accepted c = accepted ?c @ cereal_serialize ar (Some KeepAlive_new)"
    "tc_env c = tc_env ?c"
    by (rule quiet_send)
  moreover from this assms(3,4) have "simple_step ar memory SmHandler s = Inr (s\<lparr>cs_conn := c\<rparr>)"
    by (auto simp: DoKeepAlve_def SimpleClient_SendPkt_def TcpClientImpl_SendPkt_def)
  ultimately show thesis using that by simp
qed

definition logged_in :: "'m simple_env_scheme conn_sys \<Rightarrow> bool" where
  "logged_in s \<longleftrightarrow> tx_inv (cs_conn s) \<and> is_open (cs_conn s) \<and> sm_is_login (sm_env s) \<and> sm_conn (sm_env s)"

lemma storm:
  assumes "logged_in s" and "0 < sm_armed (sm_env s)" and "0 < sm_ended (sm_env s)"
    and "length (accepted (cs_conn s)) + n * length (cereal_serialize ar (Some KeepAlive_new)) < 2 ^ 60"
  shows "\<exists>s'. simple_run ar memory (replicate n SmHandler) s = Inr s' \<and> simple_enabled SmHandler s'
    \<and> accepted (cs_conn s') = accepted (cs_conn s) @ concat (replicate n (cereal_serialize ar (Some KeepAlive_new)))"
  using assms
proof (induction n arbitrary: s)
  case 0
  then show ?case by simp
next
  case (Suc n)
  let ?k = "cereal_serialize ar (Some KeepAlive_new)"
  have l: "length (accepted (cs_conn s)) + length ?k < 2 ^ 60" using Suc.prems(4) by simp
  obtain c where c: "simple_step ar memory SmHandler s = Inr (s\<lparr>cs_conn := c\<rparr>)" "tx_inv c" "is_open c"
    "accepted c = accepted (cs_conn s) @ ?k"
    "tc_env c = async_wait (expires ((sm_env s)\<lparr>sm_ended := sm_ended (sm_env s) - 1\<rparr>))"
    by (rule handler_step [where s = s and ar = ar and memory = memory]) (use Suc.prems(1) l in \<open>simp_all add: logged_in_def\<close>)
  let ?s = "s\<lparr>cs_conn := c\<rparr>"
  have "\<exists>s'. simple_run ar memory (replicate n SmHandler) ?s = Inr s' \<and> simple_enabled SmHandler s'
    \<and> accepted (cs_conn s') = accepted (cs_conn ?s) @ concat (replicate n ?k)"
    using Suc.prems c by (intro Suc.IH) (simp_all add: logged_in_def async_wait_def expires_def)
  then show ?case using c(1,4) Suc.prems(3) by (simp del: simple_step.simps)
qed

lemma paced:
  assumes "logged_in s" and "sm_armed (sm_env s) = 1" and "sm_ended (sm_env s) = 0"
    and "length (accepted (cs_conn s)) + n * length (cereal_serialize ar (Some KeepAlive_new)) < 2 ^ 60"
  shows "\<exists>s'. simple_run ar memory (concat (replicate n [SmTime, SmHandler])) s = Inr s'
    \<and> \<not> simple_enabled SmHandler s'
    \<and> accepted (cs_conn s') = accepted (cs_conn s) @ concat (replicate n (cereal_serialize ar (Some KeepAlive_new)))"
  using assms
proof (induction n arbitrary: s)
  case 0
  then show ?case by simp
next
  case (Suc n)
  let ?k = "cereal_serialize ar (Some KeepAlive_new)"
  let ?t = "s\<lparr>cs_conn := with_env expires (cs_conn s)\<rparr>"
  have l: "length (accepted (cs_conn ?t)) + length ?k < 2 ^ 60" using Suc.prems(4) by simp
  obtain c where c: "simple_step ar memory SmHandler ?t = Inr (?t\<lparr>cs_conn := c\<rparr>)" "tx_inv c" "is_open c"
    "accepted c = accepted (cs_conn ?t) @ ?k"
    "tc_env c = async_wait (expires ((sm_env ?t)\<lparr>sm_ended := sm_ended (sm_env ?t) - 1\<rparr>))"
    by (rule handler_step [where s = ?t and ar = ar and memory = memory])
      (use Suc.prems(1) l in \<open>simp_all add: logged_in_def expires_def\<close>)
  let ?s = "?t\<lparr>cs_conn := c\<rparr>"
  have "\<exists>s'. simple_run ar memory (concat (replicate n [SmTime, SmHandler])) ?s = Inr s'
    \<and> \<not> simple_enabled SmHandler s' \<and> accepted (cs_conn s') = accepted (cs_conn ?s) @ concat (replicate n ?k)"
    using Suc.prems c by (intro Suc.IH) (simp_all add: logged_in_def async_wait_def expires_def)
  moreover have "simple_step ar memory SmTime s = Inr ?t" "0 < sm_ended (sm_env ?t)"
    using Suc.prems(2) by (simp_all add: expires_def)
  ultimately show ?case using c(1,4) Suc.prems(2) by (simp del: simple_step.simps)
qed

text \<open>C30. The keep-alive timer. A client without a wait that logs in sends one keep-alive each time
  its timer expires, and none in between. But a client that logs in while a wait is armed, as
  after losing and renewing its connection within the three seconds, ends that wait, whose
  handler starts over: from then on each handler ends the wait of the one before, and the client
  sends keep-alives without any time passing and without end.\<close>

theorem keepalive_timer:
  fixes ar :: archive
  assumes "tx_inv (cs_conn s)" and "is_open (cs_conn s)" and "sm_conn (sm_env s)"
    and "OnLoginAck (LoginAck (LoginAck_new 0)) (cs_conn s) = Inr c"
  defines "k \<equiv> cereal_serialize ar (Some KeepAlive_new)" and "s1 \<equiv> s\<lparr>cs_conn := c\<rparr>"
  shows "(sm_armed (sm_env s) = 0 \<and> sm_ended (sm_env s) = 0 \<longrightarrow> \<not> simple_enabled SmHandler s1
      \<and> (\<forall>n. length (accepted (cs_conn s)) + n * length k < 2 ^ 60 \<longrightarrow>
          (\<exists>s'. simple_run ar memory (concat (replicate n [SmTime, SmHandler])) s1 = Inr s'
            \<and> \<not> simple_enabled SmHandler s'
            \<and> accepted (cs_conn s') = accepted (cs_conn s) @ concat (replicate n k))))
    \<and> (0 < sm_armed (sm_env s) \<longrightarrow>
        (\<forall>n. length (accepted (cs_conn s)) + n * length k < 2 ^ 60 \<longrightarrow>
          (\<exists>s'. simple_run ar memory (replicate n SmHandler) s1 = Inr s' \<and> simple_enabled SmHandler s'
            \<and> accepted (cs_conn s') = accepted (cs_conn s) @ concat (replicate n k))))"
proof -
  have c: "tx_inv c" "is_open c" "accepted c = accepted (cs_conn s)" "sm_is_login (tc_env c)" "sm_conn (tc_env c)"
    "sm_armed (tc_env c) = 1" "sm_ended (tc_env c) = sm_ended (sm_env s) + sm_armed (sm_env s)"
    using assms(1-4) by (auto simp: OnLoginAck_def LoginAck_new_def Ack_def Let_def async_wait_def expires_def)
  have li: "logged_in s1" using c by (simp add: logged_in_def s1_def)
  show ?thesis
    using paced [OF li, of _ ar memory] storm [OF li, of _ ar memory] c by (simp add: s1_def k_def)
qed

section \<open>Instances\<close>

lemma fresh_conn:
  obtains c where "TCPConn_new 0 demo_socket n w = Inr c" and "tx_inv c" and "is_open c"
    and "accepted c = []" and "tc_env c = w"
proof -
  obtain c where c: "TCPConn_new 0 demo_socket n w = Inr c" "is_open c" "accepted c = []" "tc_env c = w"
    by (simp add: TCPConn_new_def demo_socket_def is_open_def)
  moreover have "tx_inv c" using sys_invD(1) [OF initial_sys_inv [OF new_conn_incoming [OF c(1)]]] by (simp add: initial_sys_def)
  ultimately show thesis using that by blast
qed

lemma length_mark_string: "length (mark_string s) = Suc (2 * length s)"
  by (induction s) simp_all

lemma marked_lengths:
  "length (cereal_serialize marked_archive (Some (LoginAck (LoginAck_new 0)))) = 36"
  "length (cereal_serialize marked_archive (Some (Login (Login_new 7 n p)))) = 11 + 2 * length n + 2 * length p"
  "length (cereal_serialize marked_archive (Some KeepAlive_new)) = 4"
  by (simp_all add: cereal_serialize_def marked_archive_def save_login_ack_def save_login_def save_head_def
      LoginAck_new_def Login_new_def KeepAlive_new_def PacketHead_new_def save_keepalive_def mark_nat.simps length_mark_string
      packet_types packet_head.truncate_def)

theorem login_handshake_witness:
  "\<exists>(c :: packet_env tcpconn) c1 (d :: simple_env tcpconn) d1.
     SimpleClient_OnConnect marked_archive 7 d = Inr d1 \<and> sm_conn (tc_env d1)
     \<and> TcpServerImpl_OnRecvData marked_archive (SimpleServer_OnRecvData marked_archive 0) c = Inr c1
     \<and> accepted c1 = cereal_serialize marked_archive (Some (LoginAck (LoginAck_new 0)))"
proof -
  let ?l = "Login_new 7 ''test'' ''abc#123''" and ?A = marked_archive
  let ?d = "cereal_serialize ?A (Some (Login ?l))"
  obtain c0 :: "packet_env tcpconn" where c0: "tx_inv c0" "is_open c0" "accepted c0 = []"
    by (rule fresh_conn [where n = "''x''" and w = "\<lparr>oe_removed = 0, pk_log = []\<rparr> :: packet_env"])
  obtain d0 :: "simple_env tcpconn" where d0: "tx_inv d0" "is_open d0" "accepted d0 = []"
    by (rule fresh_conn [where n = "''x''" and w = "\<lparr>oe_removed = 0, pk_log = [], sm_is_login = False,
      sm_conn = False, sm_armed = 0, sm_ended = 0\<rparr> :: simple_env"])
  have len: "length ?d < 2 ^ 60" by (simp add: marked_lengths)
  note h = holding_ok [OF len, of c0]
  have c: "tx_inv (holding ?d c0)" "is_open (holding ?d c0)" "accepted (holding ?d c0) = []"
    using c0 by (simp_all add: holding_def)
  have d: "tx_inv (d0\<lparr>tc_status := kConnected\<rparr>)" "is_open (d0\<lparr>tc_status := kConnected\<rparr>)"
    "IsConnected (d0\<lparr>tc_status := kConnected\<rparr>)"
    using d0 same_tx_inv [OF same_tx_status] by (simp_all add: IsConnected_def)
  have la: "length (accepted (holding ?d c0)) + length (cereal_serialize ?A (Some (LoginAck (LoginAck_new 0)))) < 2 ^ 60"
    using c(3) marked_lengths(1) by simp
  have lb: "length (accepted (d0\<lparr>tc_status := kConnected\<rparr>)) + length ?d < 2 ^ 60"
    using d0(3) len by simp
  have t: "ph_type ?l = PACKET_LOGIN" by (simp add: Login_new_def)
  note hs = login_handshake [OF marked_archive_ok c(1,2) h(1,2) t h(3) la d lb, where m' = 0, unfolded c(3)]
  from conjunct1 [OF hs] conjunct1 [OF conjunct2 [OF hs]] show ?thesis by auto
qed

theorem keepalive_timer_witness:
  "\<exists>(s :: simple_env conn_sys) c s'. OnLoginAck (LoginAck (LoginAck_new 0)) (cs_conn s) = Inr c
     \<and> simple_run marked_archive 0 (replicate 1000 SmHandler) (s\<lparr>cs_conn := c\<rparr>) = Inr s'
     \<and> simple_enabled SmHandler s'"
proof -
  let ?w = "\<lparr>oe_removed = 0, pk_log = [], sm_is_login = False, sm_conn = True, sm_armed = 1, sm_ended = 0\<rparr> :: simple_env"
  obtain c0 :: "simple_env tcpconn" where c0: "tx_inv c0" "is_open c0" "accepted c0 = []" "tc_env c0 = ?w"
    by (rule fresh_conn [where n = "''x''" and w = ?w])
  let ?s = "initial_sys c0"
  have s: "tx_inv (cs_conn ?s)" "is_open (cs_conn ?s)" "sm_conn (sm_env ?s)" "0 < sm_armed (sm_env ?s)"
    "length (accepted (cs_conn ?s)) + 1000 * length (cereal_serialize marked_archive (Some KeepAlive_new)) < 2 ^ 60"
    using c0 by (simp_all add: initial_sys_def marked_lengths)
  obtain c where c: "OnLoginAck (LoginAck (LoginAck_new 0)) (cs_conn ?s) = Inr c"
    by (simp add: OnLoginAck_def LoginAck_new_def Ack_def)
  from keepalive_timer [OF s(1-3) c, of marked_archive 0] s(4,5) c show ?thesis by blast
qed

end
