(* ===== verification/Conn_Pair.thy ===== *)
theory Conn_Pair
  imports Conn_Properties "HOL-Library.Sublist"
begin

text \<open>
  Two connections joined by the network: what the socket of one has accepted is on the way to the
  other until a read takes it, in order. Each side is a connection with what asio does for it
  (\<open>Conn_System\<close>), so the properties of a connection hold on both sides; here they are put together.
\<close>

section \<open>The network\<close>

datatype side = ClientSide | ServerSide

fun peer_of :: "side \<Rightarrow> side" where
  "peer_of ClientSide = ServerSide"
| "peer_of ServerSide = ClientSide"

lemma peer_of_simps [simp]: "peer_of (peer_of i) = i" "peer_of i \<noteq> i" "i \<noteq> peer_of i"
  by (cases i; simp)+

lemma side_cases: "j = i \<or> j = peer_of i"
  by (cases i; cases j) simp_all

text \<open>The bytes on the way to a side, and those it has read.\<close>

record 'w conn_net =
  cn_sys :: "side \<Rightarrow> 'w conn_sys"
  cn_wire :: "side \<Rightarrow> byte list"
  cn_got :: "side \<Rightarrow> byte list"

abbreviation conn_at :: "'w conn_net \<Rightarrow> side \<Rightarrow> 'w tcpconn" where
  "conn_at n i \<equiv> cs_conn (cn_sys n i)"

fun taken :: "conn_event \<Rightarrow> byte list" where
  "taken (EvReadDone d) = d"
| "taken _ = []"

definition newly_sent :: "'w conn_sys \<Rightarrow> 'w conn_sys \<Rightarrow> byte list" where
  "newly_sent s s' = drop (length (cs_delivered s)) (cs_delivered s')"

definition net_enabled :: "side \<Rightarrow> conn_event \<Rightarrow> 'w conn_net \<Rightarrow> bool" where
  "net_enabled i ev n \<longleftrightarrow> enabled ev (cn_sys n i) \<and> prefix (taken ev) (cn_wire n i)"

definition net_moved :: "side \<Rightarrow> conn_event \<Rightarrow> 'w conn_sys \<Rightarrow> 'w conn_net \<Rightarrow> 'w conn_net" where
  "net_moved i ev s' n =
     n\<lparr>cn_sys := (cn_sys n)(i := s'),
       cn_wire := (cn_wire n)(i := drop (length (taken ev)) (cn_wire n i),
         peer_of i := cn_wire n (peer_of i) @ newly_sent (cn_sys n i) s'),
       cn_got := (cn_got n)(i := cn_got n i @ taken ev)\<rparr>"

definition net_step :: "(side \<Rightarrow> 'w conn_callbacks) \<Rightarrow> side \<Rightarrow> conn_event \<Rightarrow> 'w conn_net \<Rightarrow> 'w conn_net res" where
  "net_step cbs i ev n = rbind (conn_step (cbs i) ev (cn_sys n i)) (\<lambda>s'. Inr (net_moved i ev s' n))"

definition joined :: "(side \<Rightarrow> 'w tcpconn) \<Rightarrow> 'w conn_net" where
  "joined c = \<lparr>cn_sys = initial_sys \<circ> c, cn_wire = (\<lambda>_. []), cn_got = (\<lambda>_. [])\<rparr>"

inductive net_reachable :: "(side \<Rightarrow> 'w conn_callbacks) \<Rightarrow> 'w conn_net \<Rightarrow> bool" for cbs where
  joined: "(\<And>i. new_conn (c i)) \<Longrightarrow> net_reachable cbs (joined c)"
| moved: "net_reachable cbs n \<Longrightarrow> net_enabled i ev n \<Longrightarrow> net_step cbs i ev n = Inr n' \<Longrightarrow> net_reachable cbs n'"

text \<open>Runs, for concrete executions.\<close>

fun net_run :: "(side \<Rightarrow> 'w conn_callbacks) \<Rightarrow> (side \<times> conn_event) list \<Rightarrow> 'w conn_net \<Rightarrow> 'w conn_net res" where
  "net_run cbs [] n = Inr n"
| "net_run cbs ((i, ev) # evs) n =
     (if net_enabled i ev n then rbind (net_step cbs i ev n) (net_run cbs evs) else Inl AssertFailed)"

lemma net_run_reachable: "net_reachable cbs n \<Longrightarrow> net_run cbs evs n = Inr n' \<Longrightarrow> net_reachable cbs n'"
proof (induction evs arbitrary: n)
  case (Cons e evs)
  obtain i ev where e: "e = (i, ev)" by fastforce
  with Cons.prems obtain n1 where "net_enabled i ev n" "net_step cbs i ev n = Inr n1" "net_run cbs evs n1 = Inr n'"
    by (auto split: if_splits)
  then show ?case using Cons net_reachable.moved by blast
qed simp

lemma new_conn_sel: "new_conn c \<Longrightarrow> tc_recv_buffer c = ByteBuffer_default \<and> tc_calls c = [] \<and> \<not> tc_async_writing c"
  by (erule new_connE) (auto simp: SetType_def TCPConn_new_def split: option.splits)

lemma net_run_step:
  assumes "enabled ev (cn_sys n i)" and "prefix (taken ev) (cn_wire n i)" and "conn_step (cbs i) ev (cn_sys n i) = Inr s'"
  shows "net_run cbs ((i, ev) # evs) n = net_run cbs evs (net_moved i ev s' n)"
  using assms by (simp add: net_enabled_def net_step_def)

section \<open>What is on the way\<close>

lemma net_step_Inr:
  assumes "net_step cbs i ev n = Inr n'"
  obtains s' where "conn_step (cbs i) ev (cn_sys n i) = Inr s'" and "n' = net_moved i ev s' n"
  using assms by (auto simp: net_step_def)

lemma delivered_grows:
  "conn_step cbs ev s = Inr s' \<Longrightarrow> cs_delivered s' = cs_delivered s @ newly_sent s s'"
  by (cases ev) (auto simp: newly_sent_def)

lemma net_moved_sel:
  "cn_sys (net_moved i ev s' n) j = (if j = i then s' else cn_sys n j)"
  "cn_wire (net_moved i ev s' n) j = (if j = i then drop (length (taken ev)) (cn_wire n i)
     else cn_wire n j @ newly_sent (cn_sys n i) s')"
  "cn_got (net_moved i ev s' n) j = (if j = i then cn_got n i @ taken ev else cn_got n j)"
  using side_cases [of j i] by (auto simp: net_moved_def)

lemma net_reachable_sides: "net_reachable cbs n \<Longrightarrow> conn_reachable (cbs i) (cn_sys n i)"
proof (induction rule: net_reachable.induct)
  case (joined c)
  then show ?case using conn_reachable.fresh by (auto simp: joined_def)
next
  case (moved n j ev n')
  from moved(3) obtain s' where s': "conn_step (cbs j) ev (cn_sys n j) = Inr s'" "n' = net_moved j ev s' n"
    by (rule net_step_Inr)
  have "enabled ev (cn_sys n j)" using moved(2) by (simp add: net_enabled_def)
  with moved(4) s' show ?case
    by (cases "i = j") (auto simp: net_moved_sel intro: conn_reachable.event)
qed

lemma wire_holds:
  assumes "net_reachable cbs n"
  shows "cs_delivered (cn_sys n (peer_of i)) = cn_got n i @ cn_wire n i"
  using assms
proof (induction arbitrary: i rule: net_reachable.induct)
  case (joined c)
  then show ?case by (simp add: joined_def initial_sys_def)
next
  case (moved n j ev n')
  from moved(3) obtain s' where s': "conn_step (cbs j) ev (cn_sys n j) = Inr s'" "n' = net_moved j ev s' n"
    by (rule net_step_Inr)
  have pre: "prefix (taken ev) (cn_wire n j)" using moved(2) by (simp add: net_enabled_def)
  consider "i = j" | "i = peer_of j" using side_cases [of i j] by blast
  then show ?case
  proof cases
    case 1
    then show ?thesis using moved(4) [of j] pre by (auto simp: s'(2) net_moved_sel elim: prefixE)
  next
    case 2
    then show ?thesis
      using moved(4) [of i] delivered_grows [OF s'(1)] by (simp add: s'(2) net_moved_sel)
  qed
qed


end
