(* ===== verification/Packet_Pair.thy ===== *)
theory Packet_Pair
  imports Packet_Properties Conn_Pair
begin

text \<open>
  \<open>SimpleServer\<close> and \<open>SimpleClient\<close> on the two ends of one stream. Their callbacks fulfil the contract of a
  connection's client, so what is shown of connections and of the network between them holds for these
  programs; and the login goes through when every read takes one packet.
\<close>

section \<open>The callbacks keep the contract\<close>

lemma same_tx_with_env [simp]: "same_tx c (with_env f c)"
  by (simp add: with_env_def)

lemma same_tx_log_line [simp]: "same_tx c (log x c)"
  by (simp add: log_def)

lemma cb_ok_prefix:
  assumes "cb_ok f" and "\<And>c. same_tx c (g c)" and "\<And>c. tc_recv_buffer (g c) = tc_recv_buffer c"
  shows "cb_ok (\<lambda>c. f (g c))"
  using cb_ok_rbind [OF cb_ok_same_tx [of g, OF assms(2,3)] assms(1)] by simp

lemma SendPkt_ok: "cb_ok (TcpServerImpl_SendPkt ar p)" "cb_ok (TcpClientImpl_SendPkt ar p)"
  unfolding TcpServerImpl_SendPkt_def [abs_def] TcpClientImpl_SendPkt_def [abs_def] by (rule Send_quiet_ok)+

lemma cb_ok_log: "cb_ok f \<Longrightarrow> cb_ok (\<lambda>c. f (log (x c) c))"
  by (rule cb_ok_prefix) simp_all

lemma cb_ok_if:
  assumes "cb_ok f" and "cb_ok g"
  shows "cb_ok (\<lambda>c. if b c then f c else g c)"
proof (rule cb_okI)
  fix c c'
  assume inv: "tx_inv c" and run: "(if b c then f c else g c) = Inr c'"
  show "tx_inv c' \<and> tx_step c c' \<and> tc_recv_buffer c' = tc_recv_buffer c"
    using cb_okD [OF assms(1) inv] cb_okD [OF assms(2) inv] run by (cases "b c") simp_all
qed

lemma cb_ok_fails: "cb_ok (\<lambda>c. Inl e)"
  by (simp add: cb_ok_def)

lemma cb_ok_same: "cb_ok (\<lambda>c. Inr c)"
  using cb_ok_Inr by simp

lemma cb_ok_logs: "cb_ok (\<lambda>c. Inr (log (x c) c))"
  by (rule cb_ok_same_tx) simp_all

text \<open>The server program.\<close>

lemma server_OnConnect_ok: "cb_ok (TcpServerImpl_OnConnect SimpleServer_OnConnect)"
  unfolding TcpServerImpl_OnConnect_def [abs_def] SimpleServer_OnConnect_def [abs_def]
  by (intro cb_ok_if cb_ok_logs cb_ok_same)

lemma server_OnLogin_ok: "cb_ok (SimpleServer_OnLogin ar memory p)"
proof (cases p)
  case (Login l)
  show ?thesis unfolding SimpleServer_OnLogin_def [abs_def] Login packet.case by (rule cb_ok_log [OF SendPkt_ok(1)])
qed (simp_all add: SimpleServer_OnLogin_def [abs_def] cb_ok_fails)

lemma server_OnRecvData_ok: "cb_ok (SimpleServer_OnRecvData ar memory p)"
proof (cases p)
  case None
  then show ?thesis by (simp add: SimpleServer_OnRecvData_def [abs_def] cb_ok_same)
next
  case (Some q)
  have "cb_ok (SimpleServer_OnKeepAlive ar)" unfolding SimpleServer_OnKeepAlive_def [abs_def] by (rule SendPkt_ok)
  then have "cb_ok (\<lambda>c. SimpleServer_OnKeepAlive ar (log (LogType (Type q)) c))" by (rule cb_ok_log)
  moreover have "cb_ok (\<lambda>c. SimpleServer_OnLogin ar memory q (log (LogType (Type q)) c))"
    by (rule cb_ok_log [OF server_OnLogin_ok])
  ultimately show ?thesis unfolding SimpleServer_OnRecvData_def [abs_def] Some option.case Let_def
    by (intro cb_ok_if cb_ok_logs)
qed

text \<open>The client program.\<close>

lemma client_SendPkt_eq: "rbind (SimpleClient_SendPkt ar p c) (\<lambda>(_, c). Inr c)
    = (if \<not> sm_conn (tc_env c) then Inl NullDeref else TcpClientImpl_SendPkt ar (Some p) c)"
  by (cases "TcpClientImpl_SendPkt ar (Some p) c"; cases "sm_conn (tc_env c)") (simp_all add: SimpleClient_SendPkt_def rbind_def)

lemma client_SendPkt_ok: "cb_ok (\<lambda>c. rbind (SimpleClient_SendPkt ar p c) (\<lambda>(_, c). Inr c))"
  unfolding client_SendPkt_eq by (intro cb_ok_if cb_ok_fails SendPkt_ok)

lemma client_OnConnect_ok: "cb_ok (TcpClientImpl_OnConnect (SimpleClient_OnConnect ar memory))"
proof -
  have "cb_ok (\<lambda>c. rbind (SimpleClient_SendPkt ar p (with_env f (log (x c) c))) (\<lambda>(_, c). Inr c))" for p f x
    by (rule cb_ok_prefix [OF client_SendPkt_ok]) (auto intro: same_tx_trans [OF same_tx_log_line same_tx_with_env])
  moreover have "cb_ok (\<lambda>c. Inr (with_env f (log (x c) c)))" for f x
    by (rule cb_ok_same_tx) (auto intro: same_tx_trans [OF same_tx_log_line same_tx_with_env])
  ultimately show ?thesis
    unfolding TcpClientImpl_OnConnect_def [abs_def] SimpleClient_OnConnect_def [abs_def] Let_def
    by (intro cb_ok_if cb_ok_same)
qed

lemma client_OnLoginAck_ok: "cb_ok (OnLoginAck p)"
proof (cases p)
  case (LoginAck a)
  have "cb_ok (\<lambda>c. Inr (with_env f (log x (log y c))))" "cb_ok (\<lambda>c. Inr (log x (with_env f (log y c))))" for f x y
    by (rule cb_ok_same_tx; auto intro: same_tx_trans [OF same_tx_trans [OF same_tx_log_line same_tx_log_line] same_tx_with_env]
        same_tx_trans [OF same_tx_trans [OF same_tx_log_line same_tx_with_env] same_tx_log_line])+
  then show ?thesis unfolding OnLoginAck_def [abs_def] LoginAck packet.case Let_def by (intro cb_ok_if)
qed (simp_all add: OnLoginAck_def [abs_def] cb_ok_fails)

lemma client_OnRecvData_ok: "cb_ok (SimpleClient_OnRecvData p)"
proof (cases p)
  case None
  then show ?thesis by (simp add: SimpleClient_OnRecvData_def [abs_def] cb_ok_fails)
next
  case (Some q)
  have "cb_ok OnKeepAliveAck" unfolding OnKeepAliveAck_def [abs_def] by (rule cb_ok_logs)
  then have "cb_ok (\<lambda>c. OnKeepAliveAck (log (LogType (Type q)) c))" by (rule cb_ok_log)
  moreover have "cb_ok (\<lambda>c. OnLoginAck q (log (LogType (Type q)) c))" by (rule cb_ok_log [OF client_OnLoginAck_ok])
  ultimately show ?thesis unfolding SimpleClient_OnRecvData_def [abs_def] Some option.case Let_def
    by (intro cb_ok_if cb_ok_logs)
qed

text \<open>The reading of a packet, for any program that is called with it.\<close>

lemma OnRecvData_ok:
  assumes "\<And>p. cb_ok (f p)"
  shows "msg_cb_ok (TcpServerImpl_OnRecvData ar f)" "msg_cb_ok (TcpClientImpl_OnRecvData ar f)"
proof -
  show "msg_cb_ok (TcpServerImpl_OnRecvData ar f)"
  proof (rule msg_cb_okI)
    fix c c'
    assume inv: "tx_inv c" and run: "TcpServerImpl_OnRecvData ar f c = Inr c'"
    let ?b = "tc_recv_buffer c"
    obtain ss b where b: "Normalize (ReadBytes (Size ?b) ?b) = Inr b"
      and rest: "(if (case ss of [] \<Rightarrow> 0 | x # _ \<Rightarrow> x) \<noteq> 1 then Inr (c\<lparr>tc_recv_buffer := b\<rparr>)
         else rbind (cereal_deserialize_ptr ar ss) (\<lambda>p. f p (c\<lparr>tc_recv_buffer := b\<rparr>))) = Inr c'"
      using run by (auto simp: TcpServerImpl_OnRecvData_def Let_def)
    let ?c = "c\<lparr>tc_recv_buffer := b\<rparr>"
    have bo: "buf_ok b" if "buf_ok ?b"
    proof -
      have "buf_ok (ReadBytes (Size ?b) ?b)" using ReadBytes_ok(1) [OF that] by simp
      from Normalize_ok [OF this] b show ?thesis by (metis sum.inject(2))
    qed
    have inv': "tx_inv ?c" and step: "tx_step c ?c" using same_tx_inv [OF same_tx_recv inv] same_tx_step [OF same_tx_recv] by auto
    have "c' = ?c \<or> (\<exists>p. f p ?c = Inr c')" using rest by (auto split: if_splits)
    then show "tx_inv c' \<and> tx_step c c' \<and> (buf_ok ?b \<longrightarrow> buf_ok (tc_recv_buffer c'))"
    proof (elim disjE exE)
      fix p
      assume "f p ?c = Inr c'"
      note k = cb_okD [OF assms inv' this]
      show ?thesis using k tx_step_trans [OF step k(2)] bo by simp
    qed (use inv' step bo in simp)
  qed
  then show "msg_cb_ok (TcpClientImpl_OnRecvData ar f)" by (simp add: client_receives_alike)
qed

lemma owner_close_ok: "cb_ok owner_close_fn"
  unfolding owner_close_fn_def [abs_def] by (rule cb_ok_same_tx) simp_all

interpretation simple_server: conn_client "simple_server_cbs ar memory"
  by unfold_locales
    (auto simp: simple_server_cbs_def server_OnConnect_ok owner_close_ok intro: OnRecvData_ok(1) server_OnRecvData_ok)

interpretation simple_client: conn_client "simple_client_cbs ar memory"
  by unfold_locales
    (auto simp: simple_client_cbs_def client_OnConnect_ok owner_close_ok intro: OnRecvData_ok(2) client_OnRecvData_ok)

section \<open>One send, one read\<close>

text \<open>A message sent on a connection that is not writing is written whole.\<close>

lemma idle_send:
  assumes inv: "tx_inv c" and op: "is_open c" and idle: "\<not> tc_async_writing c" and "d \<noteq> []"
    and "length (accepted c) + length d < 2 ^ 60"
  shows "\<exists>c'. Send no_callbacks True d c = Inr c' \<and> tx_inv c' \<and> is_open c' \<and> tc_env c' = tc_env c
    \<and> tc_status c' = tc_status c \<and> tc_recv_buffer c' = tc_recv_buffer c \<and> reads c' = reads c
    \<and> tc_async_writing c' \<and> readable (tc_writing_buffer c') = d \<and> tc_write_buffer c' = tc_write_buffer c"
proof -
  have empty: "pending c = []" using inv op idle by (simp add: tx_inv_def)
  have w: "readable (tc_write_buffer c) = []" "buf_ok (tc_write_buffer c)" using empty inv by (simp_all add: pending_def tx_inv_def)
  then have "\<not> 0 < Size (tc_write_buffer c)" using Size_gt_0 by blast
  obtain c' where c': "Send no_callbacks True d c = Inr c'" "tx_inv c'" by (rule quiet_send [OF inv op assms(5)])
  note f = quiet_send_frame [OF c'(1) op]
  have same: "tc_write_buffer c' = tc_write_buffer c"
    using c'(1) op idle \<open>\<not> 0 < Size (tc_write_buffer c)\<close>
    by (auto simp: Send_def SendInLoop_def Let_def AsyncWrite_def split: if_splits)
  have "pending c' = d" using cb_okD(2) [OF Send_quiet_ok inv c'(1)] f empty by (auto simp: tx_step_def)
  then have "readable (tc_writing_buffer c') = d" "tc_async_writing c'"
    using same w(1) c'(2) f assms(4) by (auto simp: pending_def tx_inv_def)
  then show ?thesis using c' f same by auto
qed

text \<open>A packet that arrives in one read, in an empty buffer.\<close>

definition expects :: "'w conn_sys \<Rightarrow> bool" where
  "expects s \<longleftrightarrow> tc_recv_buffer (cs_conn s) = ByteBuffer_default \<and> cs_reads_done s < length (reads (cs_conn s))"

lemma expects_enabled: "sys_inv s \<Longrightarrow> expects s \<Longrightarrow> length d \<le> 8192 \<Longrightarrow> enabled (EvReadDone d) s"
  using sys_invD(7) [of s] by (simp add: expects_def ByteBuffer_default_def ValidSize_def Capacity_def)

lemma read_packet:
  assumes inv: "sys_inv s" and ex: "expects s" and len: "length d \<le> 8192"
    and fn: "msg_fn cbs = Some impl" "impl \<in> {TcpServerImpl_OnRecvData ar f, TcpClientImpl_OnRecvData ar f}"
    and ar: "archive_ok ar"
  shows "d = cereal_serialize ar (Some p) \<Longrightarrow> \<exists>b. conn_step cbs (EvReadDone d) s
      = rbind (f (Some p) ((outgoing_call CallMsgFn (cs_conn s))\<lparr>tc_recv_buffer := b\<rparr>))
          (\<lambda>c. Inr (s\<lparr>cs_conn := AsyncRead c, cs_reads_done := Suc (cs_reads_done s)\<rparr>))"
    and "0 < k \<Longrightarrow> k < length (cereal_serialize ar (Some p)) \<Longrightarrow> d = take k (cereal_serialize ar (Some p)) \<Longrightarrow>
      conn_step cbs (EvReadDone d) s = Inl ArchiveError"
proof -
  let ?c = "cs_conn s" and ?b = "tc_recv_buffer (cs_conn s)"
  have rd: "cs_reads_done s < length (reads ?c)" using ex by (simp add: expects_def)
  have zero: "readable ?b = []" "bb_rpos ?b = 0" and room: "unat (ValidSize ?b) = 8192"
    using ex by (simp_all add: expects_def ByteBuffer_default_def readable_def ValidSize_def Capacity_def)
  obtain st where st: "place_received d ?c = Inr (?c\<lparr>tc_recv_buffer := ?b\<lparr>bb_storage := st\<rparr>\<rparr>)"
    "buf_ok (WriteBytes (of_nat (length d)) (?b\<lparr>bb_storage := st\<rparr>))"
    "readable (WriteBytes (of_nat (length d)) (?b\<lparr>bb_storage := st\<rparr>)) = readable ?b @ d"
    using place_received_ok [OF sys_invD(4) [OF inv] sys_invD(7) [OF inv rd], of d] len room by auto
  let ?b1 = "WriteBytes (of_nat (length d)) (?b\<lparr>bb_storage := st\<rparr>)"
  let ?c1 = "outgoing_call CallMsgFn (?c\<lparr>tc_recv_buffer := ?b1\<rparr>)"
  have r1: "bb_rpos ?b1 = 0" "readable ?b1 = d" using zero st(3) by (simp_all add: WriteBytes_def)
  have step: "conn_step cbs (EvReadDone d) s = rbind (impl ?c1)
      (\<lambda>c. Inr (s\<lparr>cs_conn := AsyncRead c, cs_reads_done := Suc (cs_reads_done s)\<rparr>))"
    using st(1) fn(1) by (simp add: HandleRead_def Let_def rbind_assoc)
  have out: "?c1\<lparr>tc_recv_buffer := b\<rparr> = (outgoing_call CallMsgFn ?c)\<lparr>tc_recv_buffer := b\<rparr>" for b
    by (simp add: outgoing_call_def)
  have b1: "buf_ok (tc_recv_buffer ?c1)" "bb_rpos (tc_recv_buffer ?c1) = 0" "readable (tc_recv_buffer ?c1) = d"
    using st(2) r1 by simp_all
  show "\<exists>b. conn_step cbs (EvReadDone d) s
      = rbind (f (Some p) ((outgoing_call CallMsgFn ?c)\<lparr>tc_recv_buffer := b\<rparr>))
          (\<lambda>c. Inr (s\<lparr>cs_conn := AsyncRead c, cs_reads_done := Suc (cs_reads_done s)\<rparr>))"
    if d: "d = cereal_serialize ar (Some p)"
    using packet_in_one_read [OF ar b1(1,2) fn(2) trans [OF b1(3) d]] step out by auto
  show "conn_step cbs (EvReadDone d) s = Inl ArchiveError"
    if "0 < k" "k < length (cereal_serialize ar (Some p))" "d = take k (cereal_serialize ar (Some p))"
    using packet_part [OF ar b1(1,2) fn(2) that(1,2)] b1(3) that(3) step by simp
qed

section \<open>The login, from end to end\<close>

definition simple_cbs :: "archive \<Rightarrow> uint64 \<Rightarrow> uint64 \<Rightarrow> side \<Rightarrow> 'm simple_env_scheme conn_callbacks" where
  "simple_cbs ar mc ms i = (case i of ClientSide \<Rightarrow> simple_client_cbs ar mc | ServerSide \<Rightarrow> simple_server_cbs ar ms)"

lemma simple_cbs_sides: "simple_cbs ar mc ms ClientSide = simple_client_cbs ar mc" "simple_cbs ar mc ms ServerSide = simple_server_cbs ar ms"
  by (simp_all add: simple_cbs_def)

lemma program_frame [simp]:
  "tc_async_writing (log x c) = tc_async_writing c" "tc_async_writing (with_env f c) = tc_async_writing c"
  "tc_write_buffer (log x c) = tc_write_buffer c" "tc_write_buffer (with_env f c) = tc_write_buffer c"
  "tc_calls (log x c) = tc_calls c" "tc_calls (with_env f c) = tc_calls c"
  "tc_name (log x c) = tc_name c" "tc_name (with_env f c) = tc_name c"
  by (simp_all add: log_def with_env_def)

text \<open>Nothing of the side is being written; or exactly the given bytes are.\<close>

definition writing_only :: "byte list \<Rightarrow> 'w conn_sys \<Rightarrow> bool" where
  "writing_only d s \<longleftrightarrow> sys_inv s \<and> is_open (cs_conn s) \<and> tc_async_writing (cs_conn s) = (d \<noteq> [])
     \<and> pending (cs_conn s) = d \<and> readable (tc_write_buffer (cs_conn s)) = []"

lemma simple_cbs_client: "conn_client (simple_cbs ar mc ms i)"
  by (cases i) (simp_all add: simple_cbs_def simple_server.conn_client_axioms simple_client.conn_client_axioms)

lemma fresh_side:
  assumes "new_conn c" and "is_open c"
  shows "writing_only [] (initial_sys c)" and "enabled EvAttached (initial_sys c)"
proof -
  have i: "sys_inv (initial_sys c)" by (rule initial_sys_inv [OF assms(1)])
  have e: "accepted c = []" "\<not> tc_async_writing c" using new_conn_sel [OF assms(1)] by simp_all
  then have "pending c = []" using sys_invD(2) [OF i] by (simp add: initial_sys_def)
  then show "writing_only [] (initial_sys c)" using i e assms(2) by (simp add: writing_only_def initial_sys_def pending_def)
  show "enabled EvAttached (initial_sys c)" using new_conn_sel [OF assms(1)] by (simp add: initial_sys_def)
qed

text \<open>A whole write that drains the side.\<close>

lemma writes_all:
  assumes "conn_client cbs" and w: "writing_only d s" and "d \<noteq> []"
  defines "ev \<equiv> EvWriteDone (Size (tc_writing_buffer (cs_conn s)))"
  obtains s' where "enabled ev s" and "conn_step cbs ev s = Inr s'" and "writing_only [] s'" and "newly_sent s s' = d"
    and "tc_env (cs_conn s') = tc_env (cs_conn s)" and "expects s' = expects s"
proof -
  let ?n = "Size (tc_writing_buffer (cs_conn s))"
  have inv: "sys_inv s" and aw: "tc_async_writing (cs_conn s)" using w assms(3) by (simp_all add: writing_only_def)
  have d: "readable (tc_write_buffer (cs_conn s)) = []" "pending (cs_conn s) = d" using w by (simp_all add: writing_only_def)
  obtain s' where s': "enabled ev s" "conn_step cbs ev s = Inr s'" "sys_inv s'"
    "accepted (cs_conn s') = accepted (cs_conn s)" "pending (cs_conn s') = []" "\<not> tc_async_writing (cs_conn s')"
    "readable (tc_write_buffer (cs_conn s')) = []"
    using conn_client.full_write_step [OF assms(1) inv aw] d unfolding ev_def by metis
  have frame: "is_open (cs_conn s') = is_open (cs_conn s) \<and> tc_env (cs_conn s') = tc_env (cs_conn s)
      \<and> reads (cs_conn s') = reads (cs_conn s) \<and> tc_recv_buffer (cs_conn s') = tc_recv_buffer (cs_conn s)
      \<and> cs_reads_done s' = cs_reads_done s"
    using s'(2) by (auto simp: ev_def HandleWrite_def Let_def AsyncWrite_def swap_buffers_def case_prod_unfold is_open_def split: if_splits)
  have "cs_delivered s' = cs_delivered s @ d" using sys_invD(2) [OF s'(3)] sys_invD(2) [OF inv] s'(4,5) d by simp
  then show thesis using that [OF s'(1,2)] s'(3-) frame w by (simp add: writing_only_def newly_sent_def expects_def)
qed

text \<open>A message sent by a callback of a side that is not writing, and the read that is started after it.\<close>

lemma sends_packet:
  assumes w: "writing_only [] s" and c: "same_tx (cs_conn s) c" and "is_open c" and "d \<noteq> []"
    and len: "length (accepted (cs_conn s)) + length d < 2 ^ 60"
  obtains c' where "Send no_callbacks True d c = Inr c'" and "tc_env c' = tc_env c" and "tc_recv_buffer c' = tc_recv_buffer c"
    and "reads c' = reads c" and "is_open c'" and "tx_inv c'" and "tx_step (cs_conn s) c'" and "pending c' = d"
    and "tc_async_writing c'" and "readable (tc_write_buffer c') = []"
proof -
  have i: "tx_inv (cs_conn s)" "\<not> tc_async_writing (cs_conn s)" "pending (cs_conn s) = []"
    using w sys_invD(1) [of s] by (simp_all add: writing_only_def)
  have e: "tc_async_writing c = tc_async_writing (cs_conn s)" "accepted c = accepted (cs_conn s)" using c by (simp_all add: same_tx_def)
  have "length (accepted c) + length d < 2 ^ 60" using e(2) len by simp
  from idle_send [OF same_tx_inv [OF c i(1)] assms(3) _ assms(4) this] i(2) e(1) obtain c' where
    c': "Send no_callbacks True d c = Inr c'" "tx_inv c'" "is_open c'" "tc_env c' = tc_env c"
      "tc_recv_buffer c' = tc_recv_buffer c" "reads c' = reads c" "tc_async_writing c'"
      "readable (tc_writing_buffer c') = d" "tc_write_buffer c' = tc_write_buffer c" by auto
  have wb: "readable (tc_write_buffer c') = []" using c'(9) c i(3) by (simp add: same_tx_def pending_def)
  have "tx_step (cs_conn s) c'"
    using tx_step_trans [OF same_tx_step [OF c]] cb_okD(2) [OF Send_quiet_ok same_tx_inv [OF c i(1)] c'(1)] by blast
  then show thesis using that [OF c'(1,4,5,6,3,2)] c'(7,8) wb by (simp add: pending_def)
qed

lemma AsyncRead_env: "tc_env (AsyncRead c) = tc_env c"
  by (simp_all add: AsyncRead_def outgoing_call_def)

lemma step_ends_reading:
  assumes "conn_client cbs" and "sys_inv s" and "enabled ev s"
    and "conn_step cbs ev s = Inr (s\<lparr>cs_conn := AsyncRead c, cs_reads_done := r\<rparr>)"
    and "is_open c" and "tc_async_writing c = (d \<noteq> [])" and "pending c = d" and "readable (tc_write_buffer c) = []"
  shows "writing_only d (s\<lparr>cs_conn := AsyncRead c, cs_reads_done := r\<rparr>)"
  using conn_client.conn_step_inv [OF assms(1-4)] assms(5-8) by (simp add: writing_only_def AsyncRead_same AsyncRead_env)

definition login_of :: "uint64 \<Rightarrow> packet" where
  "login_of m = Login (Login_new m ''test'' ''abc#123'')"

definition ack_zero :: packet where
  "ack_zero = LoginAck (LoginAck_new 0)"

lemma serialized_nonempty: "archive_ok ar \<Longrightarrow> cereal_serialize ar (Some p) \<noteq> []"
  using serialize_first [of ar p] by auto

lemma server_attaches:
  assumes new: "new_conn c" and op: "is_open c"
  obtains s' where "conn_step (simple_server_cbs ar ms) EvAttached (initial_sys c) = Inr s'"
    and "writing_only [] s'" and "expects s'" and "newly_sent (initial_sys c) s' = []"
    and "tc_env (cs_conn s') = (tc_env c)\<lparr>pk_log := pk_log (tc_env c) @ [LogConnected (tc_name c)]\<rparr>"
    and "accepted (cs_conn s') = []"
proof -
  let ?s = "initial_sys c" and ?cbs = "simple_server_cbs ar ms"
  let ?c = "log (LogConnected (tc_name c)) (outgoing_call (CallConnFn kConnected) (c\<lparr>tc_status := kConnected\<rparr>))"
  have step: "conn_step ?cbs EvAttached ?s = Inr (?s\<lparr>cs_conn := AsyncRead ?c, cs_reads_done := 0\<rparr>)"
    by (simp add: initial_sys_def OnAttachedToLoop_def Let_def simple_server_cbs_def TcpServerImpl_OnConnect_def
        SimpleServer_OnConnect_def IsConnected_def outgoing_call_def)
  note w = fresh_side [OF new op]
  have f: "is_open ?c" "tc_async_writing ?c = tc_async_writing c" "pending ?c = pending c" "tc_write_buffer ?c = tc_write_buffer c"
    "tc_recv_buffer ?c = tc_recv_buffer c" "reads ?c = reads c" "accepted ?c = accepted c"
    using op by (simp_all add: pending_def outgoing_call_def log_def is_open_def)
  have n: "tc_recv_buffer c = ByteBuffer_default" "tc_calls c = []" using new_conn_sel [OF new] by simp_all
  have "writing_only [] (?s\<lparr>cs_conn := AsyncRead ?c, cs_reads_done := 0\<rparr>)"
    by (rule step_ends_reading [OF simple_server.conn_client_axioms _ w(2) step]) (use w(1) f in \<open>simp_all add: writing_only_def initial_sys_def\<close>)
  then show thesis using that [OF step] f n
    by (simp add: expects_def AsyncRead_same AsyncRead_env newly_sent_def initial_sys_def outgoing_call_def)
qed

lemma client_attaches:
  assumes ar: "archive_ok ar" and new: "new_conn c" and op: "is_open c" and len: "length (cereal_serialize ar (Some (login_of mc))) \<le> 8192"
  obtains s' where "conn_step (simple_cbs ar mc ms ClientSide) EvAttached (initial_sys c) = Inr s'"
    and "writing_only (cereal_serialize ar (Some (login_of mc))) s'" and "expects s'" and "newly_sent (initial_sys c) s' = []"
    and "tc_env (cs_conn s') = (tc_env c)\<lparr>pk_log := pk_log (tc_env c) @ [LogConnected (tc_name c)], sm_conn := True\<rparr>"
proof -
  let ?s = "initial_sys c" and ?cbs = "simple_cbs ar mc ms ClientSide" and ?d = "cereal_serialize ar (Some (login_of mc))"
  let ?c = "with_env (\<lambda>e. e\<lparr>sm_conn := True\<rparr>)
    (log (LogConnected (tc_name c)) (outgoing_call (CallConnFn kConnected) (c\<lparr>tc_status := kConnected\<rparr>)))"
  note w = fresh_side [OF new op]
  have n: "tc_recv_buffer c = ByteBuffer_default" "tc_calls c = []" using new_conn_sel [OF new] by simp_all
  have f: "same_tx (cs_conn ?s) ?c" "is_open ?c" "tc_recv_buffer ?c = tc_recv_buffer c" "reads ?c = reads c"
    using op by (simp_all add: initial_sys_def same_tx_def outgoing_call_def log_def with_env_def is_open_def)
  have "length (accepted (cs_conn ?s)) + length ?d < 2 ^ 60" using len n(2) by (simp add: initial_sys_def)
  from sends_packet [OF w(1) f(1,2) serialized_nonempty [OF ar] this] obtain c' where
    c': "Send no_callbacks True ?d ?c = Inr c'" "tc_env c' = tc_env ?c" "tc_recv_buffer c' = tc_recv_buffer ?c"
      "reads c' = reads ?c" "is_open c'" "pending c' = ?d" "tc_async_writing c'" "readable (tc_write_buffer c') = []" by blast
  have p: "Login (Login_set_PassWord ''abc#123'' (Login_set_Name ''test'' (Login_default mc))) = login_of mc"
    by (simp add: Login_set_PassWord_def Login_set_Name_def Login_default_def Login_new_def login_of_def)
  have step: "conn_step ?cbs EvAttached ?s = Inr (?s\<lparr>cs_conn := AsyncRead c', cs_reads_done := 0\<rparr>)"
    using c'(1) by (simp add: initial_sys_def OnAttachedToLoop_def Let_def simple_cbs_def simple_client_cbs_def TcpClientImpl_OnConnect_def
        SimpleClient_OnConnect_def IsConnected_def SimpleClient_SendPkt_def TcpClientImpl_SendPkt_def p outgoing_call_def)
  have "writing_only ?d (?s\<lparr>cs_conn := AsyncRead c', cs_reads_done := 0\<rparr>)"
    by (rule step_ends_reading [OF simple_cbs_client _ w(2) step])
      (use w(1) c' serialized_nonempty [OF ar] in \<open>simp_all add: writing_only_def\<close>)
  then show thesis using that [OF step] c' f n
    by (simp add: expects_def AsyncRead_same AsyncRead_env newly_sent_def initial_sys_def outgoing_call_def)
qed

lemma server_reads_login:
  assumes ar: "archive_ok ar" and w: "writing_only [] s" and ex: "expects s" and none: "accepted (cs_conn s) = []"
    and len: "length (cereal_serialize ar (Some (login_of mc))) \<le> 8192" "length (cereal_serialize ar (Some ack_zero)) \<le> 8192"
  obtains s' where "conn_step (simple_cbs ar mc ms ServerSide) (EvReadDone (cereal_serialize ar (Some (login_of mc)))) s = Inr s'"
    and "writing_only (cereal_serialize ar (Some ack_zero)) s'" and "newly_sent s s' = []"
    and "tc_env (cs_conn s') = (tc_env (cs_conn s))\<lparr>pk_log := pk_log (tc_env (cs_conn s))
      @ [LogType PACKET_LOGIN, LogLogin ''test'' ''abc#123'']\<rparr>"
proof -
  let ?cbs = "simple_cbs ar mc ms ServerSide" and ?d = "cereal_serialize ar (Some ack_zero)" and ?f = "SimpleServer_OnRecvData ar ms"
  let ?ev = "EvReadDone (cereal_serialize ar (Some (login_of mc)))"
  have inv: "sys_inv s" using w by (simp add: writing_only_def)
  have fn: "msg_fn ?cbs = Some (TcpServerImpl_OnRecvData ar ?f)" "TcpServerImpl_OnRecvData ar ?f \<in> {TcpServerImpl_OnRecvData ar ?f, TcpClientImpl_OnRecvData ar ?f}"
    by (simp_all add: simple_cbs_def simple_server_cbs_def)
  from read_packet(1) [OF inv ex len(1) fn ar refl] obtain b where
    run: "conn_step ?cbs ?ev s = rbind (?f (Some (login_of mc)) ((outgoing_call CallMsgFn (cs_conn s))\<lparr>tc_recv_buffer := b\<rparr>))
      (\<lambda>c. Inr (s\<lparr>cs_conn := AsyncRead c, cs_reads_done := Suc (cs_reads_done s)\<rparr>))" by blast
  let ?c = "log (LogLogin ''test'' ''abc#123'') (log (LogType PACKET_LOGIN) ((outgoing_call CallMsgFn (cs_conn s))\<lparr>tc_recv_buffer := b\<rparr>))"
  have f: "same_tx (cs_conn s) ?c" "is_open ?c"
    using w by (simp_all add: writing_only_def same_tx_def outgoing_call_def log_def is_open_def)
  have "length (accepted (cs_conn s)) + length ?d < 2 ^ 60" using len none by simp
  from sends_packet [OF w f serialized_nonempty [OF ar, of "LoginAck (LoginAck_new 0)", folded ack_zero_def] this] obtain c' where
    c': "Send no_callbacks True ?d ?c = Inr c'" "tc_env c' = tc_env ?c" "is_open c'" "pending c' = ?d" "tc_async_writing c'"
      "readable (tc_write_buffer c') = []" by blast
  have p: "LoginAck (set_Ack (ucast OPERATE_SUCCESS) (LoginAck_default ms)) = ack_zero"
    by (simp add: set_Ack_def LoginAck_default_def LoginAck_new_def OPERATE_SUCCESS_def ack_zero_def)
  have "?f (Some (login_of mc)) ((outgoing_call CallMsgFn (cs_conn s))\<lparr>tc_recv_buffer := b\<rparr>) = Inr c'"
    using c'(1) p by (simp add: SimpleServer_OnRecvData_def SimpleServer_OnLogin_def TcpServerImpl_SendPkt_def login_of_def
        Login_new_def packet_types Login_Name_def Login_PassWord_def)
  with run have step: "conn_step ?cbs ?ev s = Inr (s\<lparr>cs_conn := AsyncRead c', cs_reads_done := Suc (cs_reads_done s)\<rparr>)" by simp
  have "writing_only ?d (s\<lparr>cs_conn := AsyncRead c', cs_reads_done := Suc (cs_reads_done s)\<rparr>)"
    by (rule step_ends_reading [OF simple_cbs_client inv expects_enabled [OF inv ex len(1)] step])
      (use c' serialized_nonempty [OF ar] in \<open>simp_all add: ack_zero_def\<close>)
  then show thesis using that [OF step] c'(2) by (simp add: AsyncRead_env newly_sent_def outgoing_call_def)
qed

lemma client_reads_ack:
  assumes ar: "archive_ok ar" and w: "writing_only [] s" and ex: "expects s"
    and len: "length (cereal_serialize ar (Some ack_zero)) \<le> 8192"
  obtains s' where "conn_step (simple_cbs ar mc ms ClientSide) (EvReadDone (cereal_serialize ar (Some ack_zero))) s = Inr s'"
    and "writing_only [] s'" and "newly_sent s s' = []"
    and "tc_env (cs_conn s') = async_wait (expires ((tc_env (cs_conn s))\<lparr>pk_log := pk_log (tc_env (cs_conn s))
      @ [LogType PACKET_LOGIN_ACK, LogLoginAck 0, LogLoginSuccess], sm_is_login := True\<rparr>))"
proof -
  let ?cbs = "simple_cbs ar mc ms ClientSide" and ?f = "SimpleClient_OnRecvData"
  let ?ev = "EvReadDone (cereal_serialize ar (Some ack_zero))"
  have inv: "sys_inv s" using w by (simp add: writing_only_def)
  have fn: "msg_fn ?cbs = Some (TcpClientImpl_OnRecvData ar ?f)" "TcpClientImpl_OnRecvData ar ?f \<in> {TcpServerImpl_OnRecvData ar ?f, TcpClientImpl_OnRecvData ar ?f}"
    by (simp_all add: simple_cbs_def simple_client_cbs_def)
  from read_packet(1) [OF inv ex len fn ar refl] obtain b where
    run: "conn_step ?cbs ?ev s = rbind (?f (Some ack_zero) ((outgoing_call CallMsgFn (cs_conn s))\<lparr>tc_recv_buffer := b\<rparr>))
      (\<lambda>c. Inr (s\<lparr>cs_conn := AsyncRead c, cs_reads_done := Suc (cs_reads_done s)\<rparr>))" by blast
  let ?c = "with_env (\<lambda>e. async_wait (expires (e\<lparr>sm_is_login := True\<rparr>))) (log LogLoginSuccess (log (LogLoginAck 0)
    (log (LogType PACKET_LOGIN_ACK) ((outgoing_call CallMsgFn (cs_conn s))\<lparr>tc_recv_buffer := b\<rparr>))))"
  have "?f (Some ack_zero) ((outgoing_call CallMsgFn (cs_conn s))\<lparr>tc_recv_buffer := b\<rparr>) = Inr ?c"
    by (simp add: SimpleClient_OnRecvData_def OnLoginAck_def ack_zero_def LoginAck_new_def packet_types Ack_def)
  with run have step: "conn_step ?cbs ?ev s = Inr (s\<lparr>cs_conn := AsyncRead ?c, cs_reads_done := Suc (cs_reads_done s)\<rparr>)" by simp
  have "same_tx (cs_conn s) ?c" "is_open ?c"
    using w by (simp_all add: writing_only_def same_tx_def outgoing_call_def log_def with_env_def is_open_def)
  then have "writing_only [] (s\<lparr>cs_conn := AsyncRead ?c, cs_reads_done := Suc (cs_reads_done s)\<rparr>)"
    by (intro step_ends_reading [OF simple_cbs_client inv expects_enabled [OF inv ex len] step])
      (use w in \<open>simp_all add: writing_only_def same_tx_def pending_def\<close>)
  then show thesis using that [OF step] by (simp add: AsyncRead_env newly_sent_def outgoing_call_def)
qed

text \<open>Both sides attached, and the login written: it is on the way to the server, which waits for it.\<close>

definition login_sent :: "archive \<Rightarrow> uint64 \<Rightarrow> (side \<Rightarrow> 'm simple_env_scheme tcpconn) \<Rightarrow> 'm simple_env_scheme conn_net \<Rightarrow> bool" where
  "login_sent ar mc c n \<longleftrightarrow> (\<forall>i. writing_only [] (cn_sys n i) \<and> expects (cn_sys n i)) \<and> accepted (conn_at n ServerSide) = []
     \<and> cn_wire n ServerSide = cereal_serialize ar (Some (login_of mc)) \<and> cn_wire n ClientSide = []
     \<and> tc_env (conn_at n ClientSide) = (tc_env (c ClientSide))\<lparr>pk_log := pk_log (tc_env (c ClientSide))
          @ [LogConnected (tc_name (c ClientSide))], sm_conn := True\<rparr>
     \<and> tc_env (conn_at n ServerSide) = (tc_env (c ServerSide))\<lparr>pk_log := pk_log (tc_env (c ServerSide))
          @ [LogConnected (tc_name (c ServerSide))]\<rparr>"

lemma login_is_sent:
  assumes ar: "archive_ok ar" and new: "\<And>i. new_conn (c i)" "\<And>i. is_open (c i)"
    and len: "length (cereal_serialize ar (Some (login_of mc))) \<le> 8192"
  obtains w n where "login_sent ar mc c n" and "\<And>evs. net_run (simple_cbs ar mc ms)
      ([(ClientSide, EvAttached), (ServerSide, EvAttached), (ClientSide, EvWriteDone w)] @ evs) (joined c) = net_run (simple_cbs ar mc ms) evs n"
proof -
  let ?cbs = "simple_cbs ar mc ms" and ?l = "cereal_serialize ar (Some (login_of mc))"
  obtain s1 where s1: "conn_step (?cbs ClientSide) EvAttached (initial_sys (c ClientSide)) = Inr s1" "writing_only ?l s1"
    "expects s1" "newly_sent (initial_sys (c ClientSide)) s1 = []"
    "tc_env (cs_conn s1) = (tc_env (c ClientSide))\<lparr>pk_log := pk_log (tc_env (c ClientSide)) @ [LogConnected (tc_name (c ClientSide))],
      sm_conn := True\<rparr>"
    by (rule client_attaches [OF ar new len])
  obtain s2 where s2: "conn_step (?cbs ServerSide) EvAttached (initial_sys (c ServerSide)) = Inr s2" "writing_only [] s2"
    "expects s2" "newly_sent (initial_sys (c ServerSide)) s2 = []" "accepted (cs_conn s2) = []"
    "tc_env (cs_conn s2) = (tc_env (c ServerSide))\<lparr>pk_log := pk_log (tc_env (c ServerSide)) @ [LogConnected (tc_name (c ServerSide))]\<rparr>"
    using server_attaches [where ar = ar and ms = ms, OF new] by (metis simple_cbs_sides(2))
  let ?w = "EvWriteDone (Size (tc_writing_buffer (cs_conn s1)))"
  obtain s3 where s3: "enabled ?w s1" "conn_step (?cbs ClientSide) ?w s1 = Inr s3" "writing_only [] s3" "newly_sent s1 s3 = ?l"
    "tc_env (cs_conn s3) = tc_env (cs_conn s1)" "expects s3 = expects s1"
    using writes_all [OF simple_cbs_client s1(2) serialized_nonempty [OF ar]] by metis
  note at = fresh_side(2) [OF new]
  let ?n1 = "net_moved ClientSide EvAttached s1 (joined c)"
  let ?n2 = "net_moved ServerSide EvAttached s2 ?n1"
  let ?n3 = "net_moved ClientSide ?w s3 ?n2"
  have "net_run ?cbs ([(ClientSide, EvAttached), (ServerSide, EvAttached), (ClientSide, ?w)] @ evs) (joined c) = net_run ?cbs evs ?n3" for evs
    using net_run_step [where cbs = ?cbs and i = ClientSide and ev = EvAttached and n = "joined c", OF _ _ _] at s1(1)
      net_run_step [where cbs = ?cbs and i = ServerSide and ev = EvAttached and n = ?n1] s2(1)
      net_run_step [where cbs = ?cbs and i = ClientSide and ev = ?w and n = ?n2] s3(1,2)
    by (simp add: net_moved_sel joined_def del: net_run.simps(2) enabled.simps conn_step.simps)
  moreover have "login_sent ar mc c ?n3"
    unfolding login_sent_def
  proof (intro conjI allI)
    show "writing_only [] (cn_sys ?n3 i)" "expects (cn_sys ?n3 i)" for i
      using s2(2,3) s3(3,6) s1(3) by (cases i; simp add: net_moved_sel)+
  qed (use s1(4,5) s2(4-6) s3(4,5) in \<open>simp_all add: net_moved_sel joined_def\<close>)
  ultimately show thesis by (rule that [rotated])
qed

text \<open>From there on, with reads that take one packet each; and with a read that takes less.\<close>

lemma login_is_answered:
  assumes ar: "archive_ok ar" and n: "login_sent ar mc c n"
    and len: "length (cereal_serialize ar (Some (login_of mc))) \<le> 8192" "length (cereal_serialize ar (Some ack_zero)) \<le> 8192"
  shows "\<exists>w n'. net_run (simple_cbs ar mc ms) [(ServerSide, EvReadDone (cereal_serialize ar (Some (login_of mc)))),
        (ServerSide, EvWriteDone w), (ClientSide, EvReadDone (cereal_serialize ar (Some ack_zero)))] n = Inr n'
      \<and> tc_env (conn_at n' ServerSide) = (tc_env (conn_at n ServerSide))\<lparr>pk_log := pk_log (tc_env (conn_at n ServerSide))
          @ [LogType PACKET_LOGIN, LogLogin ''test'' ''abc#123'']\<rparr>
      \<and> tc_env (conn_at n' ClientSide) = async_wait (expires ((tc_env (conn_at n ClientSide))\<lparr>pk_log := pk_log (tc_env (conn_at n ClientSide))
          @ [LogType PACKET_LOGIN_ACK, LogLoginAck 0, LogLoginSuccess], sm_is_login := True\<rparr>))
      \<and> (\<forall>i. cn_wire n' i = [] \<and> pending (conn_at n' i) = [])"
proof -
  let ?cbs = "simple_cbs ar mc ms" and ?l = "cereal_serialize ar (Some (login_of mc))" and ?a = "cereal_serialize ar (Some ack_zero)"
  have ne: "?a \<noteq> []" using serialized_nonempty [OF ar] by (simp add: ack_zero_def)
  let ?c = "cn_sys n ClientSide" and ?s = "cn_sys n ServerSide"
  have c0: "writing_only [] ?c" "expects ?c" and s0: "writing_only [] ?s" "expects ?s" "accepted (cs_conn ?s) = []"
    and wires: "cn_wire n ServerSide = ?l" "cn_wire n ClientSide = []" using n by (simp_all add: login_sent_def)
  have inv: "sys_inv ?c" "sys_inv ?s" using c0 s0 by (simp_all add: writing_only_def)
  obtain s1 where s1: "conn_step (?cbs ServerSide) (EvReadDone ?l) ?s = Inr s1" "writing_only ?a s1" "newly_sent ?s s1 = []"
    "tc_env (cs_conn s1) = (tc_env (cs_conn ?s))\<lparr>pk_log := pk_log (tc_env (cs_conn ?s)) @ [LogType PACKET_LOGIN, LogLogin ''test'' ''abc#123'']\<rparr>"
    by (rule server_reads_login [OF ar s0 len])
  let ?w = "EvWriteDone (Size (tc_writing_buffer (cs_conn s1)))"
  obtain s2 where s2: "enabled ?w s1" "conn_step (?cbs ServerSide) ?w s1 = Inr s2" "writing_only [] s2" "newly_sent s1 s2 = ?a"
    "tc_env (cs_conn s2) = tc_env (cs_conn s1)"
    using writes_all [OF simple_cbs_client s1(2) ne] by metis
  obtain s3 where s3: "conn_step (?cbs ClientSide) (EvReadDone ?a) ?c = Inr s3" "writing_only [] s3" "newly_sent ?c s3 = []"
    "tc_env (cs_conn s3) = async_wait (expires ((tc_env (cs_conn ?c))\<lparr>pk_log := pk_log (tc_env (cs_conn ?c))
      @ [LogType PACKET_LOGIN_ACK, LogLoginAck 0, LogLoginSuccess], sm_is_login := True\<rparr>))"
    by (rule client_reads_ack [OF ar c0 len(2)])
  let ?n1 = "net_moved ServerSide (EvReadDone ?l) s1 n"
  let ?n2 = "net_moved ServerSide ?w s2 ?n1"
  let ?n3 = "net_moved ClientSide (EvReadDone ?a) s3 ?n2"
  note en = expects_enabled [OF inv(2) s0(2) len(1)] expects_enabled [OF inv(1) c0(2) len(2)]
  have "net_run ?cbs [(ServerSide, EvReadDone ?l), (ServerSide, ?w), (ClientSide, EvReadDone ?a)] n = Inr ?n3"
    using net_run_step [where cbs = ?cbs and i = ServerSide and ev = "EvReadDone ?l" and n = n] en(1) wires s1(1,3)
      net_run_step [where cbs = ?cbs and i = ServerSide and ev = ?w and n = ?n1] s2(1,2,4)
      net_run_step [where cbs = ?cbs and i = ClientSide and ev = "EvReadDone ?a" and n = ?n2] en(2) s3(1)
    by (simp add: net_moved_sel del: net_run.simps(2) enabled.simps conn_step.simps)
  moreover have "cn_wire ?n3 i = [] \<and> pending (conn_at ?n3 i) = []" for i
    using wires s1(3) s2(3,4) s3(2,3) by (cases i) (simp_all add: net_moved_sel writing_only_def)
  moreover have "tc_env (conn_at ?n3 ClientSide) = tc_env (cs_conn s3)" "tc_env (conn_at ?n3 ServerSide) = tc_env (cs_conn s2)"
    by (simp_all add: net_moved_sel)
  ultimately show ?thesis using s1(4) s2(5) s3(4)
    by (intro exI [of _ "Size (tc_writing_buffer (cs_conn s1))"] exI [of _ ?n3]) (simp del: net_run.simps)
qed

lemma login_in_parts:
  assumes ar: "archive_ok ar" and n: "login_sent ar mc c n" and len: "length (cereal_serialize ar (Some (login_of mc))) \<le> 8192"
    and k: "0 < k" "k < length (cereal_serialize ar (Some (login_of mc)))"
  shows "net_run (simple_cbs ar mc ms) [(ServerSide, EvReadDone (take k (cereal_serialize ar (Some (login_of mc)))))] n = Inl ArchiveError"
proof -
  let ?l = "cereal_serialize ar (Some (login_of mc))" and ?f = "SimpleServer_OnRecvData ar ms" and ?s = "cn_sys n ServerSide"
  have s: "sys_inv ?s" "expects ?s" and wire: "cn_wire n ServerSide = ?l" using n by (simp_all add: login_sent_def writing_only_def)
  have fit: "length (take k ?l) \<le> 8192" using len by simp
  have fn: "msg_fn (simple_cbs ar mc ms ServerSide) = Some (TcpServerImpl_OnRecvData ar ?f)"
    "TcpServerImpl_OnRecvData ar ?f \<in> {TcpServerImpl_OnRecvData ar ?f, TcpClientImpl_OnRecvData ar ?f}"
    by (simp_all add: simple_cbs_def simple_server_cbs_def)
  from read_packet(2) [OF s fit fn ar k refl] expects_enabled [OF s fit] wire
  show ?thesis by (simp add: net_enabled_def net_step_def take_is_prefix del: enabled.simps conn_step.simps)
qed

text \<open>C28. The two packet programs, from end to end. From a fresh pair of connections, with a serialization that fits a
  receive buffer of 8 KiB: when the login and its answer each arrive in one read, the client is logged in with one
  keep-alive armed, both sides have logged exactly that, and nothing is left on the way. When the network
  hands the server any proper part of the login, its handler throws.\<close>

theorem login_session:
  fixes c :: "side \<Rightarrow> 'm simple_env_scheme tcpconn"
  assumes ar: "archive_ok ar" and new: "\<And>i. new_conn (c i)" and op: "\<And>i. is_open (c i)"
    and "length (cereal_serialize ar (Some (login_of mc))) \<le> 8192" and "length (cereal_serialize ar (Some ack_zero)) \<le> 8192"
  shows "\<exists>w1 w2 n. net_run (simple_cbs ar mc ms)
        [(ClientSide, EvAttached), (ServerSide, EvAttached), (ClientSide, EvWriteDone w1),
         (ServerSide, EvReadDone (cereal_serialize ar (Some (login_of mc)))), (ServerSide, EvWriteDone w2),
         (ClientSide, EvReadDone (cereal_serialize ar (Some ack_zero)))] (joined c) = Inr n
      \<and> sm_is_login (tc_env (conn_at n ClientSide)) \<and> sm_armed (tc_env (conn_at n ClientSide)) = 1
      \<and> pk_log (tc_env (conn_at n ClientSide)) = pk_log (tc_env (c ClientSide))
          @ [LogConnected (tc_name (c ClientSide)), LogType PACKET_LOGIN_ACK, LogLoginAck 0, LogLoginSuccess]
      \<and> pk_log (tc_env (conn_at n ServerSide)) = pk_log (tc_env (c ServerSide))
          @ [LogConnected (tc_name (c ServerSide)), LogType PACKET_LOGIN, LogLogin ''test'' ''abc#123'']
      \<and> (\<forall>i. cn_wire n i = [] \<and> pending (conn_at n i) = [])
      \<and> (\<forall>k. 0 < k \<and> k < length (cereal_serialize ar (Some (login_of mc))) \<longrightarrow> net_run (simple_cbs ar mc ms)
          [(ClientSide, EvAttached), (ServerSide, EvAttached), (ClientSide, EvWriteDone w1),
           (ServerSide, EvReadDone (take k (cereal_serialize ar (Some (login_of mc)))))] (joined c) = Inl ArchiveError)"
proof -
  let ?l = "cereal_serialize ar (Some (login_of mc))"
  obtain w1 n1 where n1: "login_sent ar mc c n1" and run: "\<And>evs. net_run (simple_cbs ar mc ms)
      ([(ClientSide, EvAttached), (ServerSide, EvAttached), (ClientSide, EvWriteDone w1)] @ evs) (joined c) = net_run (simple_cbs ar mc ms) evs n1"
    by (rule login_is_sent [where c = c and ms = ms, OF ar new op assms(4)]) blast
  obtain w2 n where n: "net_run (simple_cbs ar mc ms) [(ServerSide, EvReadDone ?l), (ServerSide, EvWriteDone w2),
        (ClientSide, EvReadDone (cereal_serialize ar (Some ack_zero)))] n1 = Inr n"
    "tc_env (conn_at n ServerSide) = (tc_env (conn_at n1 ServerSide))\<lparr>pk_log := pk_log (tc_env (conn_at n1 ServerSide))
          @ [LogType PACKET_LOGIN, LogLogin ''test'' ''abc#123'']\<rparr>"
    "tc_env (conn_at n ClientSide) = async_wait (expires ((tc_env (conn_at n1 ClientSide))\<lparr>pk_log := pk_log (tc_env (conn_at n1 ClientSide))
          @ [LogType PACKET_LOGIN_ACK, LogLoginAck 0, LogLoginSuccess], sm_is_login := True\<rparr>))"
    "\<forall>i. cn_wire n i = [] \<and> pending (conn_at n i) = []"
    using login_is_answered [OF ar n1 assms(4,5)] by blast
  have parts: "net_run (simple_cbs ar mc ms) [(ServerSide, EvReadDone (take k ?l))] n1 = Inl ArchiveError" if "0 < k" "k < length ?l" for k
    by (rule login_in_parts [OF ar n1 assms(4) that])
  show ?thesis
    using run [of "[(ServerSide, EvReadDone ?l), (ServerSide, EvWriteDone w2), (ClientSide, EvReadDone (cereal_serialize ar (Some ack_zero)))]"]
      n n1 run [of "[(ServerSide, EvReadDone (take k ?l))]" for k] parts
    by (intro exI [of _ w1] exI [of _ w2] exI [of _ n])
      (simp add: login_sent_def async_wait_def expires_def del: net_run.simps)
qed

theorem login_session_witness:
  "\<exists>(c :: side \<Rightarrow> simple_env tcpconn) w1 w2 n. net_run (simple_cbs marked_archive 7 0)
      [(ClientSide, EvAttached), (ServerSide, EvAttached), (ClientSide, EvWriteDone w1),
       (ServerSide, EvReadDone (cereal_serialize marked_archive (Some (login_of 7)))), (ServerSide, EvWriteDone w2),
       (ClientSide, EvReadDone (cereal_serialize marked_archive (Some ack_zero)))] (joined c) = Inr n
    \<and> sm_is_login (tc_env (conn_at n ClientSide))
    \<and> net_run (simple_cbs marked_archive 7 0)
      [(ClientSide, EvAttached), (ServerSide, EvAttached), (ClientSide, EvWriteDone w1),
       (ServerSide, EvReadDone (take 10 (cereal_serialize marked_archive (Some (login_of 7)))))] (joined c) = Inl ArchiveError"
proof -
  let ?w = "\<lparr>oe_removed = 0, pk_log = [], sm_is_login = False, sm_conn = False, sm_armed = 0, sm_ended = 0\<rparr> :: simple_env"
  obtain d :: "simple_env tcpconn" where d: "TCPConn_new 0 demo_socket ''x'' ?w = Inr d" "is_open d"
    by (rule fresh_conn [where n = "''x''" and w = ?w])
  let ?c = "\<lambda>i :: side. d" and ?l = "cereal_serialize marked_archive (Some (login_of 7))"
  have l: "length ?l = 33"
    using marked_lengths(2) [of "''test''" "''abc#123''"] by (simp add: login_of_def)
  have a: "length (cereal_serialize marked_archive (Some ack_zero)) \<le> 8192"
    by (simp add: ack_zero_def marked_lengths)
  have len: "length ?l \<le> 8192" using l by simp
  from login_session [where c = ?c and ms = 0, OF marked_archive_ok new_conn_incoming [OF d(1)] d(2) len a] obtain w1 w2 n where
    "net_run (simple_cbs marked_archive 7 0) [(ClientSide, EvAttached), (ServerSide, EvAttached), (ClientSide, EvWriteDone w1),
       (ServerSide, EvReadDone ?l), (ServerSide, EvWriteDone w2),
       (ClientSide, EvReadDone (cereal_serialize marked_archive (Some ack_zero)))] (joined ?c) = Inr n"
    "sm_is_login (tc_env (conn_at n ClientSide))"
    and part: "\<And>k. 0 < k \<Longrightarrow> k < length ?l \<Longrightarrow> net_run (simple_cbs marked_archive 7 0)
      [(ClientSide, EvAttached), (ServerSide, EvAttached), (ClientSide, EvWriteDone w1),
       (ServerSide, EvReadDone (take k ?l))] (joined ?c) = Inl ArchiveError"
    by blast
  moreover have "(0 :: nat) < 10" "10 < length ?l" using l by simp_all
  note part [OF this]
  ultimately show ?thesis by blast
qed

end
