(* ===== verification/Echo_Pair.thy ===== *)
theory Echo_Pair
  imports Conn_Pair
begin

text \<open>
  The two echo programs on the two ends of one stream: the client starts with a message, and each
  answers what it reads with a message of its own. As long as neither side fails or closes, they go on.
\<close>

section \<open>The programs on both sides\<close>

fun echo_cbs :: "side \<Rightarrow> 'm app_env_scheme conn_callbacks" where
  "echo_cbs ClientSide = echo_client_cbs (Some owner_close_fn)"
| "echo_cbs ServerSide = echo_server_cbs (Some owner_close_fn)"

fun hello :: "side \<Rightarrow> byte list" where
  "hello ClientSide = string_bytes ''client say hello!''"
| "hello ServerSide = string_bytes ''server say hello!''"

lemma length_hello [simp]: "length (hello i) = 17"
  by (cases i) (simp_all add: string_bytes_def)

lemma hello_not_empty [simp]: "hello i \<noteq> []"
  using length_hello [of i] by fastforce

declare hello.simps [simp del]

text \<open>The bytes a program has printed as received.\<close>

fun received_text :: "console \<Rightarrow> byte list" where
  "received_text (PrintRecv m) = m"
| "received_text _ = []"

definition printed :: "'m app_env_scheme tcpconn \<Rightarrow> byte list" where
  "printed c = concat (map received_text (ap_console (tc_env c)))"

text \<open>What happens as long as nothing fails and nobody closes.\<close>

fun undisturbed :: "conn_event \<Rightarrow> bool" where
  "undisturbed EvAttached = True"
| "undisturbed (EvWriteDone n) = True"
| "undisturbed (EvReadDone d) = (d \<noteq> [])"
| "undisturbed _ = False"

inductive talk :: "'m app_env_scheme conn_net \<Rightarrow> bool" where
  begins: "(\<And>i. new_conn (c i) \<and> is_open (c i) \<and> ap_console (tc_env (c i)) = []) \<Longrightarrow> talk (joined c)"
| goes_on: "talk n \<Longrightarrow> undisturbed ev \<Longrightarrow> net_enabled i ev n \<Longrightarrow> net_step echo_cbs i ev n = Inr n' \<Longrightarrow> talk n'"

lemma talk_reachable: "talk n \<Longrightarrow> net_reachable echo_cbs n"
proof (induction rule: talk.induct)
  case (begins c)
  then show ?case by (intro net_reachable.joined) blast
next
  case (goes_on n ev i n')
  then show ?case using net_reachable.moved by blast
qed

lemma echo_cbs_client: "conn_client (echo_cbs i)"
proof -
  have "cb_ok owner_close_fn" unfolding owner_close_fn_def [abs_def] by (rule cb_ok_same_tx) simp_all
  then show ?thesis by (cases i) (auto intro!: echo_client_client echo_server_client)
qed

lemma talk_sys_inv: "talk n \<Longrightarrow> sys_inv (cn_sys n i)"
  using conn_client.reachable_inv [OF echo_cbs_client net_reachable_sides [OF talk_reachable]] .

section \<open>The steps of a side\<close>

text \<open>The receive buffer between two reads: empty, at its first size.\<close>

definition clean :: "byte list \<Rightarrow> bytebuffer" where
  "clean st = \<lparr>bb_wpos = 0, bb_rpos = 0, bb_storage = st\<rparr>"

definition side_ok :: "side \<Rightarrow> 'm app_env_scheme conn_sys \<Rightarrow> byte list \<Rightarrow> bool" where
  "side_ok i s got \<longleftrightarrow> is_open (cs_conn s) \<and> (\<exists>st. tc_recv_buffer (cs_conn s) = clean st \<and> length st = 8192)
     \<and> (\<exists>k. accepted (cs_conn s) = concat (replicate k (hello i))) \<and> printed (cs_conn s) = got
     \<and> (if reads (cs_conn s) = [] then cs_reads_done s = 0 else length (reads (cs_conn s)) = Suc (cs_reads_done s))"

lemma printed_print [simp]: "printed (print x c) = printed c @ received_text x"
  by (simp add: printed_def print_def)

lemma printed_frame [simp]:
  "printed (outgoing_call x c) = printed c" "printed (c\<lparr>tc_recv_buffer := b\<rparr>) = printed c"
  "printed (c\<lparr>tc_status := st\<rparr>) = printed c" "printed (AsyncRead c) = printed c"
  by (simp_all add: printed_def AsyncRead_def)

lemma print_calls [simp]: "tc_calls (print x c) = tc_calls c" "is_open (print x c) = is_open c"
  by (simp_all add: print_def)

lemma pending_frame [simp]:
  "pending (print x c) = pending c" "pending (outgoing_call y c) = pending c" "pending (c\<lparr>tc_status := st\<rparr>) = pending c"
  by (simp_all add: pending_def print_def)

text \<open>Attaching: the client begins.\<close>

lemma attach_step:
  "conn_step (echo_cbs i) EvAttached s =
     (let c = print (PrintAccepted (tc_name (cs_conn s))) (outgoing_call (CallConnFn kConnected) ((cs_conn s)\<lparr>tc_status := kConnected\<rparr>))
      in rbind (if i = ClientSide then Send no_callbacks True (hello i) c else Inr c) (\<lambda>c. Inr (s\<lparr>cs_conn := AsyncRead c\<rparr>)))"
  by (cases i) (simp_all add: OnAttachedToLoop_def Let_def echo_client_cbs_def echo_server_cbs_def SetCloseCallback_def
      SetConnCallback_def SetMessageCallback_def no_callbacks_def client_OnConnection_def server_OnConnection_def
      IsConnected_def rbind_assoc hello.simps)

text \<open>A read: everything is printed and consumed, and answered.\<close>

lemma consume_step:
  assumes "length st = 8192" and "length d \<le> 8192" and "take (length d) st = d"
  shows "print_and_consume (c\<lparr>tc_recv_buffer := (clean st)\<lparr>bb_wpos := of_nat (length d)\<rparr>\<rparr>)
    = Inr ((print (PrintRecv d) c)\<lparr>tc_recv_buffer := clean st\<rparr>)"
proof -
  have n: "unat (of_nat (length d) :: size_t) = length d" using assms(2) by (intro unat_of_size) simp
  have "Normalize ((clean st)\<lparr>bb_rpos := of_nat (length d), bb_wpos := of_nat (length d)\<rparr>) = Inr (clean st)"
  proof (cases "d = []")
    case False
    then have "(0 :: size_t) < of_nat (length d)" using n by (simp add: word_less_nat_alt)
    then show ?thesis by (simp add: Normalize_def clean_def)
  qed (simp add: Normalize_def clean_def)
  then show ?thesis using assms n
    by (simp add: print_and_consume_def Let_def mem_read_def Data_def Size_def ReadBytes_def print_def clean_def)
qed

lemma read_step:
  assumes inv: "sys_inv s" and ok: "side_ok i s got" and en: "enabled (EvReadDone d) s"
  obtains st where "length st = 8192"
    and "conn_step (echo_cbs i) (EvReadDone d) s =
      rbind (Send no_callbacks True (hello i)
        ((print (PrintRecv d) (outgoing_call CallMsgFn (cs_conn s)))\<lparr>tc_recv_buffer := clean st\<rparr>))
      (\<lambda>c. Inr (s\<lparr>cs_conn := AsyncRead c, cs_reads_done := Suc (cs_reads_done s)\<rparr>))"
proof -
  let ?c = "cs_conn s"
  obtain st0 where b: "tc_recv_buffer ?c = clean st0" "length st0 = 8192" using ok by (auto simp: side_ok_def)
  have req: "last (reads ?c) = (WriteBegin (clean st0), ValidSize (clean st0))"
    using sys_invD(7) [OF inv] en b(1) by simp
  have valid: "WriteBegin (clean st0) = 0" "unat (ValidSize (clean st0)) = 8192"
    using b(2) by (simp_all add: WriteBegin_def ValidSize_def Capacity_def Data_def clean_def)
  have len: "length d \<le> 8192" using en req valid by simp
  define st where "st = d @ drop (length d) st0"
  have st: "length st = 8192" "take (length d) st = d" using len b(2) by (simp_all add: st_def)
  have out: "outgoing_call CallMsgFn (?c\<lparr>tc_recv_buffer := b\<rparr>) = (outgoing_call CallMsgFn ?c)\<lparr>tc_recv_buffer := b\<rparr>" for b
    by (simp add: outgoing_call_def)
  have "place_received d ?c = Inr (?c\<lparr>tc_recv_buffer := clean st\<rparr>)"
    using len b req valid by (simp add: place_received_def mem_write_def st_def clean_def)
  moreover have "WriteBytes (of_nat (length d)) (clean st) = (clean st)\<lparr>bb_wpos := of_nat (length d)\<rparr>"
    by (simp add: WriteBytes_def clean_def)
  ultimately have "conn_step (echo_cbs i) (EvReadDone d) s =
      rbind (Send no_callbacks True (hello i)
        ((print (PrintRecv d) (outgoing_call CallMsgFn ?c))\<lparr>tc_recv_buffer := clean st\<rparr>))
      (\<lambda>c. Inr (s\<lparr>cs_conn := AsyncRead c, cs_reads_done := Suc (cs_reads_done s)\<rparr>))"
    using consume_step [OF st(1) len st(2), of "outgoing_call CallMsgFn ?c"]
    by (cases i) (simp_all add: HandleRead_def Let_def echo_client_cbs_def echo_server_cbs_def SetCloseCallback_def
      SetConnCallback_def SetMessageCallback_def no_callbacks_def client_OnMessage_def server_OnMessage_def rbind_assoc out hello.simps)
  then show thesis by (rule that [OF st(1)])
qed

section \<open>The invariant of the conversation\<close>

text \<open>What a message sent from a callback does.\<close>

lemma hello_sent:
  assumes "tx_inv c" and "is_open c" and "Send no_callbacks True (hello i) c = Inr c'"
    and "accepted c = concat (replicate k (hello i))"
  shows "is_open c'" "tc_recv_buffer c' = tc_recv_buffer c" "reads c' = reads c" "printed c' = printed c"
    "accepted c' = concat (replicate (Suc k) (hello i))" "pending c' = pending c @ hello i"
proof -
  note f = quiet_send_frame [OF assms(3,2)]
  show "is_open c'" "tc_recv_buffer c' = tc_recv_buffer c" "reads c' = reads c" "printed c' = printed c"
    using f by (simp_all add: printed_def)
  have "replicate (Suc k) (hello i) = replicate k (hello i) @ [hello i]" by (simp add: replicate_append_same)
  then show "accepted c' = concat (replicate (Suc k) (hello i))" using f assms(4) by simp
  show "pending c' = pending c @ hello i"
    using cb_okD(2) [OF Send_quiet_ok assms(1,3)] f by (auto simp: tx_step_def)
qed

lemma AsyncRead_sel:
  "accepted (AsyncRead c) = accepted c" "pending (AsyncRead c) = pending c" "is_open (AsyncRead c) = is_open c"
  "tc_recv_buffer (AsyncRead c) = tc_recv_buffer c" "length (reads (AsyncRead c)) = Suc (length (reads c))"
  by (simp_all add: AsyncRead_def pending_def)

lemma attached_ok:
  assumes "sys_inv s" and ok: "side_ok i s got" and "enabled EvAttached s" and run: "conn_step (echo_cbs i) EvAttached s = Inr s'"
  shows "side_ok i s' got" and "i = ClientSide \<Longrightarrow> pending (cs_conn s') \<noteq> []"
    and "pending (cs_conn s) \<noteq> [] \<Longrightarrow> pending (cs_conn s') \<noteq> []" and "newly_sent s s' = []"
proof -
  let ?c = "print (PrintAccepted (tc_name (cs_conn s))) (outgoing_call (CallConnFn kConnected) ((cs_conn s)\<lparr>tc_status := kConnected\<rparr>))"
  have r: "reads (cs_conn s) = []" "cs_reads_done s = 0" using assms(3) ok by (simp_all add: side_ok_def)
  have same: "same_tx (cs_conn s) ?c"
    by (intro same_tx_trans [OF same_tx_trans [OF same_tx_status same_tx_log(1)] same_tx_print])
  have c: "tx_inv ?c" "is_open ?c" "pending ?c = pending (cs_conn s)" "accepted ?c = accepted (cs_conn s)"
    "tc_recv_buffer ?c = tc_recv_buffer (cs_conn s)" "printed ?c = got" "reads ?c = []"
    using same_tx_inv [OF same sys_invD(1) [OF assms(1)]] ok r by (simp_all add: side_ok_def)
  obtain k where k: "accepted (cs_conn s) = concat (replicate k (hello i))" using ok by (auto simp: side_ok_def)
  obtain c1 where c1: "(if i = ClientSide then Send no_callbacks True (hello i) ?c else Inr ?c) = Inr c1"
    and s': "s' = s\<lparr>cs_conn := AsyncRead c1\<rparr>" using trans [OF attach_step [symmetric] run] by (auto simp: Let_def)
  have "is_open c1 \<and> tc_recv_buffer c1 = tc_recv_buffer ?c \<and> reads c1 = [] \<and> printed c1 = got
    \<and> (\<exists>k. accepted c1 = concat (replicate k (hello i)))
    \<and> pending c1 = pending (cs_conn s) @ (if i = ClientSide then hello i else [])"
  proof (cases "i = ClientSide")
    case True
    then have "Send no_callbacks True (hello i) ?c = Inr c1" using c1 by simp
    from hello_sent [OF c(1,2) this, of k] show ?thesis
      using True c k by (intro conjI exI [of _ "Suc k"]) (simp_all del: replicate.simps)
  next
    case False
    then show ?thesis using c1 c k by auto
  qed
  then show "side_ok i s' got" "i = ClientSide \<Longrightarrow> pending (cs_conn s') \<noteq> []"
    "pending (cs_conn s) \<noteq> [] \<Longrightarrow> pending (cs_conn s') \<noteq> []" "newly_sent s s' = []"
    using ok c(5) r by (auto simp: side_ok_def s' AsyncRead_sel newly_sent_def)
qed

lemma read_ok:
  assumes inv: "sys_inv s" and ok: "side_ok i s got" and en: "enabled (EvReadDone d) s"
    and run: "conn_step (echo_cbs i) (EvReadDone d) s = Inr s'"
  shows "side_ok i s' (got @ d)" and "pending (cs_conn s') \<noteq> []"
proof -
  let ?c = "cs_conn s"
  obtain st where st: "length st = 8192" and eq: "conn_step (echo_cbs i) (EvReadDone d) s =
      rbind (Send no_callbacks True (hello i)
        ((print (PrintRecv d) (outgoing_call CallMsgFn ?c))\<lparr>tc_recv_buffer := clean st\<rparr>))
      (\<lambda>c. Inr (s\<lparr>cs_conn := AsyncRead c, cs_reads_done := Suc (cs_reads_done s)\<rparr>))"
    by (rule read_step [OF inv ok en])
  from trans [OF eq [symmetric] run] obtain c1 where
    c1: "Send no_callbacks True (hello i) ((print (PrintRecv d) (outgoing_call CallMsgFn ?c))\<lparr>tc_recv_buffer := clean st\<rparr>) = Inr c1"
    and s': "s' = s\<lparr>cs_conn := AsyncRead c1, cs_reads_done := Suc (cs_reads_done s)\<rparr>" by auto
  let ?d = "(print (PrintRecv d) (outgoing_call CallMsgFn ?c))\<lparr>tc_recv_buffer := clean st\<rparr>"
  have same: "same_tx ?c ?d"
    by (intro same_tx_trans [OF same_tx_trans [OF same_tx_log(2) same_tx_print] same_tx_recv])
  obtain k where k: "accepted ?c = concat (replicate k (hello i))" using ok by (auto simp: side_ok_def)
  have d: "tx_inv ?d" "is_open ?d" "accepted ?d = concat (replicate k (hello i))"
    using same_tx_inv [OF same sys_invD(1) [OF inv]] ok k by (simp_all add: side_ok_def)
  note h = hello_sent [OF d(1,2) c1 d(3)]
  have "reads ?c \<noteq> []" using en by auto
  then have "length (reads c1) = Suc (cs_reads_done s)" using h(3) ok by (simp add: side_ok_def)
  then have "reads (AsyncRead c1) \<noteq> []" "length (reads (AsyncRead c1)) = Suc (Suc (cs_reads_done s))"
    using AsyncRead_sel(5) [of c1] by auto
  moreover have "printed c1 = got @ d" using h(4) ok by (simp add: side_ok_def)
  ultimately show "side_ok i s' (got @ d)"
    using st h(1,2) h(5) by (auto simp: side_ok_def s' AsyncRead_sel simp del: replicate.simps)
  show "pending (cs_conn s') \<noteq> []" using h(6) by (simp add: s' AsyncRead_sel)
qed

lemma written_ok:
  assumes inv: "sys_inv s" and ok: "side_ok i s got" and en: "enabled (EvWriteDone n) s"
    and run: "conn_step (echo_cbs i) (EvWriteDone n) s = Inr s'"
  shows "side_ok i s' got" and "pending (cs_conn s) = newly_sent s s' @ pending (cs_conn s')"
    and "reads (cs_conn s') = reads (cs_conn s)"
proof -
  let ?c = "cs_conn s"
  have aw: "tc_async_writing ?c" using en sys_invD(3) [OF inv] by (cases "tc_async_writing ?c") auto
  note b = bytes_sent_ok [OF sys_invD(1) [OF inv] aw]
  have n: "n \<le> snd (last (writes ?c))" using en by simp
  from run b(2) [OF n] obtain c where c: "HandleWrite (echo_cbs i) True None n ?c = Inr c"
    and s': "s' = s\<lparr>cs_conn := c, cs_delivered := cs_delivered s @ take (unat n) (pending ?c),
      cs_writes_done := Suc (cs_writes_done s)\<rparr>" by auto
  note h = HandleWrite_done [OF sys_invD(1) [OF inv] aw b(1) [OF n] c]
  have "tc_env c = tc_env ?c"
    using c by (auto simp: HandleWrite_def Let_def AsyncWrite_def swap_buffers_def case_prod_unfold split: if_splits)
  then have "printed c = printed ?c" by (simp add: printed_def)
  then show "side_ok i s' got" using h ok by (simp add: side_ok_def s')
  show "pending (cs_conn s) = newly_sent s s' @ pending (cs_conn s')" using h(3) by (simp add: s' newly_sent_def)
  show "reads (cs_conn s') = reads (cs_conn s)" using h(4) by (simp add: s')
qed

text \<open>Something is on its way, from the time the client is attached.\<close>

definition under_way :: "'m app_env_scheme conn_net \<Rightarrow> bool" where
  "under_way n \<longleftrightarrow> (\<exists>i. cn_wire n i \<noteq> [] \<or> pending (conn_at n i) \<noteq> [])"

lemma under_wayI: "cn_wire n i \<noteq> [] \<Longrightarrow> under_way n" "pending (conn_at n i) \<noteq> [] \<Longrightarrow> under_way n"
  by (auto simp: under_way_def)

lemma talk_sides:
  assumes "talk n"
  shows "side_ok i (cn_sys n i) (cn_got n i)" and "reads (conn_at n ClientSide) \<noteq> [] \<Longrightarrow> under_way n"
proof -
  have "(\<forall>i. side_ok i (cn_sys n i) (cn_got n i)) \<and> (reads (conn_at n ClientSide) \<noteq> [] \<longrightarrow> under_way n)"
    using assms
  proof (induction rule: talk.induct)
    case (begins c)
    have "side_ok i (initial_sys (c i)) [] \<and> reads (c i) = []" for i
    proof -
      have "is_open (c i)" "tc_recv_buffer (c i) = clean (replicate 8192 0)" "tc_calls (c i) = []" "printed (c i) = []"
        using begins [of i] new_conn_sel [of "c i"] by (simp_all add: ByteBuffer_default_def clean_def printed_def)
      then show ?thesis by (auto simp: side_ok_def initial_sys_def intro: exI [of _ 0])
    qed
    then show ?case by (simp add: joined_def initial_sys_def)
  next
    case (goes_on n ev i n')
    from goes_on(4) obtain s' where run: "conn_step (echo_cbs i) ev (cn_sys n i) = Inr s'" and n': "n' = net_moved i ev s' n"
      by (rule net_step_Inr)
    note inv = talk_sys_inv [OF goes_on(1), of i]
    have ok: "side_ok j (cn_sys n j) (cn_got n j)" for j using goes_on(5) by blast
    have motion: "reads (conn_at n ClientSide) \<noteq> [] \<longrightarrow> under_way n" using goes_on(5) by blast
    have en: "enabled ev (cn_sys n i)" "prefix (taken ev) (cn_wire n i)"
      using goes_on(3) by (simp_all add: net_enabled_def)
    have peer: "cn_sys n' (peer_of i) = cn_sys n (peer_of i)" "cn_got n' (peer_of i) = cn_got n (peer_of i)"
      "cn_sys n' i = s'" "cn_got n' i = cn_got n i @ taken ev"
      "cn_wire n' (peer_of i) = cn_wire n (peer_of i) @ newly_sent (cn_sys n i) s'"
      "cn_wire n' i = drop (length (taken ev)) (cn_wire n i)"
      by (simp_all add: n' net_moved_sel)
    have all: "(\<forall>j. side_ok j (cn_sys n' j) (cn_got n' j))" if "side_ok i s' (cn_got n i @ taken ev)"
    proof
      fix j
      show "side_ok j (cn_sys n' j) (cn_got n' j)"
      proof (cases "j = i")
        case True
        then show ?thesis using that peer(3,4) by simp
      next
        case False
        then have "j = peer_of i" using side_cases by blast
        then show ?thesis using ok [of j] peer(1,2) by simp
      qed
    qed
    have pend: "pending (cs_conn s') \<noteq> [] \<Longrightarrow> under_way n'" using peer(3) under_wayI(2) [of n' i] by simp
    show ?case
    proof (cases ev)
      case EvAttached
      note a = attached_ok [OF inv ok _ run [unfolded EvAttached]]
      have k: "side_ok i s' (cn_got n i)" "newly_sent (cn_sys n i) s' = []" using a en(1) EvAttached by simp_all
      have "under_way n'" if rd: "reads (conn_at n' ClientSide) \<noteq> []"
      proof (cases "i = ClientSide")
        case True
        then show ?thesis using a(2) en(1) EvAttached pend by simp
      next
        case False
        then have "cn_sys n' ClientSide = cn_sys n ClientSide" by (simp add: n' net_moved_sel)
        then obtain j where j: "cn_wire n j \<noteq> [] \<or> pending (conn_at n j) \<noteq> []"
          using rd motion by (auto simp: under_way_def)
        have "cn_wire n' j = cn_wire n j" using side_cases [of j i] peer k(2) EvAttached by auto
        moreover have "pending (conn_at n j) \<noteq> [] \<Longrightarrow> pending (conn_at n' j) \<noteq> []"
          using side_cases [of j i] peer a(3) en(1) EvAttached by auto
        ultimately show ?thesis using j unfolding under_way_def by metis
      qed
      then show ?thesis using all k(1) EvAttached by simp
    next
      case (EvWriteDone w)
      note a = written_ok [OF inv ok _ run [unfolded EvWriteDone]]
      have k: "side_ok i s' (cn_got n i)" "pending (conn_at n i) = newly_sent (cn_sys n i) s' @ pending (cs_conn s')"
        "reads (cs_conn s') = reads (conn_at n i)" using a en(1) EvWriteDone by simp_all
      have "under_way n'" if "reads (conn_at n' ClientSide) \<noteq> []"
      proof -
        have "reads (conn_at n ClientSide) \<noteq> []" using that k(3) by (auto simp: n' net_moved_sel split: if_splits)
        then obtain j where j: "cn_wire n j \<noteq> [] \<or> pending (conn_at n j) \<noteq> []"
          using motion by (auto simp: under_way_def)
        have "cn_wire n j \<noteq> [] \<Longrightarrow> cn_wire n' j \<noteq> []" using side_cases [of j i] peer EvWriteDone by auto
        moreover have "pending (conn_at n j) \<noteq> [] \<Longrightarrow> under_way n'"
        proof (cases "j = i")
          case True
          assume "pending (conn_at n j) \<noteq> []"
          then have "newly_sent (cn_sys n i) s' \<noteq> [] \<or> pending (cs_conn s') \<noteq> []" using True k(2) by auto
          then have "cn_wire n' (peer_of i) \<noteq> [] \<or> pending (conn_at n' i) \<noteq> []" using peer by auto
          then show ?thesis using under_wayI by blast
        next
          case False
          assume "pending (conn_at n j) \<noteq> []"
          then have "pending (conn_at n' j) \<noteq> []" using False peer(1) side_cases [of j i] by auto
          then show ?thesis by (rule under_wayI)
        qed
        ultimately show ?thesis using j under_wayI(1) by blast
      qed
      then show ?thesis using all k(1) EvWriteDone by simp
    next
      case (EvReadDone d)
      note a = read_ok [OF inv ok _ run [unfolded EvReadDone]]
      have "side_ok i s' (cn_got n i @ d)" "pending (cs_conn s') \<noteq> []" using a en(1) EvReadDone by simp_all
      then show ?thesis using all pend EvReadDone by simp
    qed (use goes_on(2) in simp_all)
  qed
  then show "side_ok i (cn_sys n i) (cn_got n i)" and "reads (conn_at n ClientSide) \<noteq> [] \<Longrightarrow> under_way n" by blast+
qed

section \<open>The conversation goes on\<close>

lemma quiet_sends:
  assumes "tx_inv c" and "is_open c" and "length (accepted c) + 17 < 2 ^ 60"
  shows "\<exists>c'. Send no_callbacks True (hello i) c = Inr c'"
  using quiet_send [OF assms(1,2), of "hello i"] assms(3) by auto

lemma goes_on_side:
  assumes "talk n" and "undisturbed ev" and "enabled ev (cn_sys n i)" and "prefix (taken ev) (cn_wire n i)"
    and "conn_step (echo_cbs i) ev (cn_sys n i) = Inr s'"
  shows "net_enabled i ev n \<and> net_step echo_cbs i ev n = Inr (net_moved i ev s' n) \<and> talk (net_moved i ev s' n)"
  using assms talk.goes_on [OF assms(1,2)] by (simp add: net_enabled_def net_step_def)

text \<open>Each of the three kinds of events happens when its time has come.\<close>

lemma reads_on:
  assumes "talk n" and "reads (conn_at n i) \<noteq> []" and "cn_wire n i \<noteq> []" and "length (accepted (conn_at n i)) + 17 < 2 ^ 60"
  shows "\<exists>ev n'. undisturbed ev \<and> net_enabled i ev n \<and> net_step echo_cbs i ev n = Inr n' \<and> talk n'
    \<and> length (cn_got n i) < length (cn_got n' i)"
proof -
  let ?s = "cn_sys n i" and ?ev = "EvReadDone [hd (cn_wire n i)]"
  note inv = talk_sys_inv [OF assms(1), of i] and ok = talk_sides(1) [OF assms(1), of i]
  obtain st0 where b: "tc_recv_buffer (cs_conn ?s) = clean st0" "length st0 = 8192" using ok by (auto simp: side_ok_def)
  have rd: "cs_reads_done ?s < length (reads (cs_conn ?s))" using ok assms(2) by (simp add: side_ok_def)
  have "unat (ValidSize (clean st0)) = 8192" using b(2) by (simp add: ValidSize_def Capacity_def clean_def)
  then have en: "enabled ?ev ?s" using rd sys_invD(7) [OF inv rd] b(1) by simp
  obtain st where eq: "conn_step (echo_cbs i) ?ev ?s = rbind (Send no_callbacks True (hello i)
        ((print (PrintRecv [hd (cn_wire n i)]) (outgoing_call CallMsgFn (cs_conn ?s)))\<lparr>tc_recv_buffer := clean st\<rparr>))
      (\<lambda>c. Inr (?s\<lparr>cs_conn := AsyncRead c, cs_reads_done := Suc (cs_reads_done ?s)\<rparr>))"
    using read_step [OF inv ok en] by metis
  let ?d = "(print (PrintRecv [hd (cn_wire n i)]) (outgoing_call CallMsgFn (cs_conn ?s)))\<lparr>tc_recv_buffer := clean st\<rparr>"
  have "same_tx (cs_conn ?s) ?d"
    by (intro same_tx_trans [OF same_tx_trans [OF same_tx_log(2) same_tx_print] same_tx_recv])
  then have "tx_inv ?d" by (rule same_tx_inv [OF _ sys_invD(1) [OF inv]])
  moreover have "is_open ?d" "length (accepted ?d) + 17 < 2 ^ 60" using ok assms(4) by (simp_all add: side_ok_def)
  ultimately obtain s' where s': "conn_step (echo_cbs i) ?ev ?s = Inr s'" using quiet_sends [of ?d i] eq by auto
  have "prefix (taken ?ev) (cn_wire n i)" using assms(3) by (cases "cn_wire n i") simp_all
  from goes_on_side [OF assms(1) _ en this s'] show ?thesis
    by (intro exI [of _ ?ev] exI [of _ "net_moved i ?ev s' n"]) (simp add: net_moved_sel)
qed

lemma attaches:
  assumes "talk n" and "reads (conn_at n i) = []" and "length (accepted (conn_at n i)) + 17 < 2 ^ 60"
  shows "\<exists>n'. net_enabled i EvAttached n \<and> net_step echo_cbs i EvAttached n = Inr n' \<and> talk n'
    \<and> reads (conn_at n' i) \<noteq> [] \<and> cn_wire n' = cn_wire n \<and> cn_got n' = cn_got n \<and> conn_at n' (peer_of i) = conn_at n (peer_of i)
    \<and> length (accepted (conn_at n' i)) \<le> length (accepted (conn_at n i)) + 17
    \<and> (i = ClientSide \<longrightarrow> pending (conn_at n' i) \<noteq> [])"
proof -
  let ?s = "cn_sys n i" and ?ev = EvAttached
  let ?c = "print (PrintAccepted (tc_name (cs_conn ?s))) (outgoing_call (CallConnFn kConnected) ((cs_conn ?s)\<lparr>tc_status := kConnected\<rparr>))"
  note inv = talk_sys_inv [OF assms(1), of i] and ok = talk_sides(1) [OF assms(1), of i]
  have en: "enabled ?ev ?s" using assms(2) by simp
  have "same_tx (cs_conn ?s) ?c"
    by (intro same_tx_trans [OF same_tx_trans [OF same_tx_status same_tx_log(1)] same_tx_print])
  then have "tx_inv ?c" by (rule same_tx_inv [OF _ sys_invD(1) [OF inv]])
  moreover have op: "is_open ?c" "length (accepted ?c) + 17 < 2 ^ 60" using ok assms(3) by (simp_all add: side_ok_def)
  ultimately obtain c1 where c1: "(if i = ClientSide then Send no_callbacks True (hello i) ?c else Inr ?c) = Inr c1"
    using quiet_sends [of ?c i] by (cases "i = ClientSide") auto
  have s': "conn_step (echo_cbs i) ?ev ?s = Inr (?s\<lparr>cs_conn := AsyncRead c1\<rparr>)"
    unfolding attach_step Let_def c1 by simp
  have "length (accepted c1) \<le> length (accepted (conn_at n i)) + 17"
    using c1 quiet_send_frame [of "hello i" ?c c1] op(1) by (auto split: if_splits)
  then show ?thesis
    using goes_on_side [OF assms(1) _ en _ s'] attached_ok(2,4) [OF inv ok en s'] AsyncRead_sel(1) [of c1] AsyncRead_sel(5) [of c1]
    by (intro exI [of _ "net_moved i ?ev (?s\<lparr>cs_conn := AsyncRead c1\<rparr>) n"]) (auto simp: net_moved_sel fun_eq_iff)
qed

lemma writes_on:
  assumes "talk n" and "pending (conn_at n i) \<noteq> []"
  shows "\<exists>ev n'. undisturbed ev \<and> net_enabled i ev n \<and> net_step echo_cbs i ev n = Inr n' \<and> talk n'
    \<and> cn_wire n' (peer_of i) \<noteq> [] \<and> cn_got n' = cn_got n \<and> conn_at n' (peer_of i) = conn_at n (peer_of i)"
proof -
  let ?s = "cn_sys n i"
  note inv = talk_sys_inv [OF assms(1), of i] and ok = talk_sides(1) [OF assms(1), of i]
  have aw: "tc_async_writing (cs_conn ?s)" using sys_invD(1) [OF inv] assms(2) ok by (auto simp: tx_inv_def side_ok_def)
  obtain s' where s': "enabled (EvWriteDone (Size (tc_writing_buffer (cs_conn ?s)))) ?s"
    "conn_step (echo_cbs i) (EvWriteDone (Size (tc_writing_buffer (cs_conn ?s)))) ?s = Inr s'"
    "pending (cs_conn s') = readable (tc_write_buffer (cs_conn ?s))"
    using conn_client.full_write_step [OF echo_cbs_client inv aw] by metis
  let ?ev = "EvWriteDone (Size (tc_writing_buffer (cs_conn ?s)))"
  have "newly_sent ?s s' = readable (tc_writing_buffer (cs_conn ?s))"
    using written_ok(2) [OF inv ok s'(1,2)] s'(3) by (simp add: pending_def)
  moreover have "readable (tc_writing_buffer (cs_conn ?s)) \<noteq> []" using sys_invD(1) [OF inv] aw by (simp add: tx_inv_def)
  ultimately show ?thesis
    using goes_on_side [OF assms(1) _ s'(1) _ s'(2)]
    by (intro exI [of _ ?ev] exI [of _ "net_moved i ?ev s' n"]) (auto simp: net_moved_sel fun_eq_iff)
qed

text \<open>Some events after which a side has read more.\<close>

definition reads_more :: "nat \<Rightarrow> 'm app_env_scheme conn_net \<Rightarrow> bool" where
  "reads_more k n \<longleftrightarrow> (\<exists>evs n' i. length evs \<le> k \<and> (\<forall>(j, ev) \<in> set evs. undisturbed ev)
     \<and> net_run echo_cbs evs n = Inr n' \<and> talk n' \<and> length (cn_got n i) < length (cn_got n' i))"

lemma reads_more_step:
  assumes "undisturbed ev" and "net_enabled i ev n" and "net_step echo_cbs i ev n = Inr n'" and "cn_got n' = cn_got n"
    and "reads_more k n'"
  shows "reads_more (Suc k) n"
proof -
  obtain evs m j where m: "length evs \<le> k" "\<forall>(j, ev) \<in> set evs. undisturbed ev" "net_run echo_cbs evs n' = Inr m" "talk m"
    "length (cn_got n' j) < length (cn_got m j)" using assms(5) by (auto simp: reads_more_def)
  then show ?thesis unfolding reads_more_def
    using assms by (intro exI [of _ "(i, ev) # evs"] exI [of _ m] exI [of _ j]) simp
qed

lemma reads_more_now:
  assumes "talk n" and "reads (conn_at n i) \<noteq> []" and "cn_wire n i \<noteq> []" and "length (accepted (conn_at n i)) + 17 < 2 ^ 60"
  shows "reads_more 1 n"
proof -
  obtain ev n' where "undisturbed ev" "net_enabled i ev n" "net_step echo_cbs i ev n = Inr n'" "talk n'"
    "length (cn_got n i) < length (cn_got n' i)" using reads_on [OF assms] by blast
  then show ?thesis unfolding reads_more_def by (intro exI [of _ "[(i, ev)]"] exI [of _ n'] exI [of _ i]) simp
qed

lemma reads_more_mono: "reads_more k n \<Longrightarrow> k \<le> l \<Longrightarrow> reads_more l n"
  unfolding reads_more_def by (meson order_trans)

lemma wire_read:
  assumes "talk n" and "cn_wire n i \<noteq> []" and "length (accepted (conn_at n i)) + 34 < 2 ^ 60"
  shows "reads_more 2 n"
proof (cases "reads (conn_at n i) = []")
  case True
  obtain n' where n': "net_enabled i EvAttached n" "net_step echo_cbs i EvAttached n = Inr n'" "talk n'" "reads (conn_at n' i) \<noteq> []"
    "cn_wire n' = cn_wire n" "cn_got n' = cn_got n" "length (accepted (conn_at n' i)) \<le> length (accepted (conn_at n i)) + 17"
    using attaches [OF assms(1) True] assms(3) by auto
  have "reads_more 1 n'" using reads_more_now [OF n'(3,4)] n'(5,7) assms(2,3) by simp
  from reads_more_step [OF _ n'(1,2,6) this] show ?thesis by (simp add: numeral_2_eq_2)
next
  case False
  with assms show ?thesis using reads_more_mono [OF reads_more_now [OF assms(1) False assms(2)], of 2] by simp
qed

lemma pending_read:
  assumes "talk n" and "pending (conn_at n i) \<noteq> []" and "length (accepted (conn_at n (peer_of i))) + 34 < 2 ^ 60"
  shows "reads_more 3 n"
proof -
  obtain ev n' where n': "undisturbed ev" "net_enabled i ev n" "net_step echo_cbs i ev n = Inr n'" "talk n'"
    "cn_wire n' (peer_of i) \<noteq> []" "cn_got n' = cn_got n" "conn_at n' (peer_of i) = conn_at n (peer_of i)"
    using writes_on [OF assms(1,2)] by blast
  have "reads_more 2 n'" using wire_read [OF n'(4,5)] n'(7) assms(3) by simp
  from reads_more_step [OF n'(1-3,6) this] show ?thesis by (simp add: numeral_3_eq_3 numeral_2_eq_2)
qed

lemma talk_goes_on:
  assumes "talk n" and "\<And>i. length (accepted (conn_at n i)) + 34 < 2 ^ 60"
  shows "reads_more 4 n"
proof (cases "reads (conn_at n ClientSide) = []")
  case True
  obtain n' where n': "net_enabled ClientSide EvAttached n" "net_step echo_cbs ClientSide EvAttached n = Inr n'" "talk n'"
    "cn_got n' = cn_got n" "conn_at n' ServerSide = conn_at n ServerSide" "pending (conn_at n' ClientSide) \<noteq> []"
    using attaches [OF assms(1) True] assms(2) [of ClientSide] by auto
  have "reads_more 3 n'" using pending_read [OF n'(3,6)] n'(5) assms(2) [of ServerSide] by simp
  from reads_more_step [OF _ n'(1,2,4) this] show ?thesis by (simp add: eval_nat_numeral)
next
  case False
  then obtain i where "cn_wire n i \<noteq> [] \<or> pending (conn_at n i) \<noteq> []"
    using talk_sides(2) [OF assms(1)] by (auto simp: under_way_def)
  then show ?thesis
    using reads_more_mono [OF wire_read [OF assms(1) _ assms(2)], of i 4]
      reads_more_mono [OF pending_read [OF assms(1) _ assms(2)], of i 4] by auto
qed

lemma talk_printed: "talk m \<Longrightarrow> printed (conn_at m i) = cn_got m i"
  using talk_sides(1) [of m i] by (simp add: side_ok_def)

lemma talk_prints:
  assumes "talk n"
  shows "\<exists>k. prefix (printed (conn_at n i)) (concat (replicate k (hello (peer_of i))))"
proof -
  obtain k where "accepted (conn_at n (peer_of i)) = concat (replicate k (hello (peer_of i)))"
    using talk_sides(1) [OF assms, of "peer_of i"] by (auto simp: side_ok_def)
  moreover have "accepted (conn_at n (peer_of i)) = cn_got n i @ cn_wire n i @ pending (conn_at n (peer_of i))"
    using sys_invD(2) [OF talk_sys_inv [OF assms, of "peer_of i"]] wire_holds [OF talk_reachable [OF assms], of i] by simp
  ultimately show ?thesis using talk_printed [OF assms] by (metis prefixI)
qed

lemma talk_prints_more:
  assumes "talk n" and "\<And>i. length (accepted (conn_at n i)) + 34 < 2 ^ 60"
  shows "\<exists>evs n' i. length evs \<le> 4 \<and> (\<forall>(j, ev) \<in> set evs. undisturbed ev) \<and> net_run echo_cbs evs n = Inr n' \<and> talk n'
        \<and> length (printed (conn_at n i)) < length (printed (conn_at n' i))"
proof -
  obtain evs n' i where r: "length evs \<le> 4" "\<forall>(j, ev) \<in> set evs. undisturbed ev" "net_run echo_cbs evs n = Inr n'" "talk n'"
    "length (cn_got n i) < length (cn_got n' i)" using talk_goes_on [OF assms] by (auto simp: reads_more_def)
  then show ?thesis
    using talk_printed [OF r(4), of i] talk_printed [OF assms(1), of i] by (intro exI [of _ evs] exI [of _ n'] exI [of _ i]) simp
qed

text \<open>C4. The two echo programs. What each side has printed as received is a beginning of the other side's
  message repeated: nothing else, in order, however the bytes were cut. And they go on for ever: as long as
  nothing fails and nobody closes, and less than 1 EiB was sent, from every state at most four further events make a
  side print more.\<close>

theorem echo_conversation:
  fixes n :: "'m app_env_scheme conn_net"
  assumes "talk n" and "\<And>i. length (accepted (conn_at n i)) + 34 < 2 ^ 60"
  shows "(\<forall>i. \<exists>k. prefix (printed (conn_at n i)) (concat (replicate k (hello (peer_of i)))))
    \<and> (\<exists>evs n' i. length evs \<le> 4 \<and> (\<forall>(j, ev) \<in> set evs. undisturbed ev) \<and> net_run echo_cbs evs n = Inr n' \<and> talk n'
        \<and> length (printed (conn_at n i)) < length (printed (conn_at n' i)))"
  using talk_prints [OF assms(1)] talk_prints_more [OF assms] by blast

section \<open>A conversation\<close>

lemma demo_talk: "talk (joined (\<lambda>_. demo_conn))"
  using new_conn_incoming [OF demo_conn_new] by (intro talk.begins) (simp add: demo_conn_def demo_socket_def is_open_def)

theorem echo_conversation_witness:
  "\<exists>evs n' i. length evs \<le> 4 \<and> net_run echo_cbs evs (joined (\<lambda>_. demo_conn)) = Inr n'
     \<and> printed (conn_at n' i) \<noteq> []"
proof -
  have "accepted (conn_at (joined (\<lambda>_. demo_conn)) i) = []" for i
    by (simp add: joined_def initial_sys_def demo_conn_def)
  with echo_conversation [OF demo_talk] obtain evs n' i where "length evs \<le> 4"
    "net_run echo_cbs evs (joined (\<lambda>_. demo_conn)) = Inr n'"
    "length (printed (conn_at (joined (\<lambda>_. demo_conn)) i)) < length (printed (conn_at n' i))" by auto
  then show ?thesis by (intro exI [of _ evs] exI [of _ n'] exI [of _ i]) auto
qed


end
