(* ===== verification/Echo_Programs.thy ===== *)
theory Echo_Programs
  imports Echo_Pair Client_Properties Server_Properties
begin

text \<open>
  The \<open>main\<close> functions of the two echo programs, \<open>examples/tcp_echo\<close>, up to the point where they enter their
  loops, and the two programs joined by a network: the connection of the client with the one the server
  accepts for it. They converse as the two connections of \<open>Echo_Pair\<close> do.
\<close>

section \<open>The main functions\<close>

definition echo_env :: app_env where
  "echo_env = \<lparr>oe_removed = 0, ap_console = []\<rparr>"

text \<open>What a program has when its loop runs on the thread \<open>self\<close>: the loop, and its client or server.\<close>

definition echo_client_main ::
    "thread_id \<Rightarrow> resolver \<Rightarrow> (client_task event_loop \<times> unit app_env_ext tcp_client) res" where
  "echo_client_main self rs =
     (let loop = EventLoop_new self;
          client = TCPClient_new ''127.0.0.1'' 7788 ''EchoClient'' echo_env
      in rbind (TCPClient_Connect rs client) (\<lambda>client.
         let client = SetAutoReconnect True client;
             client = client_SetConnCallback (Some client_OnConnection) client;
             client = client_SetMessageCallback (Some client_OnMessage) client
         in Inr (EventLoop_Run_begin self loop, client)))"

definition echo_server_main ::
    "platform \<Rightarrow> server_task schedule \<Rightarrow> bool \<Rightarrow> (server_task event_loop \<times> unit app_env_ext tcp_server) option res" where
  "echo_server_main pf sched bind_ok =
     (let loop = EventLoop_new (pf_self pf)
      in rbind (TCPServer_new bind_ok (EventLoop_IsRunning loop) ''EchoServer'' 4 echo_env) (\<lambda>s.
         let s = SetConnectionCallback (Some server_OnConnection) s;
             s = TCPServer_SetMessageCallback (Some server_OnMessage) s
         in rbind (if TCPServer_Init s then TCPServer_Start pf sched s else TCPServer_Start pf sched s) (\<lambda>started.
            Inr (map_option (\<lambda>s.
              let loop = EventLoop_Run_begin (pf_self pf) loop
              in (loop, s\<lparr>sv_loop_running := EventLoop_IsRunning loop\<rparr>)) started))))"

section \<open>The two programs and the network\<close>

record echo_programs =
  ep_client :: "unit app_env_ext tcp_client"
  ep_server :: "unit app_env_ext tcp_server"
  ep_wire :: "side \<Rightarrow> byte list"
  ep_got :: "side \<Rightarrow> byte list"

text \<open>
  The connections of the two programs with each other: the first of each. \<open>sk\<close> and \<open>ck\<close> are the sockets at the
  two ends; the server's connection starts on the loop of its thread.
\<close>

definition echo_connect :: "resolver \<Rightarrow> platform \<Rightarrow> server_task schedule \<Rightarrow> asio_socket \<Rightarrow> asio_socket
    \<Rightarrow> unit app_env_ext tcp_client \<Rightarrow> unit app_env_ext tcp_server \<Rightarrow> echo_programs res" where
  "echo_connect rs pf sched ck sk c s =
     rbind (client_run rs [ClConnected ck] c) (\<lambda>c.
     rbind (server_run pf [SvAccepted sk, SvTask 0 sched] s) (\<lambda>s.
     Inr \<lparr>ep_client = c, ep_server = s, ep_wire = (\<lambda>_. []), ep_got = (\<lambda>_. [])\<rparr>))"

text \<open>The connections of the two programs as a network of two connections.\<close>

definition net_of :: "echo_programs \<Rightarrow> app_env conn_net" where
  "net_of p = \<lparr>cn_sys = (\<lambda>i. case i of ClientSide \<Rightarrow> cc_sys (cl_heap (ep_client p) ! 0)
       | ServerSide \<Rightarrow> sc_sys (sv_heap (ep_server p) ! 0)),
     cn_wire = ep_wire p, cn_got = ep_got p\<rparr>"

text \<open>An event of one of the connections: a step of its program, and what it means for the network.\<close>

fun program_enabled :: "side \<Rightarrow> conn_event \<Rightarrow> echo_programs \<Rightarrow> bool" where
  "program_enabled ClientSide ev p =
     (client_enabled (ClConn 0 ev) (ep_client p) \<and> prefix (taken ev) (ep_wire p ClientSide))"
| "program_enabled ServerSide ev p =
     (server_enabled (SvConn 0 ev) (ep_server p) \<and> prefix (taken ev) (ep_wire p ServerSide))"

definition wire_moves :: "side \<Rightarrow> conn_event \<Rightarrow> echo_programs \<Rightarrow> echo_programs \<Rightarrow> echo_programs" where
  "wire_moves i ev p p' = p'\<lparr>
     ep_wire := (ep_wire p)(i := drop (length (taken ev)) (ep_wire p i),
       peer_of i := ep_wire p (peer_of i) @ newly_sent (cn_sys (net_of p) i) (cn_sys (net_of p') i)),
     ep_got := (ep_got p)(i := ep_got p i @ taken ev)\<rparr>"

fun program_step :: "resolver \<Rightarrow> platform \<Rightarrow> side \<Rightarrow> conn_event \<Rightarrow> echo_programs \<Rightarrow> echo_programs res" where
  "program_step rs pf ClientSide ev p =
     rbind (client_step rs (ClConn 0 ev) (ep_client p)) (\<lambda>c. Inr (wire_moves ClientSide ev p (p\<lparr>ep_client := c\<rparr>)))"
| "program_step rs pf ServerSide ev p =
     rbind (server_step pf (SvConn 0 ev) (ep_server p)) (\<lambda>s. Inr (wire_moves ServerSide ev p (p\<lparr>ep_server := s\<rparr>)))"

fun program_run :: "resolver \<Rightarrow> platform \<Rightarrow> (side \<times> conn_event) list \<Rightarrow> echo_programs \<Rightarrow> echo_programs res" where
  "program_run rs pf [] p = Inr p"
| "program_run rs pf ((i, ev) # evs) p =
     (if program_enabled i ev p then rbind (program_step rs pf i ev p) (program_run rs pf evs) else Inl AssertFailed)"

section \<open>The programs are the network of their connections\<close>

text \<open>One connection each, with the callbacks of the program, reading.\<close>

definition conversing :: "echo_programs \<Rightarrow> bool" where
  "conversing p \<longleftrightarrow> (\<exists>cc. cl_heap (ep_client p) = [cc] \<and> cc_cbs cc = echo_cbs ClientSide)
     \<and> (\<exists>sc. sv_heap (ep_server p) = [sc] \<and> sc_cbs sc = echo_cbs ServerSide)
     \<and> (\<forall>i. reads (conn_at (net_of p) i) \<noteq> [])"

text \<open>As long as nothing fails, no connection asks its owner to remove it, and each goes on reading.\<close>

lemma print_removed [simp]: "oe_removed (tc_env (print x c)) = oe_removed (tc_env c)"
  by (simp add: print_def)

lemma next_read: "reads (AsyncRead c) \<noteq> []"
  using AsyncRead_sel(5) [of c] by auto

lemma HandleWrite_env: "HandleWrite cbs True None n c = Inr c' \<Longrightarrow> tc_env c' = tc_env c"
  by (auto simp: HandleWrite_def Let_def AsyncWrite_def swap_buffers_def case_prod_unfold split: if_splits)

lemma undisturbed_frame:
  assumes inv: "sys_inv s" and ok: "side_ok i s got" and en: "enabled ev s" and "undisturbed ev"
    and run: "conn_step (echo_cbs i) ev s = Inr s'"
  shows "removed_of s' = removed_of s" and "ev = EvAttached \<or> reads (cs_conn s) \<noteq> [] \<Longrightarrow> reads (cs_conn s') \<noteq> []"
proof -
  have "removed_of s' = removed_of s \<and> (ev = EvAttached \<or> reads (cs_conn s) \<noteq> [] \<longrightarrow> reads (cs_conn s') \<noteq> [])"
  proof (cases ev)
    case EvAttached
    let ?c = "print (PrintAccepted (tc_name (cs_conn s))) (outgoing_call (CallConnFn kConnected) ((cs_conn s)\<lparr>tc_status := kConnected\<rparr>))"
    from trans [OF attach_step [symmetric] run [unfolded EvAttached]] obtain c1 where
      c1: "(if i = ClientSide then Send no_callbacks True (hello i) ?c else Inr ?c) = Inr c1"
      and s': "s' = s\<lparr>cs_conn := AsyncRead c1\<rparr>" by (auto simp: Let_def)
    have "is_open ?c" using ok by (simp add: side_ok_def)
    then have "tc_env c1 = tc_env ?c"
      using c1 quiet_send_frame [of "hello i" ?c c1] by (cases "i = ClientSide") auto
    then show ?thesis by (simp add: s' next_read)
  next
    case (EvWriteDone n)
    have aw: "tc_async_writing (cs_conn s)" using en EvWriteDone sys_invD(3) [OF inv] by (cases "tc_async_writing (cs_conn s)") auto
    from run obtain d c where "HandleWrite (echo_cbs i) True None n (cs_conn s) = Inr c" and s': "cs_conn s' = c"
      unfolding EvWriteDone by auto
    then have "tc_env c = tc_env (cs_conn s)" using HandleWrite_env by blast
    then show ?thesis using written_ok(3) [OF inv ok en [unfolded EvWriteDone] run [unfolded EvWriteDone]] s' by (simp add: EvWriteDone)
  next
    case (EvReadDone d)
    obtain st where eq: "conn_step (echo_cbs i) (EvReadDone d) s =
      rbind (Send no_callbacks True (hello i)
        ((print (PrintRecv d) (outgoing_call CallMsgFn (cs_conn s)))\<lparr>tc_recv_buffer := clean st\<rparr>))
      (\<lambda>c. Inr (s\<lparr>cs_conn := AsyncRead c, cs_reads_done := Suc (cs_reads_done s)\<rparr>))"
      using read_step [OF inv ok en [unfolded EvReadDone]] by metis
    let ?c = "(print (PrintRecv d) (outgoing_call CallMsgFn (cs_conn s)))\<lparr>tc_recv_buffer := clean st\<rparr>"
    from trans [OF eq [symmetric] run [unfolded EvReadDone]] obtain c1 where
      c1: "Send no_callbacks True (hello i) ?c = Inr c1"
      and s': "s' = s\<lparr>cs_conn := AsyncRead c1, cs_reads_done := Suc (cs_reads_done s)\<rparr>" by auto
    have "is_open ?c" using ok by (simp add: side_ok_def)
    from quiet_send_frame [OF c1 this] have "tc_env c1 = tc_env ?c" by simp
    then show ?thesis by (simp add: s' next_read)
  qed (use assms(4) in simp_all)
  then show "removed_of s' = removed_of s" and "ev = EvAttached \<or> reads (cs_conn s) \<noteq> [] \<Longrightarrow> reads (cs_conn s') \<noteq> []"
    by blast+
qed

text \<open>An event of a program is the event of its connection, and the other way round.\<close>

lemma net_of_sel:
  "cn_sys (net_of p) ClientSide = cc_sys (cl_heap (ep_client p) ! 0)"
  "cn_sys (net_of p) ServerSide = sc_sys (sv_heap (ep_server p) ! 0)"
  "cn_wire (net_of p) = ep_wire p" "cn_got (net_of p) = ep_got p"
  by (simp_all add: net_of_def)

lemma net_eqI:
  assumes "\<And>i. cn_sys m i = cn_sys n i" and "cn_wire m = cn_wire n" and "cn_got m = cn_got n"
  shows "m = (n :: 'w conn_net)"
proof -
  have "cn_sys m = cn_sys n" using assms(1) by blast
  with assms(2,3) show ?thesis by simp
qed

lemma wire_moves_net:
  assumes "cn_sys (net_of p') i = s'" and "cn_sys (net_of p') (peer_of i) = cn_sys (net_of p) (peer_of i)"
  shows "net_of (wire_moves i ev p p') = net_moved i ev s' (net_of p)"
proof (rule net_eqI)
  have same: "cn_sys (net_of (wire_moves i ev p p')) j = cn_sys (net_of p') j" for j
    by (cases j) (simp_all add: net_of_sel wire_moves_def)
  show "cn_sys (net_of (wire_moves i ev p p')) j = cn_sys (net_moved i ev s' (net_of p)) j" for j
    using assms side_cases [of j i] by (auto simp: same net_moved_sel)
  show "cn_wire (net_of (wire_moves i ev p p')) = cn_wire (net_moved i ev s' (net_of p))"
    and "cn_got (net_of (wire_moves i ev p p')) = cn_got (net_moved i ev s' (net_of p))"
    using assms(1) by (simp_all add: wire_moves_def net_moved_def net_of_sel)
qed

lemma program_enabled_iff:
  assumes "conversing p"
  shows "program_enabled i ev p = net_enabled i ev (net_of p)"
proof -
  have "reads (conn_at (net_of p) i) \<noteq> []" using assms by (simp add: conversing_def)
  then have "ev = EvAttached \<Longrightarrow> \<not> enabled ev (cn_sys (net_of p) i)" by auto
  then show ?thesis using assms
    by (cases i) (auto simp: conversing_def net_enabled_def net_of_sel)
qed

lemma program_simulates:
  assumes conv: "conversing p" and talk: "talk (net_of p)" and u: "undisturbed ev" and en: "program_enabled i ev p"
    and run: "conn_step (echo_cbs i) ev (cn_sys (net_of p) i) = Inr s'"
  shows "\<exists>p'. program_step rs pf i ev p = Inr p' \<and> net_of p' = net_moved i ev s' (net_of p) \<and> conversing p'"
proof -
  have nen: "net_enabled i ev (net_of p)" using en program_enabled_iff [OF conv] by simp
  then have cen: "enabled ev (cn_sys (net_of p) i)" by (simp add: net_enabled_def)
  have rd: "\<forall>i. reads (conn_at (net_of p) i) \<noteq> []" using conv by (simp add: conversing_def)
  note f = undisturbed_frame [OF talk_sys_inv [OF talk] talk_sides(1) [OF talk] cen u run]
  obtain cc where cc: "cl_heap (ep_client p) = [cc]" "cc_cbs cc = echo_cbs ClientSide" using conv by (auto simp: conversing_def)
  obtain sc where sc: "sv_heap (ep_server p) = [sc]" "sc_cbs sc = echo_cbs ServerSide" using conv by (auto simp: conversing_def)
  define p0 where "p0 = (case i of
      ClientSide \<Rightarrow> p\<lparr>ep_client := update_conn 0 (\<lambda>cc. cc\<lparr>cc_sys := s'\<rparr>) (ep_client p)\<rparr>
    | ServerSide \<Rightarrow> p\<lparr>ep_server := (ep_server p)\<lparr>sv_heap := [sc\<lparr>sc_sys := s'\<rparr>]\<rparr>\<rparr>)"
  have step: "program_step rs pf i ev p = Inr (wire_moves i ev p p0)"
  proof (cases i)
    case ClientSide
    then have "removed_of s' - removed_of (cc_sys cc) = 0" using f(1) cc by (simp add: net_of_sel)
    then show ?thesis using ClientSide run cc by (simp add: client_conn_event_def Let_def net_of_sel p0_def)
  next
    case ServerSide
    then have "removed_of s' - removed_of (sc_sys sc) = 0" using f(1) sc by (simp add: net_of_sel)
    then show ?thesis using ServerSide run sc by (simp add: server_conn_event_def Let_def net_of_sel p0_def)
  qed
  have net: "net_of (wire_moves i ev p p0) = net_moved i ev s' (net_of p)"
    by (rule wire_moves_net) (cases i; simp add: net_of_sel p0_def update_conn_def cc sc)+
  moreover have "conversing (wire_moves i ev p p0)"
  proof -
    have "\<exists>cc. cl_heap (ep_client p0) = [cc] \<and> cc_cbs cc = echo_cbs ClientSide"
      and "\<exists>sc. sv_heap (ep_server p0) = [sc] \<and> sc_cbs sc = echo_cbs ServerSide"
      using cc sc by (cases i; simp add: p0_def update_conn_def)+
    moreover have "reads (conn_at (net_moved i ev s' (net_of p)) j) \<noteq> []" for j
      using rd f(2) by (simp add: net_moved_sel)
    ultimately show ?thesis using net by (simp add: conversing_def) (simp add: wire_moves_def)
  qed
  ultimately show ?thesis using step by blast
qed

lemma program_step_net:
  assumes "conversing p" and "talk (net_of p)" and "undisturbed ev" and "program_enabled i ev p"
    and "program_step rs pf i ev p = Inr p'"
  shows "net_step echo_cbs i ev (net_of p) = Inr (net_of p') \<and> conversing p' \<and> talk (net_of p')"
proof -
  have "\<exists>s'. conn_step (echo_cbs i) ev (cn_sys (net_of p) i) = Inr s'"
    using assms(1,5) by (cases i) (auto simp: conversing_def client_conn_event_def server_conn_event_def Let_def net_of_sel)
  then obtain s' where s': "conn_step (echo_cbs i) ev (cn_sys (net_of p) i) = Inr s'" ..
  from program_simulates [OF assms(1-4) s', of rs pf] assms(5)
  have p': "net_of p' = net_moved i ev s' (net_of p)" "conversing p'" by auto
  then have "net_step echo_cbs i ev (net_of p) = Inr (net_of p')" using s' by (simp add: net_step_def)
  with p' show ?thesis using talk.goes_on [OF assms(2,3)] assms(4) program_enabled_iff [OF assms(1)] by blast
qed

lemma program_run_talks:
  assumes "conversing p" and "talk (net_of p)" and "\<forall>(i, ev) \<in> set evs. undisturbed ev"
    and "program_run rs pf evs p = Inr p'"
  shows "conversing p' \<and> talk (net_of p')"
  using assms
proof (induction evs arbitrary: p)
  case (Cons e evs)
  obtain i ev where e: "e = (i, ev)" by fastforce
  with Cons.prems(4) obtain p1 where p1: "program_enabled i ev p" "program_step rs pf i ev p = Inr p1"
    "program_run rs pf evs p1 = Inr p'" by (auto split: if_splits)
  have "undisturbed ev" using Cons.prems(3) e by simp
  from program_step_net [OF Cons.prems(1,2) this p1(1,2)] Cons.IH [of p1] Cons.prems(3) p1(3) show ?case by simp
qed simp

lemma net_run_programs:
  assumes "conversing p" and "talk (net_of p)" and "\<forall>(i, ev) \<in> set evs. undisturbed ev"
    and "net_run echo_cbs evs (net_of p) = Inr n"
  shows "\<exists>p'. program_run rs pf evs p = Inr p' \<and> net_of p' = n"
  using assms
proof (induction evs arbitrary: p)
  case (Cons e evs)
  obtain i ev where e: "e = (i, ev)" by fastforce
  with Cons.prems(4) obtain n1 where n1: "net_enabled i ev (net_of p)" "net_step echo_cbs i ev (net_of p) = Inr n1"
    "net_run echo_cbs evs n1 = Inr n" by (auto split: if_splits)
  from n1(2) obtain s' where s': "conn_step (echo_cbs i) ev (cn_sys (net_of p) i) = Inr s'" "n1 = net_moved i ev s' (net_of p)"
    by (rule net_step_Inr)
  have u: "undisturbed ev" using Cons.prems(3) e by simp
  have en: "program_enabled i ev p" using n1(1) program_enabled_iff [OF Cons.prems(1)] by simp
  obtain p1 where p1: "program_step rs pf i ev p = Inr p1" "net_of p1 = n1" "conversing p1"
    using program_simulates [OF Cons.prems(1,2) u en s'(1), of rs pf] s'(2) by auto
  have "talk (net_of p1)" using program_step_net [OF Cons.prems(1,2) u en p1(1)] by simp
  from Cons.IH [OF p1(3) this] Cons.prems(3) n1(3) p1(2) obtain p' where
    "program_run rs pf evs p1 = Inr p'" "net_of p' = n" by auto
  then show ?case using e en p1(1) by auto
qed simp

section \<open>The programs start\<close>

definition socket_ok :: "asio_socket \<Rightarrow> bool" where
  "socket_ok sock \<longleftrightarrow> so_open sock \<and> so_local sock \<noteq> None \<and> so_remote sock \<noteq> None"

lemma port_7788: "decimal 7788 = ''7788''"
  by (simp add: digit_def decimal.simps char_of_def bit_simps)

lemma echo_conn_new:
  assumes "socket_ok sock"
  obtains c where "TCPConn_new l sock n echo_env = Inr c" and "tc_type c = kIncoming"
    and "new_conn (SetType t c)" and "is_open (SetType t c)" and "ap_console (tc_env (SetType t c)) = []"
    and "accepted c = []"
proof -
  from assms obtain c where c: "TCPConn_new l sock n echo_env = Inr c" "tc_type c = kIncoming"
    by (auto simp: socket_ok_def TCPConn_new_def)
  then have "is_open (SetType t c)" "ap_console (tc_env (SetType t c)) = []" "accepted c = []"
    using assms by (auto simp: socket_ok_def TCPConn_new_def SetType_def is_open_def echo_env_def split: option.splits)
  then show thesis using that c new_connI [OF c(1)] by blast
qed

lemma accepted_SetType [simp]: "accepted (SetType t c) = accepted c"
  by (simp add: SetType_def)

text \<open>Both connections are attached, the client first.\<close>

lemma both_attached:
  assumes "\<And>i. new_conn (c i) \<and> is_open (c i) \<and> ap_console (tc_env (c i)) = []" and "\<And>i. accepted (c i) = []"
  obtains n where "\<And>i. conn_step (echo_cbs i) EvAttached (initial_sys (c i)) = Inr (cn_sys n i)" and "talk n"
    and "\<And>i. reads (conn_at n i) \<noteq> []" and "cn_wire n = (\<lambda>_. [])" and "cn_got n = (\<lambda>_. [])"
    and "\<And>i. removed_of (cn_sys n i) = removed_of (initial_sys (c i))" and "\<And>i. length (accepted (conn_at n i)) \<le> 17"
proof -
  let ?n0 = "joined c"
  have t0: "talk ?n0" by (rule talk.begins [OF assms(1)])
  have none: "reads (c i) = []" for i using assms(1) [of i] new_conn_sel [of "c i"] by simp
  have sys0: "cn_sys ?n0 i = initial_sys (c i)" "conn_at ?n0 i = c i" for i by (simp_all add: joined_def initial_sys_def)
  obtain n1 where n1: "net_step echo_cbs ClientSide EvAttached ?n0 = Inr n1" "talk n1" "reads (conn_at n1 ClientSide) \<noteq> []"
    "cn_wire n1 = cn_wire ?n0" "cn_got n1 = cn_got ?n0" "length (accepted (conn_at n1 ClientSide)) \<le> 17"
    using attaches [OF t0, of ClientSide] none assms(2) sys0 by auto
  then obtain sc where sc: "conn_step (echo_cbs ClientSide) EvAttached (initial_sys (c ClientSide)) = Inr sc"
    "n1 = net_moved ClientSide EvAttached sc ?n0" using sys0 by (auto simp: net_step_def)
  have sys1: "cn_sys n1 ServerSide = initial_sys (c ServerSide)" "cn_sys n1 ClientSide = sc"
    by (simp_all add: sc(2) net_moved_sel sys0)
  have c1: "conn_at n1 ServerSide = c ServerSide" by (simp add: sys1 initial_sys_def)
  obtain n2 where n2: "net_step echo_cbs ServerSide EvAttached n1 = Inr n2" "talk n2" "reads (conn_at n2 ServerSide) \<noteq> []"
    "cn_wire n2 = cn_wire n1" "cn_got n2 = cn_got n1" "length (accepted (conn_at n2 ServerSide)) \<le> 17"
    using attaches [OF n1(2), of ServerSide] none assms(2) c1 by auto
  then obtain ss where ss: "conn_step (echo_cbs ServerSide) EvAttached (initial_sys (c ServerSide)) = Inr ss"
    "n2 = net_moved ServerSide EvAttached ss n1" using sys1 by (auto simp: net_step_def)
  have sys2: "cn_sys n2 ServerSide = ss" "cn_sys n2 ClientSide = sc" by (simp_all add: ss(2) net_moved_sel sys1)
  have step: "conn_step (echo_cbs i) EvAttached (initial_sys (c i)) = Inr (cn_sys n2 i)" for i
    using sc(1) ss(1) sys2 by (cases i) simp_all
  moreover have "reads (conn_at n2 i) \<noteq> []" for i using n1(3) n2(3) sys1 sys2 by (cases i) simp_all
  moreover have "length (accepted (conn_at n2 i)) \<le> 17" for i using n1(6) n2(6) sys1 sys2 by (cases i) simp_all
  moreover have "removed_of (cn_sys n2 i) = removed_of (initial_sys (c i))" for i
  proof -
    have "enabled EvAttached (initial_sys (c i))" using none by (simp add: initial_sys_def)
    with undisturbed_frame(1) [OF talk_sys_inv [OF t0, of i] talk_sides(1) [OF t0, of i], of EvAttached] step [of i]
    show ?thesis by (simp add: sys0)
  qed
  ultimately show thesis using that [of n2] n2 n1 by (simp add: joined_def)
qed

text \<open>The client: its first attempt, with the callbacks set before it can succeed.\<close>

lemma echo_client_started:
  assumes "rs ''127.0.0.1'' ''7788''"
  shows "echo_client_main self rs = Inr (EventLoop_Run_begin self (EventLoop_new self),
    (TCPClient_new ''127.0.0.1'' 7788 ''EchoClient'' echo_env)\<lparr>cl_connecting := 1, cl_auto_reconnect := True,
      cl_conn_fn := Some client_OnConnection, cl_msg_fn := Some client_OnMessage\<rparr>)"
  using assms
  by (simp add: echo_client_main_def TCPClient_Connect_def TCPClient_new_def Let_def SetAutoReconnect_def
      client_SetConnCallback_def client_SetMessageCallback_def port_7788)

lemma first_connects:
  fixes cf mf :: "'m owner_env_scheme conn_fun"
  assumes "TCPConn_new 0 ck name env = Inr c0" and "so_open ck"
    and "conn_step (owner_cbs (Some cf) (Some mf) owner_close_fn) EvAttached (initial_sys (SetType kOutgoing c0)) = Inr sys"
    and "removed_of sys = removed_of (initial_sys (SetType kOutgoing c0))"
  shows "\<exists>c1. client_run rs [ClConnected ck] ((TCPClient_new addr port name env)\<lparr>cl_connecting := 1,
      cl_auto_reconnect := True, cl_conn_fn := Some cf, cl_msg_fn := Some mf\<rparr>) = Inr c1
    \<and> cl_heap c1 = [\<lparr>cc_cbs = owner_cbs (Some cf) (Some mf) owner_close_fn, cc_sys = sys\<rparr>]"
  using assms
  by (auto simp: TCPClient_new_def connect_handler_def HandleConn_def Let_def client_conn_event_def update_conn_def
      owner_cbs_def simp del: conn_step.simps)

lemma echo_cbs_owner: "echo_cbs ClientSide = owner_cbs (Some client_OnConnection) (Some client_OnMessage) owner_close_fn"
  "echo_cbs ServerSide = owner_cbs (Some server_OnConnection) (Some server_OnMessage) owner_close_fn"
  by (simp_all add: echo_client_cbs_def echo_server_cbs_def owner_cbs_def)

lemma echo_client_connects:
  assumes "TCPConn_new 0 ck ''EchoClient'' echo_env = Inr c0" and "so_open ck"
    and "conn_step (echo_cbs ClientSide) EvAttached (initial_sys (SetType kOutgoing c0)) = Inr sys"
    and "removed_of sys = removed_of (initial_sys (SetType kOutgoing c0))"
    and "echo_client_main self rs = Inr (l, c)" and "rs ''127.0.0.1'' ''7788''"
  shows "\<exists>c1. client_run rs [ClConnected ck] c = Inr c1
    \<and> cl_heap c1 = [\<lparr>cc_cbs = echo_cbs ClientSide, cc_sys = sys\<rparr>]"
  using first_connects [OF assms(1,2) assms(3) [unfolded echo_cbs_owner] assms(4), of rs "''127.0.0.1''" 7788]
    echo_client_started [of rs self, OF assms(6)] assms(5)
  unfolding echo_cbs_owner by simp

text \<open>The server: the flag of its loop is not read on the way, and one request is outstanding.\<close>

lemma pool_pick_running: "AsyncAccept (s\<lparr>sv_loop_running := b\<rparr>) = Inr s' \<Longrightarrow>
  \<exists>t. AsyncAccept s = Inr t \<and> s' = t\<lparr>sv_loop_running := b\<rparr>"
  by (auto simp: AsyncAccept_def Let_def case_prod_unfold split: if_splits)

lemma echo_server_started:
  assumes "platform_ok pf" and "is_schedule sched" and "echo_server_main pf sched True = Inr (Some (l, s))"
    and "\<forall>t \<in> set (tp_threads (sv_pool s)). \<not> ts_app_stop t"
  shows "\<exists>p i. s = fresh_server True ''EchoServer'' (Some server_OnConnection) (Some server_OnMessage) echo_env p
      (ThreadSocket i, ThreadLoop i) \<and> pool_ok pf p \<and> length (tp_threads p) = 4"
proof -
  obtain s0 where new: "TCPServer_new True False ''EchoServer'' 4 echo_env = Inr s0" by (simp add: TCPServer_new_def)
  from assms(3) new obtain s1 where
    start: "TCPServer_Start pf sched (TCPServer_SetMessageCallback (Some server_OnMessage)
      (SetConnectionCallback (Some server_OnConnection) s0)) = Inr (Some s1)"
    and s: "s = s1\<lparr>sv_loop_running := True\<rparr>"
    by (auto simp: echo_server_main_def Let_def EventLoop_IsRunning_def EventLoop_new_def EventLoop_Run_begin_def loop_call_def)
  obtain p r where f: "s1 = fresh_server False ''EchoServer'' (Some server_OnConnection) (Some server_OnMessage) echo_env p r"
    "pool_ok pf p" "good_request p r" "tp_thread_num p = 4"
    using started_fresh [OF assms(1) new assms(2) start] assms(4) s by auto
  have four: "length (tp_threads p) = 4" using f(2,4) by (simp add: pool_ok_def)
  with f(3) obtain i where "r = (ThreadSocket i, ThreadLoop i)" by (auto simp: good_request_def)
  with s f four show ?thesis by (intro exI [of _ p] exI [of _ i]) (simp add: fresh_server_def)
qed

lemma first_accepts:
  fixes cf mf :: "'m owner_env_scheme conn_fun"
  assumes "TCPConn_new (Suc i) sk (conn_name name 0) env = Inr c0" and "tc_type c0 = kIncoming"
    and "conn_step (owner_cbs (Some cf) (Some mf) owner_close_fn) EvAttached (initial_sys c0) = Inr sys"
    and "removed_of sys = removed_of (initial_sys c0)"
    and s: "s = fresh_server True name (Some cf) (Some mf) env p (ThreadSocket i, ThreadLoop i)"
    and pool: "pool_ok pf p" and sched: "is_schedule sched" "\<forall>j. AppStop \<notin> set (sched j)"
  shows "\<exists>s2 sc. server_run pf [SvAccepted sk, SvTask 0 sched] s = Inr s2 \<and> sv_heap s2 = [sc]
    \<and> sc_cbs sc = owner_cbs (Some cf) (Some mf) owner_close_fn \<and> sc_sys sc = sys"
proof -
  let ?t = "s\<lparr>sv_accept := []\<rparr>"
  from HandleNewConn_thread [of i sk ?t c0] assms(1,2) obtain sc where
    h: "HandleNewConn True sk (ThreadLoop i) ?t = Inr (?t\<lparr>
        sv_next_conn_id := 1, sv_heap := [sc], sv_posted := [(ThreadLoop i, TaskAttach 0)],
        sv_conns := [conn_name name 0 \<mapsto> 0]\<rparr>)" (is "_ = Inr ?u")
    and sc: "sc_loop sc = ThreadLoop i" "sc_sys sc = initial_sys c0"
      "sc_cbs sc = SetCloseCallback (Some owner_close_fn) (SetConnCallback (Some cf)
        (SetMessageCallback (Some mf) no_callbacks))"
    by (auto simp: s fresh_server_def)
  have cbs: "sc_cbs sc = owner_cbs (Some cf) (Some mf) owner_close_fn" using sc(3) by (simp add: owner_cbs_def)
  have "pool_ok pf (sv_pool ?u)" using pool by (simp add: s fresh_server_def)
  then obtain p' q where a: "AsyncAccept ?u = Inr (?u\<lparr>sv_pool := p', sv_accept := sv_accept ?u @ [q]\<rparr>)"
    by (rule AsyncAccept_spec)
  let ?v = "?u\<lparr>sv_pool := p', sv_accept := [q]\<rparr>"
  have "server_step pf (SvAccepted sk) s = Inr ?v"
    using a h by (simp add: accept_handler_def s fresh_server_def)
  moreover have "server_enabled (SvAccepted sk) s" by (simp add: s fresh_server_def)
  moreover have "server_enabled (SvTask 0 sched) ?v" using sched by (simp add: s fresh_server_def)
  moreover have "server_step pf (SvTask 0 sched) ?v = Inr (?v\<lparr>sv_posted := [], sv_heap := [sc\<lparr>sc_sys := sys\<rparr>]\<rparr>)"
    using assms(3,4) sc(2) cbs by (simp add: server_conn_event_def Let_def del: conn_step.simps(1))
  ultimately have "server_run pf [SvAccepted sk, SvTask 0 sched] s = Inr (?v\<lparr>sv_posted := [], sv_heap := [sc\<lparr>sc_sys := sys\<rparr>]\<rparr>)"
    by (simp del: server_step.simps server_enabled.simps)
  then show ?thesis using cbs
    by (intro exI [of _ "?v\<lparr>sv_posted := [], sv_heap := [sc\<lparr>sc_sys := sys\<rparr>]\<rparr>"] exI [of _ "sc\<lparr>sc_sys := sys\<rparr>"])
      (simp del: server_run.simps)
qed

lemma first_names: "conn_name ''EchoServer'' 0 = ''EchoServer-conn#0''" "conn_name ''SimpleServer'' 0 = ''SimpleServer-conn#0''"
  by (simp_all add: conn_name_def digit_def decimal.simps char_of_def bit_simps)

lemma echo_server_accepts:
  assumes "TCPConn_new (Suc i) sk ''EchoServer-conn#0'' echo_env = Inr c0" and "tc_type c0 = kIncoming"
    and "conn_step (echo_cbs ServerSide) EvAttached (initial_sys c0) = Inr sys"
    and "removed_of sys = removed_of (initial_sys c0)"
    and "s = fresh_server True ''EchoServer'' (Some server_OnConnection) (Some server_OnMessage) echo_env p
      (ThreadSocket i, ThreadLoop i)"
    and "pool_ok pf p" and "is_schedule sched" "\<forall>j. AppStop \<notin> set (sched j)"
  shows "\<exists>s2 sc. server_run pf [SvAccepted sk, SvTask 0 sched] s = Inr s2 \<and> sv_heap s2 = [sc]
    \<and> sc_cbs sc = echo_cbs ServerSide \<and> sc_sys sc = sys"
  unfolding echo_cbs_owner
  by (rule first_accepts [OF assms(1) [folded first_names] assms(2) assms(3) [unfolded echo_cbs_owner] assms(4-8)])

lemma echo_programs_connect:
  assumes "platform_ok pf" and "is_schedule sched" and "\<forall>j. AppStop \<notin> set (sched j)"
    and "echo_server_main pf sched True = Inr (Some (ls, s))" and "\<forall>t \<in> set (tp_threads (sv_pool s)). \<not> ts_app_stop t"
    and "rs ''127.0.0.1'' ''7788''" and "echo_client_main self rs = Inr (lc, c)"
    and "socket_ok ck" and "socket_ok sk"
  shows "\<exists>p. echo_connect rs pf sched ck sk c s = Inr p \<and> conversing p \<and> talk (net_of p)
    \<and> (\<forall>i. length (accepted (conn_at (net_of p) i)) \<le> 17)"
proof -
  obtain p i where s: "s = fresh_server True ''EchoServer'' (Some server_OnConnection) (Some server_OnMessage) echo_env p
      (ThreadSocket i, ThreadLoop i)" and pool: "pool_ok pf p"
    using echo_server_started [OF assms(1,2,4,5)] by blast
  obtain c0 where c0: "TCPConn_new 0 ck ''EchoClient'' echo_env = Inr c0" "new_conn (SetType kOutgoing c0)"
    "is_open (SetType kOutgoing c0)" "ap_console (tc_env (SetType kOutgoing c0)) = []" "accepted c0 = []"
    using echo_conn_new [OF assms(8)] by metis
  obtain s0 where s0: "TCPConn_new (Suc i) sk ''EchoServer-conn#0'' echo_env = Inr s0" "tc_type s0 = kIncoming"
    "new_conn (SetType kIncoming s0)" "is_open (SetType kIncoming s0)" "ap_console (tc_env (SetType kIncoming s0)) = []"
    "accepted s0 = []"
    using echo_conn_new [OF assms(9)] by metis
  have s0': "SetType kIncoming s0 = s0" using s0(2) by (simp add: SetType_def)
  define cs where "cs = (\<lambda>i. case i of ClientSide \<Rightarrow> SetType kOutgoing c0 | ServerSide \<Rightarrow> s0)"
  have new: "new_conn (cs i) \<and> is_open (cs i) \<and> ap_console (tc_env (cs i)) = []" and none: "accepted (cs i) = []" for i
    using c0(2-5) s0(6) s0(3-5) [unfolded s0'] by (cases i; simp add: cs_def)+
  obtain n where step: "\<And>i. conn_step (echo_cbs i) EvAttached (initial_sys (cs i)) = Inr (cn_sys n i)" and talk: "talk n"
    and rd: "\<And>i. reads (conn_at n i) \<noteq> []" and wire: "cn_wire n = (\<lambda>_. [])" "cn_got n = (\<lambda>_. [])"
    and rem: "\<And>i. removed_of (cn_sys n i) = removed_of (initial_sys (cs i))" and few: "\<And>i. length (accepted (conn_at n i)) \<le> 17"
    by (rule both_attached [where c = cs, OF new none]) blast
  have ca: "cs ClientSide = SetType kOutgoing c0" "cs ServerSide = s0" by (simp_all add: cs_def)
  obtain c1 where c1: "client_run rs [ClConnected ck] c = Inr c1"
    "cl_heap c1 = [\<lparr>cc_cbs = echo_cbs ClientSide, cc_sys = cn_sys n ClientSide\<rparr>]"
    using echo_client_connects [OF c0(1) _ step [of ClientSide, unfolded ca] rem [of ClientSide, unfolded ca] assms(7,6)]
      assms(8) by (auto simp: socket_ok_def)
  obtain s2 sc where s2: "server_run pf [SvAccepted sk, SvTask 0 sched] s = Inr s2" "sv_heap s2 = [sc]"
    "sc_cbs sc = echo_cbs ServerSide" "sc_sys sc = cn_sys n ServerSide"
    using echo_server_accepts [OF s0(1,2) step [of ServerSide, unfolded ca] rem [of ServerSide, unfolded ca] s pool assms(2,3)]
    by blast
  let ?p = "\<lparr>ep_client = c1, ep_server = s2, ep_wire = (\<lambda>_. []), ep_got = (\<lambda>_. [])\<rparr>"
  have "cn_sys (net_of ?p) i = cn_sys n i" for i using c1(2) s2(2,4) by (cases i) (simp_all add: net_of_sel)
  then have net: "net_of ?p = n" using wire by (intro net_eqI) (simp_all add: net_of_sel)
  moreover have "conversing ?p" using c1(2) s2(2,3) rd by (simp add: conversing_def net)
  moreover have "echo_connect rs pf sched ck sk c s = Inr ?p" using c1(1) s2(1) by (simp add: echo_connect_def del: client_run.simps server_run.simps)
  ultimately show ?thesis using talk few by (intro exI [of _ ?p]) simp
qed

text \<open>C5. The two echo programs as they are written. When \<open>main\<close> of the server has started its four threads and \<open>main\<close> of
  the client could resolve the address, and both are in their loops: the client's attempt, the server's accept and
  the start of the accepted connection on the loop of its thread succeed, with the callbacks in place although
  the client connects before it sets them; at most one message each is then taken over. From then on, whatever undisturbed events the two programs see, each prints
  nothing but a beginning of the other's message repeated, and, as long as less than 1 EiB was sent, at most
  four further events of the programs make one of them print more.\<close>

theorem echo_programs_converse:
  assumes "platform_ok pf" and "is_schedule sched" and "\<forall>j. AppStop \<notin> set (sched j)"
    and "echo_server_main pf sched True = Inr (Some (ls, s))" and "\<forall>t \<in> set (tp_threads (sv_pool s)). \<not> ts_app_stop t"
    and "rs ''127.0.0.1'' ''7788''" and "socket_ok ck" and "socket_ok sk"
  shows "\<exists>lc c p. echo_client_main self rs = Inr (lc, c) \<and> echo_connect rs pf sched ck sk c s = Inr p
    \<and> (\<forall>i. length (accepted (conn_at (net_of p) i)) \<le> 17)
    \<and> (\<forall>evs p'. (\<forall>(i, ev) \<in> set evs. undisturbed ev) \<longrightarrow> program_run rs pf evs p = Inr p' \<longrightarrow>
        (\<forall>i. \<exists>k. prefix (printed (conn_at (net_of p') i)) (concat (replicate k (hello (peer_of i)))))
        \<and> ((\<forall>i. length (accepted (conn_at (net_of p') i)) + 34 < 2 ^ 60) \<longrightarrow>
            (\<exists>more p'' i. length more \<le> 4 \<and> (\<forall>(j, ev) \<in> set more. undisturbed ev) \<and> program_run rs pf more p' = Inr p''
              \<and> length (printed (conn_at (net_of p') i)) < length (printed (conn_at (net_of p'') i)))))"
proof -
  obtain lc c where c: "echo_client_main self rs = Inr (lc, c)" using echo_client_started [of rs self, OF assms(6)] by simp
  obtain p where p: "echo_connect rs pf sched ck sk c s = Inr p" "conversing p" "talk (net_of p)"
    "\<forall>i. length (accepted (conn_at (net_of p) i)) \<le> 17"
    using echo_programs_connect [OF assms(1-6) c assms(7,8)] by blast
  have "(\<exists>more p'' i. length more \<le> 4 \<and> (\<forall>(j, ev) \<in> set more. undisturbed ev) \<and> program_run rs pf more p' = Inr p''
      \<and> length (printed (conn_at (net_of p') i)) < length (printed (conn_at (net_of p'') i)))"
    if conv: "conversing p'" and talk: "talk (net_of p')"
      and few: "\<And>i. length (accepted (conn_at (net_of p') i)) + 34 < 2 ^ 60" for p'
  proof -
    obtain more n i where more: "length more \<le> 4" "\<forall>(j, ev) \<in> set more. undisturbed ev"
      "net_run echo_cbs more (net_of p') = Inr n" "length (printed (conn_at (net_of p') i)) < length (printed (conn_at n i))"
      using talk_prints_more [OF talk few] by blast
    from net_run_programs [OF conv talk more(2,3), of rs pf] more show ?thesis by blast
  qed
  then show ?thesis using c p(1,4) program_run_talks [OF p(2,3), of _ rs pf] talk_prints by blast
qed

section \<open>The programs on one machine\<close>

definition name_server :: resolver where
  "name_server addr port = (addr = ''127.0.0.1'' \<and> port = ''7788'')"

lemma demo_socket_ok: "socket_ok demo_socket"
  by (simp add: socket_ok_def demo_socket_def)

lemma one_started:
  "\<exists>t. start_thread server_exec decimal 0 Suc (\<lambda>i. ()) True (server_sched i) i = Inr (Some t) \<and> \<not> ts_app_stop t"
  by (simp add: start_thread_def thread_eval server_sched_def)

lemma all_started:
  "\<forall>t \<in> set ts. \<not> ts_app_stop t \<Longrightarrow>
   \<exists>us. start_threads server_exec decimal 0 Suc (\<lambda>i. ()) True server_sched k ts = Inr (Some us)
     \<and> (\<forall>t \<in> set us. \<not> ts_app_stop t)"
proof (induction k arbitrary: ts)
  case (Suc k)
  obtain t where t: "start_thread server_exec decimal 0 Suc (\<lambda>i. ()) True (server_sched (length ts)) (length ts) = Inr (Some t)"
    "\<not> ts_app_stop t" using one_started by blast
  then have "\<forall>t \<in> set (ts @ [t]). \<not> ts_app_stop t" using Suc.prems by auto
  from Suc.IH [OF this] t(1) show ?case by simp
qed simp

lemma demo_server_starts:
  assumes "sv_pool s = EventLoopThreadPool_new n"
  shows "\<exists>s'. TCPServer_Start demo_platform server_sched s = Inr (Some s') \<and> (\<forall>t \<in> set (tp_threads (sv_pool s')). \<not> ts_app_stop t)"
proof -
  let ?p = "EventLoopThreadPool_new n"
  obtain us where us: "start_threads server_exec decimal 0 Suc (\<lambda>i. ()) True server_sched (unat n) [] = Inr (Some us)"
    "\<forall>t \<in> set us. \<not> ts_app_stop t" using all_started [of "[]"] by auto
  let ?q = "?p\<lparr>tp_threads := us, tp_started := True\<rparr>"
  have run: "EventLoopThreadPool_Start server_exec decimal 0 Suc (\<lambda>i. ()) True server_sched ?p = Inr (Some (True, ?q))"
    using us(1) by (simp add: EventLoopThreadPool_Start_def EventLoopThreadPool_new_def)
  have sched: "is_schedule server_sched" by (simp add: is_schedule_def server_sched_def)
  have "tp_threads ?p = []" by (simp add: EventLoopThreadPool_new_def)
  from pool_start_spec [OF sched _ this run] us(2) have ok: "pool_ok demo_platform (sv_pool (s\<lparr>sv_pool := ?q\<rparr>))"
    by (simp add: pool_ok_def demo_platform_def)
  obtain p r where a: "AsyncAccept (s\<lparr>sv_pool := ?q\<rparr>) = Inr (s\<lparr>sv_pool := ?q\<rparr>\<lparr>sv_pool := p,
      sv_accept := sv_accept (s\<lparr>sv_pool := ?q\<rparr>) @ [r]\<rparr>)" and p: "tp_threads p = tp_threads (sv_pool (s\<lparr>sv_pool := ?q\<rparr>))"
    by (rule AsyncAccept_spec [OF ok])
  show ?thesis using assms run a p us(2) by (simp add: TCPServer_Start_def demo_platform_def)
qed

theorem echo_programs_converse_witness:
  "\<exists>ls s lc c p. echo_server_main demo_platform server_sched True = Inr (Some (ls, s))
    \<and> echo_client_main 0 name_server = Inr (lc, c)
    \<and> echo_connect name_server demo_platform server_sched demo_socket demo_socket c s = Inr p
    \<and> (\<exists>more p' i. length more \<le> 4 \<and> program_run name_server demo_platform more p = Inr p'
        \<and> printed (conn_at (net_of p') i) \<noteq> [])"
proof -
  obtain s0 where new: "TCPServer_new True False ''EchoServer'' 4 echo_env = Inr s0"
    "sv_pool s0 = EventLoopThreadPool_new 4" by (simp add: TCPServer_new_def)
  let ?s1 = "TCPServer_SetMessageCallback (Some server_OnMessage) (SetConnectionCallback (Some server_OnConnection) s0)"
  have "sv_pool ?s1 = EventLoopThreadPool_new 4"
    using new(2) by (simp add: TCPServer_SetMessageCallback_def SetConnectionCallback_def)
  from demo_server_starts [OF this] obtain s' where
    s': "TCPServer_Start demo_platform server_sched ?s1 = Inr (Some s')" "\<forall>t \<in> set (tp_threads (sv_pool s')). \<not> ts_app_stop t"
    by blast
  then obtain ls s where s: "echo_server_main demo_platform server_sched True = Inr (Some (ls, s))"
    and q: "\<forall>t \<in> set (tp_threads (sv_pool s)). \<not> ts_app_stop t"
    using new(1) by (simp add: echo_server_main_def Let_def EventLoop_new_def EventLoop_IsRunning_def)
  have sched: "is_schedule server_sched" "\<forall>j. AppStop \<notin> set (server_sched j)" by (simp_all add: is_schedule_def server_sched_def)
  have "name_server ''127.0.0.1'' ''7788''" by (simp add: name_server_def)
  from echo_programs_converse [where self = 0 and rs = name_server, OF demo_platform_ok sched s q this demo_socket_ok demo_socket_ok]
  obtain lc c p where c: "echo_client_main 0 name_server = Inr (lc, c)"
    and p: "echo_connect name_server demo_platform server_sched demo_socket demo_socket c s = Inr p"
    and few: "\<forall>i. length (accepted (conn_at (net_of p) i)) \<le> 17"
    and all: "\<forall>evs p'. (\<forall>(i, ev) \<in> set evs. undisturbed ev) \<longrightarrow> program_run name_server demo_platform evs p = Inr p' \<longrightarrow>
        (\<forall>i. \<exists>k. prefix (printed (conn_at (net_of p') i)) (concat (replicate k (hello (peer_of i)))))
        \<and> ((\<forall>i. length (accepted (conn_at (net_of p') i)) + 34 < 2 ^ 60) \<longrightarrow>
            (\<exists>more p'' i. length more \<le> 4 \<and> (\<forall>(j, ev) \<in> set more. undisturbed ev)
              \<and> program_run name_server demo_platform more p' = Inr p''
              \<and> length (printed (conn_at (net_of p') i)) < length (printed (conn_at (net_of p'') i))))"
    by blast
  have "length (accepted (conn_at (net_of p) i)) + 34 < 2 ^ 60" for i using few [rule_format, of i] by simp
  with all [THEN spec, of "[]", THEN spec, of p] obtain more p' i where "length more \<le> 4"
    "program_run name_server demo_platform more p = Inr p'"
    "length (printed (conn_at (net_of p) i)) < length (printed (conn_at (net_of p') i))" by auto
  then have "\<exists>more p' i. length more \<le> 4 \<and> program_run name_server demo_platform more p = Inr p'
      \<and> printed (conn_at (net_of p') i) \<noteq> []"
    by (intro exI [of _ more] exI [of _ p'] exI [of _ i]) auto
  then show ?thesis using s c p by blast
qed

end
