(* ===== verification/Log_Config.thy ===== *)
theory Log_Config
  imports Asio_Base
begin

text \<open>
  The reading of configurations in the logger that the packet programs use
  (\<open>examples/tcp_cereal_packet/utility/log4z.cpp\<close>): paths, trimming, the splitting of lines, and
  the parser of a line. A \<open>std::map\<close> with the parsed loggers is an association list with each key
  once. Lengths are below \<open>2 ^ 31\<close>, where the code's \<open>int\<close> positions are exact; what the parser
  prints is left out.
\<close>

section \<open>Characters\<close>

definition CR :: char where "CR = CHR 0x0D"
definition LF :: char where "LF = CHR 0x0A"
definition TAB :: char where "TAB = CHR 0x09"
definition SPACE :: char where "SPACE = CHR 0x20"
definition BACKSLASH :: char where "BACKSLASH = CHR 0x5C"

lemmas char_defs = CR_def LF_def TAB_def SPACE_def BACKSLASH_def

text \<open>\<open>::tolower\<close> in the C locale, over a string.\<close>

definition tolower :: "char \<Rightarrow> char" where
  "tolower c = (if 65 \<le> (of_char c :: nat) \<and> (of_char c :: nat) \<le> 90 then char_of ((of_char c :: nat) + 32) else c)"

text \<open>\<open>atoi\<close>: white space, a sign, digits; nothing else is looked at.\<close>

definition is_digit :: "char \<Rightarrow> bool" where
  "is_digit c = (48 \<le> (of_char c :: nat) \<and> (of_char c :: nat) \<le> 57)"

definition is_white :: "char \<Rightarrow> bool" where
  "is_white c = (c = SPACE \<or> (9 \<le> (of_char c :: nat) \<and> (of_char c :: nat) \<le> 13))"

definition atoi :: "string \<Rightarrow> int" where
  "atoi s =
     (case dropWhile is_white s of
        [] \<Rightarrow> 0
      | c # cs \<Rightarrow>
          if c = CHR 0x2D then - int (undecimal (takeWhile is_digit cs))
          else if c = CHR 0x2B then int (undecimal (takeWhile is_digit cs))
          else int (undecimal (takeWhile is_digit (c # cs))))"

section \<open>Strings\<close>

definition fixPath :: "string \<Rightarrow> string" where
  "fixPath path =
     (if path = [] then path
      else let p = map (\<lambda>c. if c = BACKSLASH then CHR ''/'' else c) path
           in if last p \<noteq> CHR ''/'' then p @ ''/'' else p)"

text \<open>
  \<open>trimLogConfig\<close>: one pass over the characters from \<open>posBegin\<close> on, \<open>i\<close> being the position of the
  first of \<open>cs\<close>.
\<close>

fun trim_loop :: "string \<Rightarrow> string \<Rightarrow> nat \<Rightarrow> nat \<Rightarrow> nat \<Rightarrow> nat \<times> nat" where
  "trim_loop ign [] i posBegin posEnd = (posBegin, posEnd)"
| "trim_loop ign (c # cs) i posBegin posEnd =
     (let bCheck = list_ex (\<lambda>x. c = x) ign
      in if bCheck
         then trim_loop ign cs (Suc i) (if i = posBegin then Suc posBegin else posBegin) posEnd
         else trim_loop ign cs (Suc i) posBegin (Suc i))"

definition has_bom :: "string \<Rightarrow> bool" where
  "has_bom str = (length str \<ge> 3 \<and> str ! 0 = CHR 0xEF \<and> str ! 1 = CHR 0xBB \<and> str ! 2 = CHR 0xBF)"

definition trimLogConfig :: "string \<Rightarrow> string \<Rightarrow> string" where
  "trimLogConfig str extIgnore =
     (if str = [] then str
      else
        let ign = extIgnore @ [CR, LF, TAB, SPACE];
            b = (if has_bom str then 3 else 0);
            (posBegin, posEnd) = trim_loop ign (drop b str) b b 0
        in if posBegin < posEnd then take (posEnd - posBegin) (drop posBegin str) else [])"

text \<open>\<open>std::string::find\<close> of a string.\<close>

fun find_sub :: "string \<Rightarrow> string \<Rightarrow> nat option" where
  "find_sub d [] = (if d = [] then Some 0 else None)"
| "find_sub d (c # cs) = (if take (length d) (c # cs) = d then Some 0 else map_option Suc (find_sub d cs))"

definition splitPairString :: "string \<Rightarrow> string \<Rightarrow> string \<times> string" where
  "splitPairString str delimiter =
     (case find_sub delimiter str of
        None \<Rightarrow> (str, [])
      | Some pos \<Rightarrow> (take pos str, drop (pos + length delimiter) str))"

section \<open>Loggers\<close>

definition LOG_LEVEL_TRACE :: int where "LOG_LEVEL_TRACE = 0"
definition LOG_LEVEL_DEBUG :: int where "LOG_LEVEL_DEBUG = 1"
definition LOG_LEVEL_INFO :: int where "LOG_LEVEL_INFO = 2"
definition LOG_LEVEL_WARN :: int where "LOG_LEVEL_WARN = 3"
definition LOG_LEVEL_ERROR :: int where "LOG_LEVEL_ERROR = 4"
definition LOG_LEVEL_ALARM :: int where "LOG_LEVEL_ALARM = 5"
definition LOG_LEVEL_FATAL :: int where "LOG_LEVEL_FATAL = 6"

text \<open>The attributes, and the runtime information on the current file; the handle is the path it is open on.\<close>

record logger_info =
  li_key :: string
  li_name :: string
  li_path :: string
  li_level :: int
  li_display :: bool
  li_outfile :: bool
  li_monthdir :: bool
  li_limitsize :: uint32
  li_reservedays :: uint32
  li_enable :: bool
  li_fileLine :: bool
  li_curFileCreateTime :: int
  li_curFileIndex :: uint32
  li_curWriteLen :: uint32
  li_handle :: "string option"

definition LoggerInfo_new :: logger_info where
  "LoggerInfo_new = \<lparr>li_key = [], li_name = [], li_path = ''./log/'', li_level = LOG_LEVEL_DEBUG,
     li_display = True, li_outfile = True, li_monthdir = False, li_limitsize = 100,
     li_reservedays = 7, li_enable = False, li_fileLine = True,
     li_curFileCreateTime = 0, li_curFileIndex = 0, li_curWriteLen = 0, li_handle = None\<rparr>"

type_synonym infos = "(string \<times> logger_info) list"

definition update_info :: "string \<Rightarrow> (logger_info \<Rightarrow> logger_info) \<Rightarrow> infos \<Rightarrow> infos" where
  "update_info key f out = map (\<lambda>(k, v). if k = key then (k, f v) else (k, v)) out"

section \<open>Parsing\<close>

text \<open>A switch of the configuration.\<close>

definition config_bool :: "string \<Rightarrow> bool" where
  "config_bool v = (if v = ''false'' \<or> v = ''0'' then False else True)"

definition config_level :: "string \<Rightarrow> int option" where
  "config_level v =
     (if v = ''trace'' \<or> v = ''all'' then Some LOG_LEVEL_TRACE
      else if v = ''debug'' then Some LOG_LEVEL_DEBUG
      else if v = ''info'' then Some LOG_LEVEL_INFO
      else if v = ''warn'' \<or> v = ''warning'' then Some LOG_LEVEL_WARN
      else if v = ''error'' then Some LOG_LEVEL_ERROR
      else if v = ''alarm'' then Some LOG_LEVEL_ALARM
      else if v = ''fatal'' then Some LOG_LEVEL_FATAL
      else None)"

text \<open>What one attribute of the current logger becomes; \<open>k\<close> is in lower case already.\<close>

definition set_attribute :: "string \<Rightarrow> string \<Rightarrow> logger_info \<Rightarrow> logger_info" where
  "set_attribute k v li =
     (if k = ''path'' then li\<lparr>li_path := v\<rparr>
      else if k = ''name'' then li\<lparr>li_name := v\<rparr>
      else
        let v = map tolower v
        in if k = ''level'' then (case config_level v of None \<Rightarrow> li | Some l \<Rightarrow> li\<lparr>li_level := l\<rparr>)
           else if k = ''display'' then li\<lparr>li_display := config_bool v\<rparr>
           else if k = ''outfile'' then li\<lparr>li_outfile := config_bool v\<rparr>
           else if k = ''monthdir'' then li\<lparr>li_monthdir := config_bool v\<rparr>
           else if k = ''limitsize'' then li\<lparr>li_limitsize := of_int (atoi v)\<rparr>
           else if k = ''fileline'' then li\<lparr>li_fileLine := config_bool v\<rparr>
           else if k = ''enable'' then li\<lparr>li_enable := config_bool v\<rparr>
           else li)"

definition parseConfigLine :: "string \<Rightarrow> string \<Rightarrow> infos \<Rightarrow> bool \<times> string \<times> infos" where
  "parseConfigLine line key out =
     (let (k, v) = splitPairString line ''=''
      in if k = [] then (False, key, out)
         else
           let k = trimLogConfig k []; v = trimLogConfig v []
           in if k = [] \<or> hd k = CHR ''#'' then (True, key, out)
              else if hd k = CHR ''[''
              then let k = trimLogConfig k ''[]'';
                       key = (if map tolower k = ''main'' then ''Main'' else k)
                   in case map_of out key of
                        None \<Rightarrow> (True, key, out @ [(key, LoggerInfo_new\<lparr>li_enable := True, li_key := key, li_name := key\<rparr>)])
                      | Some li \<Rightarrow> (True, key, out)
              else
                let k = trimLogConfig k []; v = trimLogConfig v []
                in case map_of out key of
                     None \<Rightarrow> (True, key, out)
                   | Some li \<Rightarrow> (True, key, update_info key (set_attribute (map tolower k) v) out))"

text \<open>The lines end at carriage returns and line feeds; the loop carries what is left of the content.\<close>

definition line_end :: "char \<Rightarrow> bool" where
  "line_end c = (c = CR \<or> c = LF)"

function parse_loop :: "string \<Rightarrow> string \<Rightarrow> infos \<Rightarrow> infos" where
  "parse_loop content key out =
     (let line = takeWhile (\<lambda>c. \<not> line_end c) content;
          (_, key', out') = parseConfigLine line key out
      in case dropWhile (\<lambda>c. \<not> line_end c) content of
           [] \<Rightarrow> out'
         | _ # rest \<Rightarrow> parse_loop rest key' out')"
  by pat_completeness auto
termination
proof (relation "measure (\<lambda>(content, key, out). length content)", goal_cases)
  case 1
  show ?case by simp
next
  case (2 content key out x xa y xb ya xc xd)
  have "length (dropWhile (\<lambda>c. \<not> line_end c) content) \<le> length content" by (rule length_dropWhile_le)
  with 2 show ?case by simp
qed

declare parse_loop.simps [simp del]

definition parseConfigFromString :: "string \<Rightarrow> infos \<Rightarrow> bool \<times> infos" where
  "parseConfigFromString content out =
     (if content = [] then (True, out) else (True, parse_loop content [] out))"

end
