(* ===== verification/Log_Stream.thy ===== *)
theory Log_Stream
  imports Asio_Base
begin

text \<open>
  The class \<open>Log4zStream\<close> of \<open>log4z.h\<close>: a stream over a part of a character array, with the positions
  \<open>_begin\<close>, \<open>_end\<close> and \<open>_cur\<close> as offsets into the array. A write outside the array, before it
  included, is the value \<open>OutOfBounds\<close>.

  A value that is written is one of \<open>log_value\<close>, with a constructor for each overload of \<open>operator<<\<close>.
  The bounds and the text of what is written are the subject of the second and third part.
\<close>

section \<open>Formatting\<close>

text \<open>The conversions of \<open>printf\<close> that the code uses.\<close>

definition show_int :: "int \<Rightarrow> string" where
  "show_int i = (if i < 0 then ''-'' @ decimal (nat (- i)) else decimal (nat i))"

text \<open>\<open>%0wd\<close>: at least \<open>w\<close> characters, filled with zeros after the sign.\<close>

definition pad_left :: "nat \<Rightarrow> char \<Rightarrow> string \<Rightarrow> string" where
  "pad_left w c s = replicate (w - length s) c @ s"

definition show_pad :: "nat \<Rightarrow> int \<Rightarrow> string" where
  "show_pad w i =
     (if i < 0 then ''-'' @ pad_left (w - 1) (CHR ''0'') (decimal (nat (- i)))
      else pad_left w (CHR ''0'') (decimal (nat i)))"

definition hex_digit :: "nat \<Rightarrow> char" where
  "hex_digit n = (if n < 10 then char_of (48 + n) else char_of (87 + n))"

fun hexadecimal :: "nat \<Rightarrow> string" where
  "hexadecimal n = (if n < 16 then [hex_digit n] else hexadecimal (n div 16) @ [hex_digit (n mod 16)])"

declare hexadecimal.simps [simp del]

definition isprint :: "char \<Rightarrow> bool" where
  "isprint c = (32 \<le> (of_char c :: nat) \<and> (of_char c :: nat) \<le> 126)"

definition NUL :: char where "NUL = CHR 0x00"

section \<open>The array\<close>

definition put :: "int \<Rightarrow> string \<Rightarrow> string \<Rightarrow> string res" where
  "put i s mem =
     (if 0 \<le> i \<and> nat i + length s \<le> length mem
      then Inr (take (nat i) mem @ s @ drop (nat i + length s) mem)
      else Inl OutOfBounds)"

record log_stream =
  ls_mem :: string
  ls_begin :: int
  ls_end :: int
  ls_cur :: int

definition Log4zStream_new :: "string \<Rightarrow> int \<Rightarrow> int \<Rightarrow> log_stream" where
  "Log4zStream_new mem buf len = \<lparr>ls_mem = mem, ls_begin = buf, ls_end = buf + len, ls_cur = buf\<rparr>"

definition getCurrentLen :: "log_stream \<Rightarrow> int" where
  "getCurrentLen s = ls_cur s - ls_begin s"

section \<open>Writing\<close>

text \<open>
  \<open>writeData\<close>, for the text that \<open>snprintf\<close> gives in full for the format and the argument; \<open>None\<close>
  is a negative result. \<open>snprintf\<close> itself writes at most \<open>count\<close> characters, the last of them a NUL.
\<close>

definition writeData :: "string option \<Rightarrow> log_stream \<Rightarrow> log_stream res" where
  "writeData out s =
     (if ls_cur s < ls_end s then
        let count = nat (ls_end s - ls_cur s)
        in case out of
             None \<Rightarrow> rbind (put (ls_cur s) [NUL] (ls_mem s)) (\<lambda>mem. Inr (s\<lparr>ls_mem := mem\<rparr>))
           | Some text \<Rightarrow>
               rbind (put (ls_cur s) (take (count - 1) text @ [NUL]) (ls_mem s)) (\<lambda>mem.
               if length text \<ge> count
               then rbind (put (ls_end s - 1) [NUL] mem) (\<lambda>mem.
                      Inr (s\<lparr>ls_mem := mem, ls_cur := ls_cur s + int count\<rparr>))
               else Inr (s\<lparr>ls_mem := mem, ls_cur := ls_cur s + int (length text)\<rparr>))
      else Inr s)"

definition writeString :: "string \<Rightarrow> log_stream \<Rightarrow> log_stream res" where
  "writeString t s =
     (if ls_cur s < ls_end s then
        let count = nat (ls_end s - ls_cur s);
            len = (if length t > count then count else length t)
        in rbind (put (ls_cur s) (take len t) (ls_mem s)) (\<lambda>mem.
           let cur = ls_cur s + int len
           in rbind (if cur \<ge> ls_end s - 1 then put (ls_end s - 1) [NUL] mem
                     else put (cur + 1) [NUL] mem)
                (\<lambda>mem. Inr (s\<lparr>ls_mem := mem, ls_cur := cur\<rparr>)))
      else Inr s)"

definition writeLongLong :: "64 word \<Rightarrow> log_stream \<Rightarrow> log_stream res" where
  "writeLongLong t = writeData (Some (show_int (sint t)))"

definition writeULongLong :: "64 word \<Rightarrow> log_stream \<Rightarrow> log_stream res" where
  "writeULongLong t = writeData (Some (decimal (unat t)))"

definition writePointer :: "64 word \<Rightarrow> log_stream \<Rightarrow> log_stream res" where
  "writePointer t = writeData (Some (pad_left 16 (CHR ''0'') (hexadecimal (unat t))))"

text \<open>\<open>writeBinary\<close>: rows of at most sixteen bytes, each row twice; \<open>bs\<close> are the bytes of the row.\<close>

definition CRLFTAB :: string where "CRLFTAB = [CHR 0x0D, CHR 0x0A, CHR 0x09]"

fun write_all :: "(log_stream \<Rightarrow> log_stream res) list \<Rightarrow> log_stream \<Rightarrow> log_stream res" where
  "write_all [] s = Inr s"
| "write_all (w # ws) s = rbind (w s) (write_all ws)"

definition binary_row :: "64 word \<Rightarrow> char list \<Rightarrow> log_stream \<Rightarrow> log_stream res" where
  "binary_row addr bs = write_all
     ([writeData (Some CRLFTAB), writePointer addr, writeData (Some '': '')]
      @ map (\<lambda>b. writeData (Some (pad_left 2 (CHR ''0'') (hexadecimal (of_char b)) @ '' ''))) bs
      @ [writeData (Some CRLFTAB), writePointer addr, writeData (Some '': '')]
      @ map (\<lambda>b. if isprint b then writeData (Some ('' '' @ [b] @ '' '')) else writeString '' . '') bs)"

definition writeBinary :: "64 word \<Rightarrow> char list \<Rightarrow> log_stream \<Rightarrow> log_stream res" where
  "writeBinary buf bs = write_all
     ([writeData (Some (CRLFTAB @ ''[''))]
      @ map (\<lambda>i. binary_row (buf + of_nat (i * 16)) (take 16 (drop (i * 16) bs))) [0..<length bs div 16 + 1]
      @ [writeData (Some (CRLFTAB @ '']'' @ CRLFTAB))])"

section \<open>Values\<close>

datatype log_container = CVector | CList | CDeque | CMap

text \<open>
  The entries of a map are pairs. A floating-point value is given by the text of \<open>%.4f\<close> for it.
\<close>

datatype log_value =
    VPointer "64 word"
  | VCString string
  | VBool bool
  | VChar char
  | VUChar "8 word"
  | VShort "16 word"
  | VUShort "16 word"
  | VInt "32 word"
  | VUInt "32 word"
  | VLong "64 word"
  | VULong "64 word"
  | VLongLong "64 word"
  | VULongLong "64 word"
  | VFloat string
  | VString string
  | VBinary "64 word" "char list"
  | VPair log_value log_value
  | VSeq log_container "log_value list"

definition LOG4Z_LOG_CONTAINER_DEPTH :: nat where "LOG4Z_LOG_CONTAINER_DEPTH = 5"

fun container_name :: "log_container \<Rightarrow> string" where
  "container_name CVector = ''vector(''"
| "container_name CList = ''list(''"
| "container_name CDeque = ''deque(''"
| "container_name CMap = ''map(''"

text \<open>
  \<open>operator<<\<close>, and the loop over the elements of a container, \<open>n\<close> being \<open>inputCount\<close>. After the loop
  of a container that is not empty the separator written last is taken back.
\<close>

fun stream_out :: "log_value \<Rightarrow> log_stream \<Rightarrow> log_stream res"
  and stream_elems :: "nat \<Rightarrow> log_value list \<Rightarrow> log_stream \<Rightarrow> log_stream res" where
  "stream_out (VPointer t) s = writePointer t s"
| "stream_out (VCString t) s = writeString t s"
| "stream_out (VBool t) s = (if t then writeData (Some ''true'') s else writeData (Some ''false'') s)"
| "stream_out (VChar t) s = writeData (Some [t]) s"
| "stream_out (VUChar t) s = writeData (Some (decimal (unat t))) s"
| "stream_out (VShort t) s = writeData (Some (show_int (sint t))) s"
| "stream_out (VUShort t) s = writeData (Some (decimal (unat t))) s"
| "stream_out (VInt t) s = writeData (Some (show_int (sint t))) s"
| "stream_out (VUInt t) s = writeData (Some (decimal (unat t))) s"
| "stream_out (VLong t) s = writeLongLong t s"
| "stream_out (VULong t) s = writeULongLong t s"
| "stream_out (VLongLong t) s = writeLongLong t s"
| "stream_out (VULongLong t) s = writeULongLong t s"
| "stream_out (VFloat t) s = writeData (Some t) s"
| "stream_out (VString t) s = writeString t s"
| "stream_out (VBinary buf bs) s = writeBinary buf bs s"
| "stream_out (VPair a b) s =
     rbind (writeString ''pair('' s) (\<lambda>s. rbind (stream_out a s) (\<lambda>s. rbind (writeString '':'' s) (\<lambda>s.
     rbind (stream_out b s) (writeString '')''))))"
| "stream_out (VSeq k vs) s =
     rbind (writeString (container_name k) s) (\<lambda>s.
     rbind (writeULongLong (of_nat (length vs)) s) (\<lambda>s.
     rbind (writeString '')['' s) (\<lambda>s.
     rbind (stream_elems 0 vs s) (\<lambda>s.
     let s = (if vs \<noteq> [] then s\<lparr>ls_cur := ls_cur s - 2\<rparr> else s)
     in writeString '']'' s))))"
| "stream_elems n [] s = Inr s"
| "stream_elems n (v # vs) s =
     (let n = n + 1
      in if n > LOG4Z_LOG_CONTAINER_DEPTH then writeString ''..., '' s
         else rbind (stream_out v s) (\<lambda>s. rbind (writeString '', '' s) (stream_elems n vs)))"

text \<open>A chain \<open>ss << v1 << v2 << \<dots>\<close>.\<close>

definition stream_chain :: "log_value list \<Rightarrow> log_stream \<Rightarrow> log_stream res" where
  "stream_chain vs = write_all (map stream_out vs)"


section \<open>Staying inside\<close>

definition stream_ok :: "log_stream \<Rightarrow> bool" where
  "stream_ok s \<longleftrightarrow> 0 \<le> ls_begin s \<and> ls_begin s \<le> ls_cur s \<and> ls_cur s \<le> ls_end s
     \<and> ls_end s \<le> int (length (ls_mem s))"

text \<open>What writing leaves alone: the bounds, and the array outside them.\<close>

definition same_outside :: "log_stream \<Rightarrow> log_stream \<Rightarrow> bool" where
  "same_outside s s' \<longleftrightarrow> ls_begin s' = ls_begin s \<and> ls_end s' = ls_end s
     \<and> length (ls_mem s') = length (ls_mem s)
     \<and> take (nat (ls_begin s)) (ls_mem s') = take (nat (ls_begin s)) (ls_mem s)
     \<and> drop (nat (ls_end s)) (ls_mem s') = drop (nat (ls_end s)) (ls_mem s)"

lemma same_outside_refl [simp]: "same_outside s s"
  by (simp add: same_outside_def)

lemma same_outside_trans [trans]: "same_outside a b \<Longrightarrow> same_outside b c \<Longrightarrow> same_outside a c"
  by (simp add: same_outside_def)

definition stays :: "log_stream \<Rightarrow> log_stream res \<Rightarrow> bool" where
  "stays s r \<longleftrightarrow> (\<exists>s'. r = Inr s' \<and> stream_ok s' \<and> same_outside s s')"

lemma stays_Inr [simp]: "stays s (Inr s') \<longleftrightarrow> stream_ok s' \<and> same_outside s s'"
  by (simp add: stays_def)

lemma stays_bind:
  assumes "stays s r" and "\<And>s'. r = Inr s' \<Longrightarrow> stream_ok s' \<Longrightarrow> same_outside s s' \<Longrightarrow> stays s' (f s')"
  shows "stays s (rbind r f)"
  using assms same_outside_trans unfolding stays_def by fastforce

lemma put_inside:
  assumes "0 \<le> b" and "b \<le> i" and "i + int (length t) \<le> e" and "e \<le> int (length mem)"
  shows "\<exists>mem'. put i t mem = Inr mem' \<and> length mem' = length mem \<and> take (nat b) mem' = take (nat b) mem
    \<and> drop (nat e) mem' = drop (nat e) mem"
proof -
  let ?mem' = "take (nat i) mem @ t @ drop (nat i + length t) mem"
  have le: "nat i + length t \<le> nat e" "nat e \<le> length mem" "nat b \<le> nat i" using assms by linarith+
  then have t: "length mem \<le> nat i \<longrightarrow> t = []" by (cases t) auto
  from le have "put i t mem = Inr ?mem'" using assms by (simp add: put_def)
  moreover have "drop (nat e) ?mem' = drop (nat e) mem"
    using le t by (simp add: min_def)
  ultimately show ?thesis using le t by (auto simp: min_def)
qed

text \<open>The two primitive operations, with the position they reach.\<close>

lemma writeData_reaches:
  assumes "stream_ok s"
  shows "\<exists>s'. writeData (Some t) s = Inr s' \<and> stream_ok s' \<and> same_outside s s'
    \<and> ls_cur s' = min (ls_end s) (ls_cur s + int (length t))"
proof (cases "ls_cur s < ls_end s")
  case False
  with assms show ?thesis by (simp add: writeData_def stream_ok_def)
next
  case True
  let ?n = "nat (ls_end s - ls_cur s)"
  have b: "0 \<le> ls_begin s" "ls_begin s \<le> ls_cur s" "ls_end s \<le> int (length (ls_mem s))"
    using assms by (simp_all add: stream_ok_def)
  have n: "0 < ?n" "int ?n = ls_end s - ls_cur s" using True by simp_all
  have t: "ls_cur s + int (length (take (?n - 1) t @ [NUL])) \<le> ls_end s" using n by simp
  obtain m1 where m1: "put (ls_cur s) (take (?n - 1) t @ [NUL]) (ls_mem s) = Inr m1"
    "length m1 = length (ls_mem s)" "take (nat (ls_begin s)) m1 = take (nat (ls_begin s)) (ls_mem s)"
    "drop (nat (ls_end s)) m1 = drop (nat (ls_end s)) (ls_mem s)"
    using put_inside [OF b(1,2) t b(3)] by blast
  have e: "ls_begin s \<le> ls_end s - 1" "ls_end s - 1 + int (length [NUL]) \<le> ls_end s"
    "ls_end s \<le> int (length m1)" using b True m1 by simp_all
  obtain m2 where m2: "put (ls_end s - 1) [NUL] m1 = Inr m2"
    "length m2 = length m1" "take (nat (ls_begin s)) m2 = take (nat (ls_begin s)) m1"
    "drop (nat (ls_end s)) m2 = drop (nat (ls_end s)) m1"
    using put_inside [OF b(1) e] by blast
  show ?thesis
  proof (cases "length t \<ge> ?n")
    case True': True
    then have "writeData (Some t) s = Inr (s\<lparr>ls_mem := m2, ls_cur := ls_cur s + int ?n\<rparr>)"
      using True m1(1) m2(1) by (simp add: writeData_def)
    then show ?thesis using assms m1 m2 n True' by (auto simp: stream_ok_def same_outside_def)
  next
    case False
    then have "writeData (Some t) s = Inr (s\<lparr>ls_mem := m1, ls_cur := ls_cur s + int (length t)\<rparr>)"
      using True m1(1) by (simp add: writeData_def)
    then show ?thesis using assms m1 n False by (auto simp: stream_ok_def same_outside_def)
  qed
qed

lemma writeString_reaches:
  assumes "stream_ok s"
  shows "\<exists>s'. writeString t s = Inr s' \<and> stream_ok s' \<and> same_outside s s'
    \<and> ls_cur s' = min (ls_end s) (ls_cur s + int (length t))"
proof (cases "ls_cur s < ls_end s")
  case False
  with assms show ?thesis by (simp add: writeString_def stream_ok_def)
next
  case True
  let ?n = "nat (ls_end s - ls_cur s)"
  define k where "k = (if length t > ?n then ?n else length t)"
  let ?c = "ls_cur s + int k"
  have b: "0 \<le> ls_begin s" "ls_begin s \<le> ls_cur s" "ls_end s \<le> int (length (ls_mem s))"
    using assms by (simp_all add: stream_ok_def)
  have k: "k \<le> length t" "?c = min (ls_end s) (ls_cur s + int (length t))" using True by (auto simp: k_def)
  have t: "ls_cur s + int (length (take k t)) \<le> ls_end s" using k by simp
  obtain m1 where m1: "put (ls_cur s) (take k t) (ls_mem s) = Inr m1"
    "length m1 = length (ls_mem s)" "take (nat (ls_begin s)) m1 = take (nat (ls_begin s)) (ls_mem s)"
    "drop (nat (ls_end s)) m1 = drop (nat (ls_end s)) (ls_mem s)"
    using put_inside [OF b(1,2) t b(3)] by blast
  define i where "i = (if ?c \<ge> ls_end s - 1 then ls_end s - 1 else ?c + 1)"
  have e: "ls_begin s \<le> i" "i + int (length [NUL]) \<le> ls_end s" "ls_end s \<le> int (length m1)"
    using b True m1 by (auto simp: i_def)
  obtain m2 where m2: "put i [NUL] m1 = Inr m2"
    "length m2 = length m1" "take (nat (ls_begin s)) m2 = take (nat (ls_begin s)) m1"
    "drop (nat (ls_end s)) m2 = drop (nat (ls_end s)) m1"
    using put_inside [OF b(1) e] by blast
  have "(if ?c \<ge> ls_end s - 1 then put (ls_end s - 1) [NUL] m1 else put (?c + 1) [NUL] m1) = Inr m2"
    using m2(1) by (auto simp: i_def)
  then have "writeString t s = Inr (s\<lparr>ls_mem := m2, ls_cur := ?c\<rparr>)"
    using True m1(1) unfolding writeString_def Let_def k_def [symmetric] by simp
  then show ?thesis using assms m1 m2 k(2) by (auto simp: stream_ok_def same_outside_def)
qed

lemma writeData_stays: "stream_ok s \<Longrightarrow> stays s (writeData (Some t) s)"
  using writeData_reaches [of s t] unfolding stays_def by blast

lemma writeString_stays: "stream_ok s \<Longrightarrow> stays s (writeString t s)"
  using writeString_reaches [of s t] unfolding stays_def by blast

lemma number_stays:
  "stream_ok s \<Longrightarrow> stays s (writeLongLong t s)"
  "stream_ok s \<Longrightarrow> stays s (writeULongLong t s)"
  "stream_ok s \<Longrightarrow> stays s (writePointer t s)"
  by (simp_all add: writeLongLong_def writeULongLong_def writePointer_def writeData_stays)

lemmas primitive_stays = writeData_stays writeString_stays number_stays

lemma write_all_stays:
  assumes "\<And>w s. w \<in> set ws \<Longrightarrow> stream_ok s \<Longrightarrow> stays s (w s)" and "stream_ok s"
  shows "stays s (write_all ws s)"
  using assms
proof (induction ws arbitrary: s)
  case (Cons w ws)
  then show ?case by (auto intro!: stays_bind)
qed simp

lemma writeBinary_stays: "stream_ok s \<Longrightarrow> stays s (writeBinary buf bs s)"
  unfolding writeBinary_def binary_row_def
  by (intro write_all_stays) (auto simp: primitive_stays intro!: write_all_stays)

text \<open>
  A container takes two characters back, so the room between the bounds has to be two at least;
  then there are two characters to take, whatever was cut off.
\<close>

lemma separator_room:
  assumes "stream_ok s" and "2 \<le> ls_end s - ls_begin s" and "2 \<le> length t" and "writeString t s = Inr s'"
  shows "ls_begin s' + 2 \<le> ls_cur s'"
  using writeString_reaches [OF assms(1), of t] assms by (auto simp: same_outside_def stream_ok_def)

lemma stream_out_stays:
  "stream_ok s \<Longrightarrow> 2 \<le> ls_end s - ls_begin s \<Longrightarrow> stays s (stream_out v s)"
  "stream_ok s \<Longrightarrow> 2 \<le> ls_end s - ls_begin s \<Longrightarrow>
    stays s (stream_elems n vs s) \<and> (vs \<noteq> [] \<longrightarrow> (\<forall>s'. stream_elems n vs s = Inr s' \<longrightarrow> ls_begin s' + 2 \<le> ls_cur s'))"
proof (induction v s and n vs s rule: stream_out_stream_elems.induct)
  case (17 a b s)
  then show ?case
    by (auto intro!: stays_bind primitive_stays) (simp_all add: same_outside_def)
next
  case (18 k vs s)
  have "stays s (rbind (writeString (container_name k) s) (\<lambda>s. rbind (writeULongLong (of_nat (length vs)) s)
      (writeString '')['')))" using 18(2) by (auto intro!: stays_bind primitive_stays)
  then obtain s1 s2 s3 where w: "writeString (container_name k) s = Inr s1"
    "writeULongLong (of_nat (length vs)) s1 = Inr s2" "writeString '')['' s2 = Inr s3"
    and s3: "stream_ok s3" "same_outside s s3" by (auto simp: stays_def)
  have room: "2 \<le> ls_end s3 - ls_begin s3" using s3 18(3) by (simp add: same_outside_def)
  from 18(1) [OF s3(1) room] obtain s4 where s4: "stream_elems 0 vs s3 = Inr s4" "stream_ok s4"
    "same_outside s3 s4" "vs \<noteq> [] \<longrightarrow> ls_begin s4 + 2 \<le> ls_cur s4" by (auto simp: stays_def)
  let ?s = "if vs \<noteq> [] then s4\<lparr>ls_cur := ls_cur s4 - 2\<rparr> else s4"
  have ok: "stream_ok ?s" using s4(2,4) by (auto simp: stream_ok_def)
  have "same_outside s ?s" using same_outside_trans [OF s3(2) s4(3)] by (simp add: same_outside_def)
  moreover obtain s5 where "writeString '']'' ?s = Inr s5" "stream_ok s5" "same_outside ?s s5"
    using primitive_stays(2) [OF ok, of "'']''"] unfolding stays_def by blast
  moreover have "stream_out (VSeq k vs) s = writeString '']'' ?s" using w s4(1) by (simp add: Let_def)
  ultimately show ?case using same_outside_trans unfolding stays_def by metis
next
  case (20 n v vs s)
  show ?case
  proof (cases "n + 1 > LOG4Z_LOG_CONTAINER_DEPTH")
    case True
    then have "stream_elems n (v # vs) s = writeString ''..., '' s" by simp
    then show ?thesis using separator_room [of s "''..., ''"] primitive_stays(2) 20(3,4) by simp
  next
    case False
    then obtain s1 where s1: "stream_out v s = Inr s1" "stream_ok s1" "same_outside s s1"
      using 20 by (auto simp: stays_def)
    obtain s2 where s2: "writeString '', '' s1 = Inr s2" "stream_ok s2" "same_outside s1 s2"
      using primitive_stays(2) [OF s1(2), of "'', ''"] by (auto simp: stays_def)
    have r1: "2 \<le> ls_end s1 - ls_begin s1" using s1 20(4) by (simp add: same_outside_def)
    have r2: "2 \<le> ls_end s2 - ls_begin s2" using s2 r1 by (simp add: same_outside_def)
    have "ls_begin s2 + 2 \<le> ls_cur s2" using separator_room [OF s1(2) r1 _ s2(1)] by simp
    moreover have "stays s2 (stream_elems (n + 1) vs s2)
        \<and> (vs \<noteq> [] \<longrightarrow> (\<forall>s'. stream_elems (n + 1) vs s2 = Inr s' \<longrightarrow> ls_begin s' + 2 \<le> ls_cur s'))"
      using 20(2) [OF refl _ s2(2) r2] False by simp
    moreover have eq: "stream_elems n (v # vs) s = stream_elems (n + 1) vs s2"
      using False s1(1) s2(1) by (simp add: Let_def)
    moreover have "same_outside s s2" by (rule same_outside_trans [OF s1(3) s2(3)])
    ultimately show ?thesis
    proof (cases "vs = []")
      case False
      with \<open>stays s2 _ \<and> _\<close> obtain s3 where "stream_elems (n + 1) vs s2 = Inr s3" "stream_ok s3"
        "same_outside s2 s3" "ls_begin s3 + 2 \<le> ls_cur s3" by (auto simp: stays_def)
      with eq same_outside_trans [OF \<open>same_outside s s2\<close>] show ?thesis by (simp add: stays_def)
    qed (simp add: s2(2))
  qed
qed (auto simp: primitive_stays writeBinary_stays)

lemma stream_chain_stays:
  "stream_ok s \<Longrightarrow> 2 \<le> ls_end s - ls_begin s \<Longrightarrow> stays s (stream_chain vs s)"
  unfolding stream_chain_def
proof (induction vs arbitrary: s)
  case (Cons v vs)
  then show ?case by (auto intro!: stays_bind stream_out_stays) (simp add: same_outside_def)
qed simp

end
