(* ===== verification/Log_Files.thy ===== *)
theory Log_Files
  imports Log_Config Log_Stream
begin

text \<open>
  What the logger asks of its surroundings: the clock, the directories and files, and the console
  (the functions of \<open>log4z.cpp\<close> around the class \<open>LogerManager\<close>, and its class
  \<open>Log4zFileHandler\<close>).

  The surroundings are a record. A directory or file is known by the name it is spelled with, slashes
  at the end of a directory's name apart; \<open>le_may_create\<close> says what the system lets the program
  make or open, and \<open>le_space\<close> how many bytes still fit on the disk; \<open>le_pid\<close> is the number of the process. \<open>localtime_r\<close> depends on the
  time zone and is a function of the record. What is written to a file is there at once: \<open>fflush\<close>
  adds nothing.
\<close>

section \<open>The surroundings\<close>

record tm =
  tm_year :: int
  tm_mon :: int
  tm_mday :: int
  tm_hour :: int
  tm_min :: int
  tm_sec :: int
  tm_yday :: int

record log_env =
  le_time :: int
  le_usec :: int
  le_localtime :: "int \<Rightarrow> tm"
  le_dirs :: "string set"
  le_may_create :: "string \<Rightarrow> bool"
  le_files :: "(string \<times> string) list"
  le_space :: nat
  le_pid :: int
  le_console :: "string list"

definition timeToTm :: "log_env \<Rightarrow> int \<Rightarrow> tm" where
  "timeToTm e t = le_localtime e t"

definition isSameDay :: "log_env \<Rightarrow> int \<Rightarrow> int \<Rightarrow> bool" where
  "isSameDay e t1 t2 =
     (let tm1 = timeToTm e t1; tm2 = timeToTm e t2
      in if tm_year tm1 = tm_year tm2 \<and> tm_yday tm1 = tm_yday tm2 then True else False)"

section \<open>Directories\<close>

definition without_slashes :: "string \<Rightarrow> string" where
  "without_slashes p = rev (dropWhile (\<lambda>c. c = CHR ''/'') (rev p))"

definition isDirectory :: "log_env \<Rightarrow> string \<Rightarrow> bool" where
  "isDirectory e path = (path \<noteq> [] \<and> (without_slashes path = [] \<or> without_slashes path \<in> le_dirs e))"

text \<open>\<open>createRecursionDir\<close>: one step per separator, \<open>cur\<close> being what lies before it.\<close>

fun make_dirs :: "string \<Rightarrow> string \<Rightarrow> log_env \<Rightarrow> bool \<times> log_env" where
  "make_dirs cur [] e = (True, e)"
| "make_dirs cur (c # cs) e =
     (if c \<noteq> CHR ''/'' then make_dirs (cur @ [c]) cs e
      else if length cur > 0 \<and> \<not> isDirectory e cur
      then if le_may_create e cur
           then make_dirs (cur @ [c]) cs (e\<lparr>le_dirs := insert (without_slashes cur) (le_dirs e)\<rparr>)
           else (False, e)
      else make_dirs (cur @ [c]) cs e)"

definition createRecursionDir :: "string \<Rightarrow> log_env \<Rightarrow> bool \<times> log_env" where
  "createRecursionDir path e =
     (if length path = 0 then (True, e) else make_dirs [] (fixPath path) e)"

section \<open>Files\<close>

definition dir_of :: "string \<Rightarrow> string" where
  "dir_of path = rev (dropWhile (\<lambda>c. c \<noteq> CHR ''/'') (rev path))"

text \<open>\<open>open(path, "ab")\<close> of a handler; the file is made if it does not exist.\<close>

definition file_open :: "string \<Rightarrow> log_env \<Rightarrow> string option \<times> log_env" where
  "file_open path e =
     (if le_may_create e path \<and> (dir_of path = [] \<or> isDirectory e (dir_of path))
      then (Some path, if map_of (le_files e) path = None then e\<lparr>le_files := le_files e @ [(path, [])]\<rparr> else e)
      else (None, e))"

definition file_append :: "string \<Rightarrow> string \<Rightarrow> log_env \<Rightarrow> log_env" where
  "file_append path data e =
     e\<lparr>le_files := map (\<lambda>(p, c). if p = path then (p, c @ data) else (p, c)) (le_files e)\<rparr>"

text \<open>\<open>write\<close>: a write that does not fit on the disk closes the handler.\<close>

definition file_write :: "string \<Rightarrow> string option \<Rightarrow> log_env \<Rightarrow> string option \<times> log_env" where
  "file_write data h e =
     (case h of
        None \<Rightarrow> (h, e)
      | Some path \<Rightarrow>
          if length data > 0
          then let n = min (length data) (le_space e);
                   e1 = (file_append path (take n data) e)\<lparr>le_space := le_space e - n\<rparr>
               in if n \<noteq> length data then (None, e1) else (Some path, e1)
          else (h, e))"

definition file_remove :: "string \<Rightarrow> log_env \<Rightarrow> bool \<times> log_env" where
  "file_remove path e =
     (if map_of (le_files e) path = None then (False, e)
      else (True, e\<lparr>le_files := filter (\<lambda>(p, c). p \<noteq> path) (le_files e)\<rparr>))"

text \<open>Reading: \<open>open(path, "rb")\<close>, then \<open>readContent\<close>, in blocks of \<open>BUFSIZ\<close> characters.\<close>

definition BUFSIZ :: nat where "BUFSIZ = 8192"

function readContent :: "string \<Rightarrow> string" where
  "readContent rest =
     (let buf = take BUFSIZ rest
      in if length buf = BUFSIZ then buf @ readContent (drop BUFSIZ rest) else buf)"
  by pat_completeness auto
termination
  by (relation "measure length") (auto simp: BUFSIZ_def)

declare readContent.simps [simp del]

lemma readContent_whole: "readContent s = s"
proof (induction s rule: readContent.induct)
  case (1 rest)
  then show ?case
    by (subst readContent.simps) (auto simp: Let_def min_def)
qed

definition file_content :: "string \<Rightarrow> log_env \<Rightarrow> string option" where
  "file_content path e = map_option readContent (map_of (le_files e) path)"

text \<open>A character array read as a C string; \<open>readLine\<close>, with \<open>fgets\<close> on an array of 500 characters.\<close>

definition c_str :: "string \<Rightarrow> string" where
  "c_str = takeWhile (\<lambda>c. c \<noteq> CHR 0x00)"

definition readLine :: "string \<Rightarrow> string" where
  "readLine rest =
     c_str (take 499 (takeWhile (\<lambda>c. c \<noteq> LF) rest @ (if LF \<in> set rest then [LF] else [])))"

section \<open>The process\<close>

definition getProcessID :: "log_env \<Rightarrow> string" where
  "getProcessID e = show_pad 6 (le_pid e)"

definition getProcessName :: "log_env \<Rightarrow> string" where
  "getProcessName e =
     (case map_of (le_files e) (''/proc/'' @ show_int (le_pid e) @ ''/cmdline'') of
        None \<Rightarrow> ''process''
      | Some content \<Rightarrow>
          let name = readLine content
          in if CHR ''/'' \<in> set name then rev (takeWhile (\<lambda>c. c \<noteq> CHR ''/'') (rev name)) else name)"

section \<open>The console\<close>

definition ESC :: char where "ESC = CHR 0x1B"

definition LOG_COLOR :: "string list" where
  "LOG_COLOR = [[ESC] @ ''[0m'', [ESC] @ ''[0m'', [ESC] @ ''[34m'' @ [ESC] @ ''[1m'', [ESC] @ ''[33m'',
     [ESC] @ ''[31m'', [ESC] @ ''[32m'', [ESC] @ ''[35m'']"

definition showColorText :: "string \<Rightarrow> int \<Rightarrow> log_env \<Rightarrow> log_env" where
  "showColorText text level e =
     (if level \<le> LOG_LEVEL_DEBUG \<or> level > LOG_LEVEL_FATAL
      then e\<lparr>le_console := le_console e @ [c_str text]\<rparr>
      else e\<lparr>le_console := le_console e @ [LOG_COLOR ! nat level @ c_str text @ [ESC] @ ''[0m'']\<rparr>)"

end
