(* ===== verification/Log_Manager.thy ===== *)
theory Log_Manager
  imports Log_Files "HOL-Library.List_Lexorder" "HOL-Library.Char_ord"
begin

text \<open>
  The class \<open>LogerManager\<close> of \<open>log4z.cpp\<close>: the table of loggers with their identifiers, their
  attributes, and the queue through which attributes are changed and messages pass to the thread
  of the logger. An operation is one step here; the locks that make the passing of buffers such steps are in
  \<open>Log_Locks\<close>. Strings that
  come as \<open>const char *\<close> contain no NUL. The thread and the writing of messages are in \<open>Log_Output\<close>.
\<close>

section \<open>State\<close>

definition LOG4Z_INVALID_LOGGER_ID :: int where "LOG4Z_INVALID_LOGGER_ID = - 1"
definition LOG4Z_MAIN_LOGGER_ID :: int where "LOG4Z_MAIN_LOGGER_ID = 0"
definition LOG4Z_MAIN_LOGGER_KEY :: string where "LOG4Z_MAIN_LOGGER_KEY = ''Main''"
definition LOG4Z_LOGGER_MAX :: int where "LOG4Z_LOGGER_MAX = 20"
definition LOG4Z_LOG_BUF_SIZE :: nat where "LOG4Z_LOG_BUF_SIZE = 1024 * 8"
definition LOG4Z_LOG_QUEUE_LIMIT_SIZE :: nat where "LOG4Z_LOG_QUEUE_LIMIT_SIZE = 10000"
definition LOG4Z_ALL_SYNCHRONOUS_OUTPUT :: bool where "LOG4Z_ALL_SYNCHRONOUS_OUTPUT = False"
definition LOG4Z_DEFAULT_LEVEL :: int where "LOG4Z_DEFAULT_LEVEL = LOG_LEVEL_DEBUG"
definition LOG4Z_DEFAULT_RESERVEDAYS :: uint32 where "LOG4Z_DEFAULT_RESERVEDAYS = 7"

datatype log_data_type =
    LDT_GENERAL
  | LDT_ENABLE_LOGGER
  | LDT_SET_LOGGER_NAME
  | LDT_SET_LOGGER_PATH
  | LDT_SET_LOGGER_LEVEL
  | LDT_SET_LOGGER_FILELINE
  | LDT_SET_LOGGER_DISPLAY
  | LDT_SET_LOGGER_OUTFILE
  | LDT_SET_LOGGER_LIMITSIZE
  | LDT_SET_LOGGER_MONTHDIR
  | LDT_SET_LOGGER_RESERVEDAYS

record log_data =
  ld_id :: int
  ld_type :: log_data_type
  ld_typeval :: int
  ld_level :: int
  ld_time :: int
  ld_precise :: int
  ld_contentLen :: int
  ld_content :: string

text \<open>\<open>new LogData()\<close> fills with zeros.\<close>

definition LogData_new :: log_data where
  "LogData_new = \<lparr>ld_id = 0, ld_type = LDT_GENERAL, ld_typeval = 0, ld_level = 0, ld_time = 0, ld_precise = 0,
     ld_contentLen = 0, ld_content = replicate LOG4Z_LOG_BUF_SIZE NUL\<rparr>"

record log_manager =
  lm_runing :: bool
  lm_hotUpdateInterval :: int
  lm_checksum :: uint32
  lm_pid :: string
  lm_proName :: string
  lm_configFile :: string
  lm_ids :: "string \<rightharpoonup> int"
  lm_lastId :: int
  lm_loggers :: "logger_info list"
  lm_logs :: "log_data list"
  lm_freeLogDatas :: "log_data list"
  lm_totalWriteFileCount :: uint64
  lm_totalWriteFileBytes :: uint64
  lm_totalPushLog :: uint64
  lm_totalPopLog :: uint64
  lm_env :: log_env

definition logger_at :: "log_manager \<Rightarrow> int \<Rightarrow> logger_info" where
  "logger_at m i = lm_loggers m ! nat i"

definition log_console :: "string \<Rightarrow> int \<Rightarrow> log_manager \<Rightarrow> log_manager" where
  "log_console text level m = m\<lparr>lm_env := showColorText text level (lm_env m)\<rparr>"

definition update_logger :: "int \<Rightarrow> (logger_info \<Rightarrow> logger_info) \<Rightarrow> log_manager \<Rightarrow> log_manager" where
  "update_logger i f m = m\<lparr>lm_loggers := (lm_loggers m)[nat i := f (logger_at m i)]\<rparr>"

text \<open>
  The constructor. \<open>_checksum\<close> is not initialised in it; the only object is a static one, whose
  storage starts as zeros.
\<close>

definition LogerManager_new :: "log_env \<Rightarrow> log_manager" where
  "LogerManager_new e =
     (let m = \<lparr>lm_runing = False, lm_hotUpdateInterval = 0, lm_checksum = 0,
                lm_pid = getProcessID e, lm_proName = getProcessName e, lm_configFile = [],
                lm_ids = [LOG4Z_MAIN_LOGGER_KEY \<mapsto> LOG4Z_MAIN_LOGGER_ID], lm_lastId = LOG4Z_MAIN_LOGGER_ID,
                lm_loggers = replicate (nat LOG4Z_LOGGER_MAX) LoggerInfo_new, lm_logs = [],
                lm_freeLogDatas = [], lm_totalWriteFileCount = 0, lm_totalWriteFileBytes = 0,
                lm_totalPushLog = 0, lm_totalPopLog = 0, lm_env = e\<rparr>
      in update_logger LOG4Z_MAIN_LOGGER_ID
           (\<lambda>li. li\<lparr>li_enable := True, li_key := LOG4Z_MAIN_LOGGER_KEY, li_name := LOG4Z_MAIN_LOGGER_KEY\<rparr>) m)"

section \<open>Loggers\<close>

definition findLogger :: "string \<Rightarrow> log_manager \<Rightarrow> int" where
  "findLogger key m = (case lm_ids m key of Some i \<Rightarrow> i | None \<Rightarrow> LOG4Z_INVALID_LOGGER_ID)"

text \<open>\<open>createLogger\<close>; \<open>None\<close> is a null pointer.\<close>

definition createLogger :: "string option \<Rightarrow> log_manager \<Rightarrow> int \<times> log_manager" where
  "createLogger key m =
     (case key of
        None \<Rightarrow> (LOG4Z_INVALID_LOGGER_ID, m)
      | Some key \<Rightarrow>
          (let copyKey = trimLogConfig key [];
               newID = (case lm_ids m copyKey of Some i \<Rightarrow> i | None \<Rightarrow> LOG4Z_INVALID_LOGGER_ID)
           in if newID = LOG4Z_INVALID_LOGGER_ID
              then if lm_lastId m + 1 \<ge> LOG4Z_LOGGER_MAX
                   then (LOG4Z_INVALID_LOGGER_ID, log_console (''log4z: CreateLogger can not create|writeover, ''
                     @ ''because loggerid need < LOGGER_MAX! '' @ [CR, LF]) LOG_LEVEL_FATAL m)
                   else
                     let newID = lm_lastId m + 1;
                         m1 = m\<lparr>lm_lastId := newID, lm_ids := (lm_ids m)(copyKey \<mapsto> newID)\<rparr>
                     in (newID, update_logger newID
                          (\<lambda>li. li\<lparr>li_enable := True, li_key := copyKey, li_name := copyKey\<rparr>) m1)
              else (newID, m)))"

definition isLoggerEnable :: "int \<Rightarrow> log_manager \<Rightarrow> bool" where
  "isLoggerEnable i m = (if i < 0 \<or> i > lm_lastId m then False else li_enable (logger_at m i))"

definition getStatusActiveLoggers :: "log_manager \<Rightarrow> nat" where
  "getStatusActiveLoggers m = length (filter li_enable (take (nat (lm_lastId m + 1)) (lm_loggers m)))"

definition getStatusTotalWriteCount :: "log_manager \<Rightarrow> uint64" where
  "getStatusTotalWriteCount m = lm_totalWriteFileCount m"

definition getStatusTotalWriteBytes :: "log_manager \<Rightarrow> uint64" where
  "getStatusTotalWriteBytes m = lm_totalWriteFileBytes m"

definition getStatusTotalPushQueue :: "log_manager \<Rightarrow> uint64" where
  "getStatusTotalPushQueue m = lm_totalPushLog m"

definition getStatusTotalPopQueue :: "log_manager \<Rightarrow> uint64" where
  "getStatusTotalPopQueue m = lm_totalPopLog m"

section \<open>Messages\<close>

definition LOG_STRING :: "string list" where
  "LOG_STRING = [''LOG_TRACE'', ''LOG_DEBUG'', ''LOG_INFO '', ''LOG_WARN '', ''LOG_ERROR'', ''LOG_ALARM'', ''LOG_FATAL'']"

text \<open>
  What a message starts with. The levels that exist are indices of \<open>LOG_STRING\<close>.
\<close>

definition log_stamp :: "tm \<Rightarrow> int \<Rightarrow> int \<Rightarrow> string" where
  "log_stamp tt precise level =
     show_int (tm_year tt + 1900) @ ''-'' @ show_pad 2 (tm_mon tt + 1) @ ''-'' @ show_pad 2 (tm_mday tt) @ '' ''
     @ show_pad 2 (tm_hour tt) @ '':'' @ show_pad 2 (tm_min tt) @ '':'' @ show_pad 2 (tm_sec tt) @ ''.''
     @ show_pad 3 precise @ '' '' @ (LOG_STRING ! nat level) @ '' ''"

text \<open>Characters stored at the beginning of an array they fit into.\<close>

definition store :: "string \<Rightarrow> string \<Rightarrow> string" where
  "store t mem = t @ drop (length t) mem"

definition makeLogData :: "int \<Rightarrow> int \<Rightarrow> log_manager \<Rightarrow> log_data \<times> log_manager" where
  "makeLogData i level m =
     (let (l, m1) = (if lm_freeLogDatas m \<noteq> []
                     then (last (lm_freeLogDatas m), m\<lparr>lm_freeLogDatas := butlast (lm_freeLogDatas m)\<rparr>)
                     else (LogData_new, m));
          l1 = l\<lparr>ld_id := i, ld_level := level, ld_type := LDT_GENERAL, ld_typeval := 0,
                 ld_time := le_time (lm_env m), ld_precise := le_usec (lm_env m) div 1000\<rparr>;
          tt = timeToTm (lm_env m) (ld_time l1);
          text = log_stamp tt (ld_precise l1) (ld_level l1)
      in (l1\<lparr>ld_content := store (text @ [NUL]) (ld_content l1), ld_contentLen := int (length text)\<rparr>, m1))"

definition freeLogData :: "log_data \<Rightarrow> log_manager \<Rightarrow> log_manager" where
  "freeLogData l m =
     (if length (lm_freeLogDatas m) < 200 then m\<lparr>lm_freeLogDatas := lm_freeLogDatas m @ [l]\<rparr> else m)"

definition prePushLog :: "int \<Rightarrow> int \<Rightarrow> log_manager \<Rightarrow> bool" where
  "prePushLog i level m =
     (if i < 0 \<or> i > lm_lastId m \<or> \<not> lm_runing m \<or> \<not> li_enable (logger_at m i) then False
      else if level < li_level (logger_at m i) then False
      else if length (lm_logs m) > LOG4Z_LOG_QUEUE_LIMIT_SIZE then False
      else True)"

definition popLog :: "log_manager \<Rightarrow> log_data option \<times> log_manager" where
  "popLog m =
     (case lm_logs m of
        [] \<Rightarrow> (None, m)
      | l # ls \<Rightarrow> (Some l, m\<lparr>lm_logs := ls\<rparr>))"

section \<open>Changing attributes\<close>

definition onHotChange :: "int \<Rightarrow> log_data_type \<Rightarrow> int \<Rightarrow> string \<Rightarrow> log_manager \<Rightarrow> bool \<times> log_manager" where
  "onHotChange i ldt num text m =
     (if i < LOG4Z_MAIN_LOGGER_ID \<or> i > lm_lastId m then (False, m)
      else (True, update_logger i (\<lambda>logger.
        case ldt of
          LDT_GENERAL \<Rightarrow> logger
        | LDT_ENABLE_LOGGER \<Rightarrow> logger\<lparr>li_enable := (num \<noteq> 0)\<rparr>
        | LDT_SET_LOGGER_NAME \<Rightarrow> logger\<lparr>li_name := text\<rparr>
        | LDT_SET_LOGGER_PATH \<Rightarrow> logger\<lparr>li_path := text\<rparr>
        | LDT_SET_LOGGER_LEVEL \<Rightarrow> logger\<lparr>li_level := num\<rparr>
        | LDT_SET_LOGGER_FILELINE \<Rightarrow> logger\<lparr>li_fileLine := (num \<noteq> 0)\<rparr>
        | LDT_SET_LOGGER_DISPLAY \<Rightarrow> logger\<lparr>li_display := (num \<noteq> 0)\<rparr>
        | LDT_SET_LOGGER_OUTFILE \<Rightarrow> logger\<lparr>li_outfile := (num \<noteq> 0)\<rparr>
        | LDT_SET_LOGGER_LIMITSIZE \<Rightarrow> logger\<lparr>li_limitsize := of_int num\<rparr>
        | LDT_SET_LOGGER_MONTHDIR \<Rightarrow> logger\<lparr>li_monthdir := (num \<noteq> 0)\<rparr>
        | LDT_SET_LOGGER_RESERVEDAYS \<Rightarrow> logger\<lparr>li_reservedays := of_int num\<rparr>) m))"

definition hotChange :: "int \<Rightarrow> log_data_type \<Rightarrow> int \<Rightarrow> string \<Rightarrow> log_manager \<Rightarrow> bool \<times> log_manager" where
  "hotChange i ldt num text m =
     (if i < 0 \<or> i > lm_lastId m then (False, m)
      else if length text \<ge> LOG4Z_LOG_BUF_SIZE then (False, m)
      else if \<not> lm_runing m \<or> LOG4Z_ALL_SYNCHRONOUS_OUTPUT then onHotChange i ldt num text m
      else
        let (l, m1) = makeLogData i LOG4Z_DEFAULT_LEVEL m;
            l1 = l\<lparr>ld_id := i, ld_type := ldt, ld_typeval := num, ld_content := store text (ld_content l),
                   ld_contentLen := int (length text)\<rparr>
        in (True, m1\<lparr>lm_logs := lm_logs m1 @ [l1]\<rparr>))"

definition enableLogger :: "int \<Rightarrow> bool \<Rightarrow> log_manager \<Rightarrow> bool \<times> log_manager" where
  "enableLogger i enable m =
     (if i < 0 \<or> i > lm_lastId m then (False, m)
      else if enable then (True, update_logger i (\<lambda>li. li\<lparr>li_enable := True\<rparr>) m)
      else hotChange i LDT_ENABLE_LOGGER 0 [] m)"

definition setLoggerLevel :: "int \<Rightarrow> int \<Rightarrow> log_manager \<Rightarrow> bool \<times> log_manager" where
  "setLoggerLevel i level m =
     (if i < 0 \<or> i > lm_lastId m then (False, m)
      else if level \<le> li_level (logger_at m i) then (True, update_logger i (\<lambda>li. li\<lparr>li_level := level\<rparr>) m)
      else hotChange i LDT_SET_LOGGER_LEVEL level [] m)"

definition setLoggerDisplay :: "int \<Rightarrow> bool \<Rightarrow> log_manager \<Rightarrow> bool \<times> log_manager" where
  "setLoggerDisplay i enable m = hotChange i LDT_SET_LOGGER_DISPLAY (of_bool enable) [] m"

definition setLoggerOutFile :: "int \<Rightarrow> bool \<Rightarrow> log_manager \<Rightarrow> bool \<times> log_manager" where
  "setLoggerOutFile i enable m = hotChange i LDT_SET_LOGGER_OUTFILE (of_bool enable) [] m"

definition setLoggerMonthdir :: "int \<Rightarrow> bool \<Rightarrow> log_manager \<Rightarrow> bool \<times> log_manager" where
  "setLoggerMonthdir i enable m = hotChange i LDT_SET_LOGGER_MONTHDIR (of_bool enable) [] m"

definition setLoggerFileLine :: "int \<Rightarrow> bool \<Rightarrow> log_manager \<Rightarrow> bool \<times> log_manager" where
  "setLoggerFileLine i enable m = hotChange i LDT_SET_LOGGER_FILELINE (of_bool enable) [] m"

text \<open>An unsigned argument becomes the \<open>int\<close> of the same bits.\<close>

definition setLoggerLimitsize :: "int \<Rightarrow> uint32 \<Rightarrow> log_manager \<Rightarrow> bool \<times> log_manager" where
  "setLoggerLimitsize i limitsize m =
     (let limitsize = (if limitsize = 0 then - 1 else limitsize)
      in hotChange i LDT_SET_LOGGER_LIMITSIZE (sint limitsize) [] m)"

definition setLoggerReserveDays :: "int \<Rightarrow> uint32 \<Rightarrow> log_manager \<Rightarrow> bool \<times> log_manager" where
  "setLoggerReserveDays i days m =
     (let days = (if days = 0 then LOG4Z_DEFAULT_RESERVEDAYS else days)
      in hotChange i LDT_SET_LOGGER_RESERVEDAYS (sint days) [] m)"

definition setLoggerName :: "int \<Rightarrow> string option \<Rightarrow> log_manager \<Rightarrow> bool \<times> log_manager" where
  "setLoggerName i name m =
     (if i < 0 \<or> i > lm_lastId m then (False, m)
      else case name of
        None \<Rightarrow> (False, m)
      | Some n \<Rightarrow> if length n = 0 then (False, m) else hotChange i LDT_SET_LOGGER_NAME 0 n m)"

definition setLoggerPath :: "int \<Rightarrow> string option \<Rightarrow> log_manager \<Rightarrow> bool \<times> log_manager" where
  "setLoggerPath i path m =
     (if i < 0 \<or> i > lm_lastId m then (False, m)
      else case path of
        None \<Rightarrow> (False, m)
      | Some p \<Rightarrow>
          if length p = 0 then (False, m)
          else
            let ch = last p;
                copyPath = (if ch \<noteq> BACKSLASH \<and> ch \<noteq> CHR ''/'' then p @ ''/'' else p)
            in hotChange i LDT_SET_LOGGER_PATH 0 copyPath m)"

definition setAutoUpdate :: "int \<Rightarrow> log_manager \<Rightarrow> bool \<times> log_manager" where
  "setAutoUpdate interval m = (True, m\<lparr>lm_hotUpdateInterval := interval\<rparr>)"

section \<open>Configurations\<close>

text \<open>The parsed loggers are visited in the order of their keys.\<close>

definition apply_info :: "bool \<Rightarrow> logger_info \<Rightarrow> log_manager \<Rightarrow> log_manager" where
  "apply_info isUpdate li m =
     (let i = findLogger (li_key li) m;
          (i, m) = (if i = LOG4Z_INVALID_LOGGER_ID
                    then if isUpdate then (i, m) else createLogger (Some (li_key li)) m
                    else (i, m))
      in if i = LOG4Z_INVALID_LOGGER_ID then m
         else
           let m = snd (enableLogger i (li_enable li) m);
               m = snd (setLoggerName i (Some (li_name li)) m);
               m = snd (setLoggerPath i (Some (li_path li)) m);
               m = snd (setLoggerLevel i (li_level li) m);
               m = snd (setLoggerFileLine i (li_fileLine li) m);
               m = snd (setLoggerDisplay i (li_display li) m);
               m = snd (setLoggerOutFile i (li_outfile li) m);
               m = snd (setLoggerLimitsize i (li_limitsize li) m);
               m = snd (setLoggerMonthdir i (li_monthdir li) m)
           in snd (setLoggerReserveDays i (li_reservedays li) m))"

definition content_sum :: "string \<Rightarrow> uint32" where
  "content_sum content = fold (\<lambda>c sum. sum + of_nat (of_char c)) content 0"

definition configFromStringImpl :: "string \<Rightarrow> bool \<Rightarrow> log_manager \<Rightarrow> bool \<times> log_manager" where
  "configFromStringImpl content isUpdate m =
     (let sum = content_sum content
      in if sum = lm_checksum m then (True, m)
         else
           let m = m\<lparr>lm_checksum := sum\<rparr>;
               (ok, loggerMap) = parseConfigFromString content []
           in if \<not> ok then (False, m)
              else (True, fold (\<lambda>(k, li). apply_info isUpdate li) (sort_key fst loggerMap) m))"

definition configFromString :: "string \<Rightarrow> log_manager \<Rightarrow> bool \<times> log_manager" where
  "configFromString configContent m = configFromStringImpl configContent False m"

definition config_warning :: "string \<Rightarrow> log_manager \<Rightarrow> log_manager" where
  "config_warning text m = m\<lparr>lm_env := (lm_env m)\<lparr>le_console := le_console (lm_env m)
     @ ['' !!! !!! !!! !!!'', text, '' !!! !!! !!! !!!'']\<rparr>\<rparr>"

definition config :: "string \<Rightarrow> log_manager \<Rightarrow> bool \<times> log_manager" where
  "config configPath m =
     (if lm_configFile m \<noteq> []
      then (False, config_warning ('' !!! !!! log4z configure error: too many calls to Config. the old config file=''
             @ lm_configFile m @ '', the new config file='' @ configPath @ '' !!! !!! '') m)
      else
        let m = m\<lparr>lm_configFile := configPath\<rparr>
        in case file_content (lm_configFile m) (lm_env m) of
             None \<Rightarrow> (False, config_warning ('' !!! !!! log4z load config file error. filename=''
               @ configPath @ '' !!! !!! '') m)
           | Some content \<Rightarrow> configFromStringImpl (c_str content) False m)"

definition updateConfig :: "log_manager \<Rightarrow> bool \<times> log_manager" where
  "updateConfig m =
     (if lm_configFile m = [] then (False, m)
      else case file_content (lm_configFile m) (lm_env m) of
             None \<Rightarrow> (False, config_warning ('' !!! !!! log4z load config file error. filename=''
               @ lm_configFile m @ '' !!! !!! '') m)
           | Some content \<Rightarrow> configFromStringImpl (c_str content) True m)"

end
