(* ===== verification/Log_Sync.thy ===== *)
theory Log_Sync
  imports Log_Manager
begin

text \<open>
  The semaphore and the thread with which \<open>log4z.cpp\<close> starts its thread (\<open>SemHelper\<close>, \<open>ThreadHelper\<close>; the
  branches for Linux). \<open>sem_t\<close> is its count. Waiting with a timeout is a loop of short sleeps; what other
  threads and the clock do during one round of it is a \<open>sem_round\<close>: the posts while it sleeps, whether
  a signal interrupts the attempt, and the time read after it, in milliseconds. A wait without result
  (\<open>None\<close>) has not ended in the rounds given.
\<close>

section \<open>Semaphores\<close>

record sem_helper =
  sh_isCreate :: bool
  sh_count :: nat

definition SemHelper_new :: sem_helper where
  "SemHelper_new = \<lparr>sh_isCreate = False, sh_count = 0\<rparr>"

definition SemHelper_destroy :: "sem_helper \<Rightarrow> sem_helper" where
  "SemHelper_destroy s = (if sh_isCreate s then s\<lparr>sh_isCreate := False, sh_count := 0\<rparr> else s)"

text \<open>\<open>init_ok\<close> says whether \<open>sem_init\<close> succeeds.\<close>

definition SemHelper_create :: "bool \<Rightarrow> int \<Rightarrow> sem_helper \<Rightarrow> bool \<times> sem_helper" where
  "SemHelper_create init_ok initcount s =
     (let initcount = (if initcount < 0 then 0 else initcount)
      in if \<not> init_ok then (False, s)
         else (True, s\<lparr>sh_isCreate := True, sh_count := nat initcount\<rparr>))"

text \<open>\<open>sem_post\<close> fails at the largest count.\<close>

definition SEM_VALUE_MAX :: nat where "SEM_VALUE_MAX = 2 ^ 31 - 1"

definition SemHelper_post :: "sem_helper \<Rightarrow> bool \<times> sem_helper" where
  "SemHelper_post s =
     (if sh_count s < SEM_VALUE_MAX then (True, s\<lparr>sh_count := sh_count s + 1\<rparr>) else (False, s))"

record sem_round =
  sr_posts :: nat
  sr_interrupted :: bool
  sr_now :: int

definition sem_trywait :: "sem_round \<Rightarrow> sem_helper \<Rightarrow> bool \<times> sem_helper" where
  "sem_trywait r s =
     (let s = ((snd \<circ> SemHelper_post) ^^ sr_posts r) s
      in if sr_interrupted r \<or> sh_count s = 0 then (False, s) else (True, s\<lparr>sh_count := sh_count s - 1\<rparr>))"

fun wait_until :: "int \<Rightarrow> sem_round list \<Rightarrow> sem_helper \<Rightarrow> bool option \<times> sem_helper" where
  "wait_until endtime [] s = (None, s)"
| "wait_until endtime (r # rs) s =
     (let (ret, s) = sem_trywait r s
      in if ret then (Some True, s)
         else if sr_now r > endtime then (Some False, s)
         else if \<not> sr_interrupted r then wait_until endtime rs s
         else (Some False, s))"

text \<open>\<open>sem_wait\<close>, without a timeout, ends when there is something to take, or a signal comes.\<close>

fun sem_wait :: "sem_round list \<Rightarrow> sem_helper \<Rightarrow> bool option \<times> sem_helper" where
  "sem_wait [] s = (None, s)"
| "sem_wait (r # rs) s =
     (let (ret, s) = sem_trywait r s
      in if ret then (Some True, s) else if sr_interrupted r then (Some False, s) else sem_wait rs s)"

text \<open>\<open>now\<close> is the time at the beginning, in milliseconds.\<close>

definition SemHelper_wait :: "int \<Rightarrow> int \<Rightarrow> sem_round list \<Rightarrow> sem_helper \<Rightarrow> bool option \<times> sem_helper" where
  "SemHelper_wait timeout now rounds s =
     (if timeout \<le> 0 then sem_wait rounds s
      else
        let endtime = now + timeout
        in wait_until endtime rounds s)"

section \<open>Threads\<close>

text \<open>\<open>created\<close> says whether \<open>pthread_create\<close> succeeds.\<close>

definition ThreadHelper_start :: "bool \<Rightarrow> log_manager \<Rightarrow> bool \<times> log_manager" where
  "ThreadHelper_start created m =
     (if \<not> created
      then (False, m\<lparr>lm_env := (lm_env m)\<lparr>le_console := le_console (lm_env m)
             @ [''log4z: create log4z thread error! '' @ [CR, LF]]\<rparr>\<rparr>)
      else (True, m))"

text \<open>What \<open>pthread_join\<close> returns; \<open>None\<close>: the thread has not ended, so it waits on.\<close>

definition ThreadHelper_wait :: "int option \<Rightarrow> bool option" where
  "ThreadHelper_wait joined = map_option (\<lambda>ret. if ret \<noteq> 0 then False else True) joined"

text \<open>A sleep, as the microseconds it asks for.\<close>

definition sleepMillisecond :: "uint32 \<Rightarrow> uint32" where
  "sleepMillisecond ms = 1000 * ms"

text \<open>The sleeps of the logger are shorter than the second from which \<open>usleep\<close> may fail.\<close>

lemma sleeps_short: "unat ms < 1000 \<Longrightarrow> unat (sleepMillisecond ms) = 1000 * unat ms \<and> unat (sleepMillisecond ms) < 1000000"
  by (simp add: sleepMillisecond_def unat_word_ariths unsigned_numeral take_bit_nat_def)

text \<open>
  \<open>start\<close>: \<open>now\<close> is the time before the wait, and the rounds are those of the wait for the thread, whose
  beginning (\<open>run_begin\<close>) ends with the post.
\<close>

definition log_start ::
    "bool \<Rightarrow> bool \<Rightarrow> int \<Rightarrow> sem_round list \<Rightarrow> log_manager \<times> sem_helper \<Rightarrow> bool option \<times> log_manager \<times> sem_helper" where
  "log_start init_ok created now rounds = (\<lambda>(m, sem).
     if lm_runing m then (Some False, log_console (''log4z already start '' @ [CR, LF]) LOG_LEVEL_FATAL m, sem)
     else
       let sem = snd (SemHelper_create init_ok 0 sem);
           (ret, m) = ThreadHelper_start created m
       in if ret then let (waited, sem) = SemHelper_wait 3000 now rounds sem in (waited, m, sem)
          else (Some False, m, sem))"

section \<open>Waiting\<close>

lemma posts_count: "sh_count (((snd \<circ> SemHelper_post) ^^ k) s) = (if sh_count s < SEM_VALUE_MAX then min (sh_count s + k) SEM_VALUE_MAX else sh_count s)"
  by (induction k) (auto simp: SemHelper_post_def)

lemma trywait_succeeds:
  "fst (sem_trywait r s) \<longleftrightarrow> \<not> sr_interrupted r \<and> (0 < sh_count s \<or> 0 < sr_posts r)"
  by (auto simp: sem_trywait_def Let_def posts_count SEM_VALUE_MAX_def)

lemma trywait_fails:
  "\<not> fst (sem_trywait r s) \<Longrightarrow> \<not> sr_interrupted r \<Longrightarrow> sh_count (snd (sem_trywait r s)) = 0"
  by (auto simp: sem_trywait_def Let_def split: if_splits)

text \<open>
  The wait with a timeout on a semaphore that starts at zero, without signals: it ends as soon as the
  clock passes the end, and succeeds if and only if a post comes no later than in the round that sees it.
\<close>

definition first_late :: "int \<Rightarrow> sem_round list \<Rightarrow> sem_round list" where
  "first_late endtime rs = takeWhile (\<lambda>r. sr_now r \<le> endtime) rs
     @ take 1 (dropWhile (\<lambda>r. sr_now r \<le> endtime) rs)"

lemma wait_until_result:
  assumes "sh_count s = 0" and "\<forall>r \<in> set rs. \<not> sr_interrupted r"
  shows "fst (wait_until endtime rs s) =
    (if \<exists>r \<in> set (first_late endtime rs). 0 < sr_posts r then Some True
     else if \<exists>r \<in> set rs. sr_now r > endtime then Some False else None)"
  using assms
proof (induction rs arbitrary: s)
  case (Cons r rs)
  show ?case
  proof (cases "0 < sr_posts r")
    case True
    then have "fst (sem_trywait r s)" using Cons.prems(2) by (simp add: trywait_succeeds)
    moreover have "r \<in> set (first_late endtime (r # rs))" by (simp add: first_late_def)
    ultimately show ?thesis using True by (auto simp: case_prod_unfold Let_def)
  next
    case False
    then have f: "\<not> fst (sem_trywait r s)" "sh_count (snd (sem_trywait r s)) = 0"
      using Cons.prems trywait_fails [of r s] by (simp_all add: trywait_succeeds)
    show ?thesis
    proof (cases "sr_now r > endtime")
      case True
      then show ?thesis using f False by (simp add: case_prod_unfold Let_def first_late_def)
    next
      case nl: False
      have "fst (wait_until endtime (r # rs) s) = fst (wait_until endtime rs (snd (sem_trywait r s)))"
        using f nl Cons.prems(2) by (simp add: case_prod_unfold Let_def)
      moreover have "first_late endtime (r # rs) = r # first_late endtime rs" using nl by (simp add: first_late_def)
      ultimately show ?thesis using Cons.IH [OF f(2)] Cons.prems(2) False nl by simp
    qed
  qed
qed (simp add: first_late_def)

text \<open>
  Starting. \<open>start\<close> returns once three seconds have passed, and says that the thread has begun exactly if
  it posted by then; a thread that is late begins all the same, though \<open>start\<close> has said that it did not.
\<close>

lemma log_start_result:
  assumes "\<not> lm_runing m" and "\<forall>r \<in> set rounds. \<not> sr_interrupted r"
  shows "fst (log_start True created now rounds (m, sem)) =
    (if \<not> created then Some False
     else if \<exists>r \<in> set (first_late (now + 3000) rounds). 0 < sr_posts r then Some True
     else if \<exists>r \<in> set rounds. sr_now r > now + 3000 then Some False else None)"
proof -
  have "sh_count (snd (SemHelper_create True 0 sem)) = 0" by (simp add: SemHelper_create_def)
  from wait_until_result [OF this assms(2), of "now + 3000"] show ?thesis
    using assms(1) by (simp add: log_start_def ThreadHelper_start_def SemHelper_wait_def case_prod_unfold Let_def)
qed

end
