(* ===== verification/Packet_Programs.thy ===== *)
theory Packet_Programs
  imports Packet_Pair Echo_Programs Log_Sync
begin

text \<open>
  The \<open>main\<close> functions of the two packet programs, \<open>examples/tcp_cereal_packet\<close>, up to the point where they
  enter their loops: the logger is set up and started, and the server or client made.
\<close>

section \<open>The main functions\<close>

text \<open>The first five statements of both. The result is \<open>None\<close> when \<open>start\<close> waits for ever; what it returns is not looked at.\<close>

definition setup_logger :: "string \<Rightarrow> bool \<Rightarrow> bool \<Rightarrow> int \<Rightarrow> sem_round list \<Rightarrow> log_manager \<times> sem_helper
    \<Rightarrow> (log_manager \<times> sem_helper) option" where
  "setup_logger name init_ok created now rounds = (\<lambda>(m, sem).
     let m = snd (setLoggerLevel LOG4Z_MAIN_LOGGER_ID LOG_LEVEL_TRACE m);
         m = snd (setLoggerLimitsize LOG4Z_MAIN_LOGGER_ID 10 m);
         m = snd (setLoggerName LOG4Z_MAIN_LOGGER_ID (Some name) m);
         m = snd (setLoggerReserveDays LOG4Z_MAIN_LOGGER_ID 7 m);
         (started, m, sem) = log_start init_ok created now rounds (m, sem)
     in if started = None then None else Some (m, sem))"

definition packet_server_env :: packet_env where
  "packet_server_env = \<lparr>oe_removed = 0, pk_log = []\<rparr>"

definition packet_client_env :: simple_env where
  "packet_client_env = \<lparr>oe_removed = 0, pk_log = [], sm_is_login = False, sm_conn = False, sm_armed = 0, sm_ended = 0\<rparr>"

definition packet_server_main :: "bool \<Rightarrow> bool \<Rightarrow> int \<Rightarrow> sem_round list \<Rightarrow> log_manager \<times> sem_helper \<Rightarrow> platform
    \<Rightarrow> server_task schedule \<Rightarrow> bool \<Rightarrow> archive \<Rightarrow> uint64
    \<Rightarrow> ((log_manager \<times> sem_helper) \<times> server_task event_loop \<times> unit packet_env_ext tcp_server) option res" where
  "packet_server_main init_ok created now rounds lg pf sched bind_ok ar memory =
     (case setup_logger ''SimpleServer'' init_ok created now rounds lg of
        None \<Rightarrow> Inr None
      | Some lg \<Rightarrow>
          let loop = EventLoop_new (pf_self pf)
          in rbind (SimpleServer_new pf sched bind_ok (EventLoop_IsRunning loop) ''SimpleServer'' 2 ar memory packet_server_env)
               (\<lambda>started. Inr (map_option (\<lambda>s.
                  let loop = EventLoop_Run_begin (pf_self pf) loop
                  in (lg, loop, s\<lparr>sv_loop_running := EventLoop_IsRunning loop\<rparr>)) started)))"

definition packet_client_main :: "bool \<Rightarrow> bool \<Rightarrow> int \<Rightarrow> sem_round list \<Rightarrow> log_manager \<times> sem_helper \<Rightarrow> thread_id
    \<Rightarrow> resolver \<Rightarrow> archive \<Rightarrow> uint64
    \<Rightarrow> ((log_manager \<times> sem_helper) \<times> client_task event_loop \<times> unit simple_env_ext packet_env_ext tcp_client) option res" where
  "packet_client_main init_ok created now rounds lg self rs ar memory =
     (case setup_logger ''NetworkClient'' init_ok created now rounds lg of
        None \<Rightarrow> Inr None
      | Some lg \<Rightarrow>
          let loop = EventLoop_new self
          in rbind (SimpleClient_new rs ''127.0.0.1'' 1188 ''SimpleClient'' ar memory packet_client_env)
               (\<lambda>client. Inr (Some (lg, EventLoop_Run_begin self loop, client))))"

section \<open>Setting up\<close>

text \<open>The settings are made at once, as the logger's thread is not running; \<open>start\<close> then changes no logger.\<close>

lemma start_loggers:
  assumes "\<not> lm_runing m" and "log_start init_ok created now rounds (m, sem) = (r, m', sem')"
  shows "lm_loggers m' = lm_loggers m \<and> lm_logs m' = lm_logs m \<and> lm_lastId m' = lm_lastId m"
  using assms by (auto simp: log_start_def ThreadHelper_start_def Let_def case_prod_unfold split: if_splits)

lemma main_logger_update:
  "lm_runing (update_logger 0 f m) = lm_runing m" "lm_lastId (update_logger 0 f m) = lm_lastId m"
  "lm_logs (update_logger 0 f m) = lm_logs m" "(lm_loggers (update_logger 0 f m) = []) = (lm_loggers m = [])"
  "lm_loggers m \<noteq> [] \<Longrightarrow> logger_at (update_logger 0 f m) 0 = f (logger_at m 0)"
  by (simp_all add: update_logger_def logger_at_def)

lemma set_at_once:
  assumes "\<not> lm_runing m" and "lm_lastId m = 0"
  shows "LOG_LEVEL_TRACE \<le> li_level (logger_at m 0) \<Longrightarrow>
      snd (setLoggerLevel 0 LOG_LEVEL_TRACE m) = update_logger 0 (\<lambda>li. li\<lparr>li_level := LOG_LEVEL_TRACE\<rparr>) m"
    and "snd (setLoggerLimitsize 0 10 m) = update_logger 0 (\<lambda>li. li\<lparr>li_limitsize := 10\<rparr>) m"
    and "snd (setLoggerReserveDays 0 7 m) = update_logger 0 (\<lambda>li. li\<lparr>li_reservedays := 7\<rparr>) m"
    and "name \<noteq> [] \<Longrightarrow> length name < LOG4Z_LOG_BUF_SIZE \<Longrightarrow>
      snd (setLoggerName 0 (Some name) m) = update_logger 0 (\<lambda>li. li\<lparr>li_name := name\<rparr>) m"
proof -
  have direct: "hotChange 0 ldt num t m = onHotChange 0 ldt num t m" if "length t < LOG4Z_LOG_BUF_SIZE" for ldt num t
    using that assms by (simp add: hotChange_def)
  have empty: "length ([] :: string) < LOG4Z_LOG_BUF_SIZE" by (simp add: LOG4Z_LOG_BUF_SIZE_def)
  have on: "snd (onHotChange 0 ldt num t m) = update_logger 0 (\<lambda>logger. case ldt of
          LDT_GENERAL \<Rightarrow> logger
        | LDT_ENABLE_LOGGER \<Rightarrow> logger\<lparr>li_enable := (num \<noteq> 0)\<rparr>
        | LDT_SET_LOGGER_NAME \<Rightarrow> logger\<lparr>li_name := t\<rparr>
        | LDT_SET_LOGGER_PATH \<Rightarrow> logger\<lparr>li_path := t\<rparr>
        | LDT_SET_LOGGER_LEVEL \<Rightarrow> logger\<lparr>li_level := num\<rparr>
        | LDT_SET_LOGGER_FILELINE \<Rightarrow> logger\<lparr>li_fileLine := (num \<noteq> 0)\<rparr>
        | LDT_SET_LOGGER_DISPLAY \<Rightarrow> logger\<lparr>li_display := (num \<noteq> 0)\<rparr>
        | LDT_SET_LOGGER_OUTFILE \<Rightarrow> logger\<lparr>li_outfile := (num \<noteq> 0)\<rparr>
        | LDT_SET_LOGGER_LIMITSIZE \<Rightarrow> logger\<lparr>li_limitsize := of_int num\<rparr>
        | LDT_SET_LOGGER_MONTHDIR \<Rightarrow> logger\<lparr>li_monthdir := (num \<noteq> 0)\<rparr>
        | LDT_SET_LOGGER_RESERVEDAYS \<Rightarrow> logger\<lparr>li_reservedays := of_int num\<rparr>) m" for ldt num t
    using assms(2) by (simp add: onHotChange_def LOG4Z_MAIN_LOGGER_ID_def)
  show "snd (setLoggerLevel 0 LOG_LEVEL_TRACE m) = update_logger 0 (\<lambda>li. li\<lparr>li_level := LOG_LEVEL_TRACE\<rparr>) m"
    if "LOG_LEVEL_TRACE \<le> li_level (logger_at m 0)" using that assms(2) by (simp add: setLoggerLevel_def)
  show "snd (setLoggerLimitsize 0 10 m) = update_logger 0 (\<lambda>li. li\<lparr>li_limitsize := 10\<rparr>) m"
    by (simp add: setLoggerLimitsize_def direct [OF empty] on)
  show "snd (setLoggerReserveDays 0 7 m) = update_logger 0 (\<lambda>li. li\<lparr>li_reservedays := 7\<rparr>) m"
    by (simp add: setLoggerReserveDays_def direct [OF empty] on)
  show "snd (setLoggerName 0 (Some name) m) = update_logger 0 (\<lambda>li. li\<lparr>li_name := name\<rparr>) m"
    if "name \<noteq> []" "length name < LOG4Z_LOG_BUF_SIZE"
    using assms(2) that by (simp add: setLoggerName_def direct [OF that(2)] on)
qed

lemma setup_logger_result:
  assumes "name \<noteq> []" and "length name < LOG4Z_LOG_BUF_SIZE"
    and "setup_logger name init_ok created now rounds (LogerManager_new e, sem) = Some (m, sem')"
  shows "logger_at m 0 = LoggerInfo_new\<lparr>li_enable := True, li_key := LOG4Z_MAIN_LOGGER_KEY, li_name := name,
      li_level := LOG_LEVEL_TRACE, li_limitsize := 10\<rparr> \<and> lm_logs m = [] \<and> lm_lastId m = 0"
proof -
  let ?m = "LogerManager_new e"
  have m: "\<not> lm_runing ?m" "lm_lastId ?m = 0" "lm_logs ?m = []" "lm_loggers ?m \<noteq> []"
    "logger_at ?m 0 = LoggerInfo_new\<lparr>li_enable := True, li_key := LOG4Z_MAIN_LOGGER_KEY, li_name := LOG4Z_MAIN_LOGGER_KEY\<rparr>"
    by (simp_all add: LogerManager_new_def update_logger_def logger_at_def LOG4Z_MAIN_LOGGER_ID_def LOG4Z_LOGGER_MAX_def)
  have trace: "LOG_LEVEL_TRACE \<le> li_level (logger_at ?m 0)"
    by (simp add: m(5) LoggerInfo_new_def LOG_LEVEL_TRACE_def LOG_LEVEL_DEBUG_def)
  let ?u = "update_logger 0 (\<lambda>li. li\<lparr>li_reservedays := 7\<rparr>) (update_logger 0 (\<lambda>li. li\<lparr>li_name := name\<rparr>)
    (update_logger 0 (\<lambda>li. li\<lparr>li_limitsize := 10\<rparr>) (update_logger 0 (\<lambda>li. li\<lparr>li_level := LOG_LEVEL_TRACE\<rparr>) ?m)))"
  have "\<exists>r. log_start init_ok created now rounds (?u, sem) = (r, m, sem')"
    using assms(3) m(1,2) trace assms(1,2)
    by (auto simp: setup_logger_def Let_def LOG4Z_MAIN_LOGGER_ID_def set_at_once main_logger_update split: prod.splits if_splits)
  then have "lm_loggers m = lm_loggers ?u \<and> lm_logs m = lm_logs ?u \<and> lm_lastId m = lm_lastId ?u"
    using start_loggers [of ?u] m(1) by (auto simp: main_logger_update)
  moreover from this have "logger_at m 0 = logger_at ?u 0" by (simp add: logger_at_def)
  ultimately show ?thesis using m by (simp add: main_logger_update LoggerInfo_new_def)
qed

section \<open>The programs in their loops\<close>

lemma port_1188: "decimal 1188 = ''1188''"
  by (simp add: digit_def decimal.simps char_of_def bit_simps)

lemma packet_client_started:
  assumes "packet_client_main init_ok created now rounds lg self rs ar mc = Inr (Some (lg', l, c))" and "rs ''127.0.0.1'' ''1188''"
  shows "setup_logger ''NetworkClient'' init_ok created now rounds lg = Some lg'
    \<and> c = (TCPClient_new ''127.0.0.1'' 1188 ''SimpleClient'' packet_client_env)\<lparr>cl_connecting := 1, cl_auto_reconnect := True,
      cl_conn_fn := Some (TcpClientImpl_OnConnect (SimpleClient_OnConnect ar mc)),
      cl_msg_fn := Some (TcpClientImpl_OnRecvData ar SimpleClient_OnRecvData)\<rparr>"
  using assms
  by (auto simp: packet_client_main_def SimpleClient_new_def TcpClientImpl_new_def TCPClient_Connect_def TCPClient_new_def Let_def
      SetAutoReconnect_def client_SetConnCallback_def client_SetMessageCallback_def port_1188 packet_client_env_def split: option.splits)

lemma packet_server_started:
  assumes "platform_ok pf" and "is_schedule sched"
    and main: "packet_server_main init_ok created now rounds lg pf sched True ar ms = Inr (Some (lg', l, s))"
    and "\<forall>t \<in> set (tp_threads (sv_pool s)). \<not> ts_app_stop t"
  shows "setup_logger ''SimpleServer'' init_ok created now rounds lg = Some lg'
    \<and> (\<exists>p i. s = fresh_server True ''SimpleServer'' (Some (TcpServerImpl_OnConnect SimpleServer_OnConnect))
        (Some (TcpServerImpl_OnRecvData ar (SimpleServer_OnRecvData ar ms))) packet_server_env p (ThreadSocket i, ThreadLoop i)
      \<and> pool_ok pf p \<and> length (tp_threads p) = 2)"
proof -
  let ?cf = "Some (TcpServerImpl_OnConnect SimpleServer_OnConnect) :: packet_env conn_fun option"
  let ?mf = "Some (TcpServerImpl_OnRecvData ar (SimpleServer_OnRecvData ar ms)) :: packet_env conn_fun option"
  obtain s0 where new: "TCPServer_new True False ''SimpleServer'' 2 packet_server_env = Inr s0" by (simp add: TCPServer_new_def)
  from main new obtain s1 where set: "setup_logger ''SimpleServer'' init_ok created now rounds lg = Some lg'"
    and start: "TCPServer_Start pf sched (TCPServer_SetMessageCallback ?mf (SetConnectionCallback ?cf s0)) = Inr (Some s1)"
    and s: "s = s1\<lparr>sv_loop_running := True\<rparr>"
    by (auto simp: packet_server_main_def SimpleServer_new_def TcpServerImpl_new_def Let_def EventLoop_IsRunning_def
        EventLoop_new_def EventLoop_Run_begin_def loop_call_def split: option.splits)
  obtain p r where f: "s1 = fresh_server False ''SimpleServer'' ?cf ?mf packet_server_env p r"
    "pool_ok pf p" "good_request p r" "tp_thread_num p = 2"
    using started_fresh [OF assms(1) new assms(2) start] assms(4) s by auto
  have two: "length (tp_threads p) = 2" using f(2,4) by (simp add: pool_ok_def)
  with f(3) obtain i where "r = (ThreadSocket i, ThreadLoop i)" by (auto simp: good_request_def)
  with s f two set show ?thesis by (intro conjI exI [of _ p] exI [of _ i]) (simp_all add: fresh_server_def)
qed

lemma packet_conn_new:
  assumes "socket_ok sock"
  obtains c where "TCPConn_new l sock n w = Inr c" and "tc_type c = kIncoming" and "tc_name (SetType t c) = n"
    and "new_conn (SetType t c)" and "is_open (SetType t c)" and "tc_env (SetType t c) = w"
proof -
  from assms obtain c where c: "TCPConn_new l sock n w = Inr c" "tc_type c = kIncoming"
    by (auto simp: socket_ok_def TCPConn_new_def)
  then have "is_open (SetType t c)" "tc_env (SetType t c) = w" "tc_name (SetType t c) = n"
    using assms by (auto simp: socket_ok_def TCPConn_new_def SetType_def is_open_def split: option.splits)
  then show thesis using that c new_connI [OF c(1)] by blast
qed

lemma packet_client_connects:
  assumes "archive_ok ar" and "length (cereal_serialize ar (Some (login_of mc))) \<le> 8192" and "socket_ok ck"
    and "packet_client_main init_ok created now rounds lg self rs ar mc = Inr (Some (lg', l, c))" and "rs ''127.0.0.1'' ''1188''"
  shows "\<exists>c1 sys. client_run rs [ClConnected ck] c = Inr c1
    \<and> cl_heap c1 = [\<lparr>cc_cbs = simple_client_cbs ar mc, cc_sys = sys\<rparr>]
    \<and> writing_only (cereal_serialize ar (Some (login_of mc))) sys \<and> expects sys
    \<and> pk_log (tc_env (cs_conn sys)) = [LogConnected ''SimpleClient'']"
proof -
  obtain c0 where c0: "TCPConn_new 0 ck ''SimpleClient'' packet_client_env = Inr c0" "tc_name (SetType kOutgoing c0) = ''SimpleClient''"
    "new_conn (SetType kOutgoing c0)" "is_open (SetType kOutgoing c0)" "tc_env (SetType kOutgoing c0) = packet_client_env"
    by (rule packet_conn_new [OF assms(3)])
  obtain x where x: "conn_step (simple_client_cbs ar mc) EvAttached (initial_sys (SetType kOutgoing c0)) = Inr x"
    "writing_only (cereal_serialize ar (Some (login_of mc))) x" "expects x"
    "tc_env (cs_conn x) = packet_client_env\<lparr>pk_log := pk_log packet_client_env @ [LogConnected ''SimpleClient''], sm_conn := True\<rparr>"
    by (rule client_attaches [where ms = 0, OF assms(1) c0(3,4) assms(2), unfolded c0(2,5) simple_cbs_sides])
  have xe: "pk_log (tc_env (cs_conn x)) = [LogConnected ''SimpleClient'']" using x(4) by (simp add: packet_client_env_def)
  have xr: "removed_of x = removed_of (initial_sys (SetType kOutgoing c0))" using x(4) c0(5) by (simp add: initial_sys_def)
  have "so_open ck" using assms(3) by (simp add: socket_ok_def)
  from first_connects [OF c0(1) this x(1) [unfolded simple_client_cbs_def] xr, of rs "''127.0.0.1''" 1188] packet_client_started [OF assms(4,5)]
  have "\<exists>c1. client_run rs [ClConnected ck] c = Inr c1 \<and> cl_heap c1 = [\<lparr>cc_cbs = simple_client_cbs ar mc, cc_sys = x\<rparr>]"
    by (simp add: simple_client_cbs_def del: client_run.simps)
  with x(2,3) xe show ?thesis by blast
qed

lemma packet_server_accepts:
  assumes s: "s = fresh_server True ''SimpleServer'' (Some (TcpServerImpl_OnConnect SimpleServer_OnConnect))
      (Some (TcpServerImpl_OnRecvData ar (SimpleServer_OnRecvData ar ms))) packet_server_env p (ThreadSocket i, ThreadLoop i)"
    and "pool_ok pf p" and "is_schedule sched" and "\<forall>j. AppStop \<notin> set (sched j)" and "socket_ok sk"
  shows "\<exists>s1 sc. server_run pf [SvAccepted sk, SvTask 0 sched] s = Inr s1 \<and> sv_heap s1 = [sc]
    \<and> sc_cbs sc = simple_server_cbs ar ms \<and> writing_only [] (sc_sys sc) \<and> expects (sc_sys sc)
    \<and> pk_log (tc_env (cs_conn (sc_sys sc))) = [LogConnected ''SimpleServer-conn#0'']"
proof -
  obtain d0 where d0: "TCPConn_new (Suc i) sk ''SimpleServer-conn#0'' packet_server_env = Inr d0" "tc_type d0 = kIncoming"
    "tc_name (SetType kIncoming d0) = ''SimpleServer-conn#0''"
    "new_conn (SetType kIncoming d0)" "is_open (SetType kIncoming d0)" "tc_env (SetType kIncoming d0) = packet_server_env"
    by (rule packet_conn_new [OF assms(5)])
  have same: "SetType kIncoming d0 = d0" using d0(2) by (simp add: SetType_def)
  obtain y where y: "conn_step (simple_server_cbs ar ms) EvAttached (initial_sys d0) = Inr y" "writing_only [] y" "expects y"
    "tc_env (cs_conn y) = packet_server_env\<lparr>pk_log := pk_log packet_server_env @ [LogConnected ''SimpleServer-conn#0'']\<rparr>"
    by (rule server_attaches [OF d0(4,5), of ar ms, unfolded d0(3,6), unfolded same])
  have ye: "pk_log (tc_env (cs_conn y)) = [LogConnected ''SimpleServer-conn#0'']" using y(4) by (simp add: packet_server_env_def)
  have yr: "removed_of y = removed_of (initial_sys d0)" using y(4) d0(6) same by (simp add: initial_sys_def)
  from first_accepts [OF d0(1) [folded first_names] d0(2) y(1) [unfolded simple_server_cbs_def] yr s assms(2-4)]
  have "\<exists>s1 sc. server_run pf [SvAccepted sk, SvTask 0 sched] s = Inr s1 \<and> sv_heap s1 = [sc]
      \<and> sc_cbs sc = simple_server_cbs ar ms \<and> sc_sys sc = y"
    by (simp add: simple_server_cbs_def del: server_run.simps)
  with y(2,3) ye show ?thesis by blast
qed


lemma thread_starts_logger:
  assumes "name \<noteq> []" and "length name < LOG4Z_LOG_BUF_SIZE"
  shows "\<exists>m sem'. setup_logger name True True 0 [\<lparr>sr_posts = 1, sr_interrupted = False, sr_now = 1\<rparr>] (LogerManager_new e, sem) = Some (m, sem')"
proof -
  let ?r = "[\<lparr>sr_posts = 1, sr_interrupted = False, sr_now = 1\<rparr>]"
  let ?u = "snd (setLoggerReserveDays LOG4Z_MAIN_LOGGER_ID 7 (snd (setLoggerName LOG4Z_MAIN_LOGGER_ID (Some name)
    (snd (setLoggerLimitsize LOG4Z_MAIN_LOGGER_ID 10 (snd (setLoggerLevel LOG4Z_MAIN_LOGGER_ID LOG_LEVEL_TRACE (LogerManager_new e))))))))"
  have m: "\<not> lm_runing (LogerManager_new e)" "lm_lastId (LogerManager_new e) = 0"
    "LOG_LEVEL_TRACE \<le> li_level (logger_at (LogerManager_new e) 0)"
    by (simp_all add: LogerManager_new_def update_logger_def logger_at_def LOG4Z_MAIN_LOGGER_ID_def LOG4Z_LOGGER_MAX_def
        LoggerInfo_new_def LOG_LEVEL_TRACE_def LOG_LEVEL_DEBUG_def)
  then have "\<not> lm_runing ?u" using assms by (simp add: LOG4Z_MAIN_LOGGER_ID_def set_at_once main_logger_update)
  moreover have "\<exists>r \<in> set (first_late (0 + 3000) ?r). 0 < sr_posts r" "\<forall>r \<in> set ?r. \<not> sr_interrupted r" by (simp_all add: first_late_def)
  ultimately have "fst (log_start True True 0 ?r (?u, sem)) = Some True" using log_start_result [of ?u ?r True 0 sem] by simp
  then show ?thesis by (simp add: setup_logger_def case_prod_unfold Let_def)
qed

definition packet_resolver :: resolver where
  "packet_resolver addr port = (addr = ''127.0.0.1'' \<and> port = ''1188'')"


end
