(* ===== verification/Log_Output.thy ===== *)
theory Log_Output
  imports Log_Sync
begin

text \<open>
  The way of a message through the logger (\<open>log4z.cpp\<close>, and the macros of \<open>log4z.h\<close>): it is composed in
  the buffer of a \<open>LogData\<close> and queued (\<open>LOG_STREAM\<close>, \<open>LOG_FORMAT\<close>, \<open>pushLog\<close>), taken by the logger's
  thread, shown and appended to the file of its logger (\<open>openLogger\<close>, \<open>run\<close>).

  \<open>run\<close> is divided where other threads can come between: the beginning, the handling of one
  message, the pass over the loggers, the checks before the next round, and the end. Its local
  variables are the record \<open>log_thread\<close>.
\<close>

section \<open>Composing a message\<close>

text \<open>The file name without its directories: the pointer walks back from the end of the string.\<close>

definition path_separator :: "char \<Rightarrow> bool" where
  "path_separator c = (c = BACKSLASH \<or> c = CHR ''/'')"

fun name_begin :: "string \<Rightarrow> nat \<Rightarrow> string" where
  "name_begin file n =
     (if n < length file \<and> path_separator (file ! n) then drop (n + 1) file
      else if n = 0 then file
      else name_begin file (n - 1))"

declare name_begin.simps [simp del]

text \<open>The part of the buffer that is still free, as a stream, and the message with what was written to it.\<close>

definition content_stream :: "log_data \<Rightarrow> log_stream" where
  "content_stream l = Log4zStream_new (ld_content l) (ld_contentLen l) (int LOG4Z_LOG_BUF_SIZE - ld_contentLen l)"

definition take_stream :: "log_stream \<Rightarrow> log_data \<Rightarrow> log_data" where
  "take_stream s l = l\<lparr>ld_content := ls_mem s, ld_contentLen := ld_contentLen l + getCurrentLen s\<rparr>"

section \<open>Files of loggers\<close>

definition sprintf :: "nat \<Rightarrow> string \<Rightarrow> string res" where
  "sprintf n text = (if length text < n then Inr text else Inl OutOfBounds)"

definition log_file_name :: "string \<Rightarrow> tm \<Rightarrow> string" where
  "log_file_name name t =
     name @ ''_'' @ show_pad 4 (tm_year t + 1900) @ show_pad 2 (tm_mon t + 1) @ show_pad 2 (tm_mday t) @ ''.log''"

lemma file_remove_less:
  assumes "fst (file_remove path e)"
  shows "length (le_files (snd (file_remove path e))) < length (le_files e)"
proof -
  from assms have "map_of (le_files e) path \<noteq> None" by (auto simp: file_remove_def split: if_splits)
  then obtain c where c: "(path, c) \<in> set (le_files e)" by (auto dest: map_of_SomeD)
  then have "length (filter (\<lambda>(p, c). p \<noteq> path) (le_files e)) < length (le_files e)"
    by (rule length_filter_less) simp
  with \<open>map_of (le_files e) path \<noteq> None\<close> show ?thesis by (simp add: file_remove_def)
qed

text \<open>
  The removal of old files, day by day backwards, until one cannot be removed. Every round removes
  a file, so it ends.
\<close>

function remove_old :: "string \<Rightarrow> string \<Rightarrow> int \<Rightarrow> log_env \<Rightarrow> log_env res" where
  "remove_old path name seconds e =
     (case sprintf 260 (log_file_name name (timeToTm e seconds)) of
        Inl err \<Rightarrow> Inl err
      | Inr buf \<Rightarrow>
          if fst (file_remove (path @ buf) e)
          then remove_old path name (seconds - 24 * 3600) (snd (file_remove (path @ buf) e))
          else Inr e)"
  by pat_completeness auto

termination
  by (relation "measure (\<lambda>(path, name, seconds, e). length (le_files e))") (auto intro: file_remove_less)

declare remove_old.simps [simp del]

definition set_logger :: "int \<Rightarrow> logger_info \<Rightarrow> log_manager \<Rightarrow> log_manager" where
  "set_logger i lg m = update_logger i (\<lambda>_. lg) m"

text \<open>The directory of a file; its making, and the removal of old files in it; the opening itself.\<close>

definition log_dir :: "logger_info \<Rightarrow> tm \<Rightarrow> string res" where
  "log_dir lg t =
     (if li_monthdir lg
      then rbind (sprintf 100 (show_pad 4 (tm_year t + 1900) @ ''_'' @ show_pad 2 (tm_mon t + 1) @ ''/''))
             (\<lambda>buf. Inr (li_path lg @ buf))
      else Inr (li_path lg))"

definition clean_dir :: "logger_info \<Rightarrow> string \<Rightarrow> log_env \<Rightarrow> log_env res" where
  "clean_dir lg path e =
     (let e = (if \<not> isDirectory e path then snd (createRecursionDir path e) else e)
      in if li_reservedays lg \<noteq> 0
         then let seconds = le_time e - uint (li_reservedays lg * 86400)
              in remove_old path (li_name lg) (seconds - 24 * 3600) e
         else Inr e)"

definition open_path :: "int \<Rightarrow> logger_info \<Rightarrow> string \<Rightarrow> log_env \<Rightarrow> log_manager \<Rightarrow> bool \<times> log_manager" where
  "open_path i lg path e m =
     (let (h, e) = file_open path e;
          lg = lg\<lparr>li_handle := h\<rparr>
      in if h = None
         then (False, set_logger i (lg\<lparr>li_outfile := False\<rparr>) (m\<lparr>lm_env :=
                showColorText (''!!!!!!!!!!!!!!!!!!!!!!!!!! '' @ [CR, LF]) LOG_LEVEL_FATAL
                (showColorText (''log4z: can not open log file'' @ path @ '' . '' @ [CR, LF]) LOG_LEVEL_FATAL
                (showColorText (''!!!!!!!!!!!!!!!!!!!!!!!!!! '' @ [CR, LF]) LOG_LEVEL_FATAL e))\<rparr>))
         else (True, set_logger i lg (m\<lparr>lm_env := e\<rparr>)))"

text \<open>What \<open>openLogger\<close> does when the handler is closed.\<close>

definition open_file :: "log_data \<Rightarrow> logger_info \<Rightarrow> log_manager \<Rightarrow> (bool \<times> log_manager) res" where
  "open_file l lg m =
     (let lg = lg\<lparr>li_curFileCreateTime := ld_time l, li_curWriteLen := 0\<rparr>;
          t = timeToTm (lm_env m) (li_curFileCreateTime lg)
      in rbind (log_dir lg t) (\<lambda>path.
         rbind (clean_dir lg path (lm_env m)) (\<lambda>e.
         rbind (sprintf 100 (log_file_name (li_name lg) t)) (\<lambda>buf.
         Inr (open_path (ld_id l) lg (path @ buf) e m)))))"

definition openLogger :: "log_data \<Rightarrow> log_manager \<Rightarrow> (bool \<times> log_manager) res" where
  "openLogger l m =
     (let i = ld_id l
      in if i < 0 \<or> i > lm_lastId m
         then Inr (False, log_console (''log4z: openLogger can not open, invalide logger id! '' @ [CR, LF])
                LOG_LEVEL_FATAL m)
         else
           let lg = logger_at m i
           in if \<not> li_enable lg \<or> \<not> li_outfile lg \<or> ld_level l < li_level lg then Inr (False, m)
              else
                let sameday = isSameDay (lm_env m) (ld_time l) (li_curFileCreateTime lg);
                    needChageFile = (li_curWriteLen lg > li_limitsize lg * 1024 * 1024);
                    lg = (if \<not> sameday \<or> needChageFile
                          then lg\<lparr>li_curFileIndex := (if \<not> sameday then 0 else li_curFileIndex lg + 1),
                                  li_handle := None\<rparr>
                          else lg)
                in if li_handle lg = None then open_file l lg m else Inr (True, set_logger i lg m))"

definition closeLogger :: "int \<Rightarrow> log_manager \<Rightarrow> bool \<times> log_manager" where
  "closeLogger i m =
     (if i < 0 \<or> i > lm_lastId m
      then (False, log_console (''log4z: closeLogger can not close, invalide logger id! '' @ [CR, LF]) LOG_LEVEL_FATAL m)
      else if li_handle (logger_at m i) \<noteq> None
      then (True, update_logger i (\<lambda>lg. lg\<lparr>li_handle := None\<rparr>) m)
      else (False, m))"

text \<open>The writing of a message to the handler of its logger, with what is counted.\<close>

definition write_message :: "log_data \<Rightarrow> log_manager \<Rightarrow> log_manager" where
  "write_message l m =
     (let lg = logger_at m (ld_id l);
          (h, e) = file_write (take (nat (ld_contentLen l)) (ld_content l)) (li_handle lg) (lm_env m)
      in set_logger (ld_id l) (lg\<lparr>li_handle := h\<rparr>) (m\<lparr>lm_env := e\<rparr>))"

definition count_written :: "log_data \<Rightarrow> log_manager \<Rightarrow> log_manager" where
  "count_written l m = m\<lparr>lm_totalWriteFileCount := lm_totalWriteFileCount m + 1,
     lm_totalWriteFileBytes := lm_totalWriteFileBytes m + of_int (ld_contentLen l)\<rparr>"

section \<open>Pushing\<close>

definition push_queue :: "log_data \<Rightarrow> log_manager \<Rightarrow> log_manager" where
  "push_queue l m = m\<lparr>lm_logs := lm_logs m @ [l], lm_totalPushLog := lm_totalPushLog m + 1\<rparr>"

definition end_line :: "log_data \<Rightarrow> log_data res" where
  "end_line l =
     (let n = (if ld_contentLen l < 3 then 3 else ld_contentLen l);
          n = (if n + 3 \<le> int LOG4Z_LOG_BUF_SIZE then n + 3 else n)
      in rbind (put (n - 1) [NUL] (ld_content l)) (\<lambda>c.
         rbind (put (n - 2) [LF] c) (\<lambda>c.
         rbind (put (n - 3) [CR] c) (\<lambda>c.
         Inr (l\<lparr>ld_content := c, ld_contentLen := n - 1\<rparr>)))))"

definition pushLog :: "log_data \<Rightarrow> string option \<Rightarrow> int \<Rightarrow> log_manager \<Rightarrow> (bool \<times> log_manager) res" where
  "pushLog l file line m =
     (if ld_id l < 0 \<or> ld_id l > lm_lastId m \<or> \<not> lm_runing m \<or> \<not> li_enable (logger_at m (ld_id l))
      then Inr (False, freeLogData l m)
      else if ld_level l < li_level (logger_at m (ld_id l)) then Inr (False, freeLogData l m)
      else
        rbind (case file of
                 None \<Rightarrow> Inr l
               | Some f \<Rightarrow>
                   if li_fileLine (logger_at m (ld_id l))
                   then rbind (stream_chain [VCString '' '', VCString (name_begin f (length f)), VCString '':'',
                                VInt (of_int line)] (content_stream l))
                          (\<lambda>s. Inr (take_stream s l))
                   else Inr l) (\<lambda>l.
        rbind (end_line l) (\<lambda>l.
        let m = (if li_display (logger_at m (ld_id l)) \<and> LOG4Z_ALL_SYNCHRONOUS_OUTPUT
                 then log_console (ld_content l) (ld_level l) m else m)
        in rbind (if li_outfile (logger_at m (ld_id l)) \<and> LOG4Z_ALL_SYNCHRONOUS_OUTPUT
                  then rbind (openLogger l m) (\<lambda>(ok, m).
                         Inr (if ok then count_written l (snd (closeLogger (ld_id l) (write_message l m))) else m))
                  else Inr m) (\<lambda>m.
           if LOG4Z_ALL_SYNCHRONOUS_OUTPUT then Inr (True, freeLogData l m)
           else Inr (True, push_queue l m)))))"

text \<open>
  The macros. The level indexes \<open>LOG_STRING\<close> in \<open>makeLogData\<close>. \<open>out\<close> is the text \<open>snprintf\<close> gives in full
  for the format and its arguments, or \<open>None\<close> if it fails.
\<close>

definition LOG_STREAM :: "int \<Rightarrow> int \<Rightarrow> string \<Rightarrow> int \<Rightarrow> log_value list \<Rightarrow> log_manager \<Rightarrow> log_manager res" where
  "LOG_STREAM i level file line vs m =
     (if prePushLog i level m
      then if level < LOG_LEVEL_TRACE \<or> level > LOG_LEVEL_FATAL then Inl OutOfBounds
           else
             let (l, m) = makeLogData i level m
             in rbind (stream_chain vs (content_stream l)) (\<lambda>s.
                rbind (pushLog (take_stream s l) (Some file) line m) (\<lambda>(ok, m). Inr m))
      else Inr m)"

definition LOG_FORMAT :: "int \<Rightarrow> int \<Rightarrow> string \<Rightarrow> int \<Rightarrow> string option \<Rightarrow> log_manager \<Rightarrow> log_manager res" where
  "LOG_FORMAT i level file line out m =
     (if prePushLog i level m
      then if level < LOG_LEVEL_TRACE \<or> level > LOG_LEVEL_FATAL then Inl OutOfBounds
           else
             let (l, m) = makeLogData i level m;
                 room = int LOG4Z_LOG_BUF_SIZE - ld_contentLen l
             in rbind (case out of
                         Some text \<Rightarrow>
                           if room > 0 then put (ld_contentLen l) (take (nat room - 1) text @ [NUL]) (ld_content l)
                           else Inr (ld_content l)
                       | None \<Rightarrow> Inr (ld_content l)) (\<lambda>c.
                let len = (case out of None \<Rightarrow> 0 | Some text \<Rightarrow> int (length text));
                    len = (if len > room then room else len);
                    l = l\<lparr>ld_content := c, ld_contentLen := ld_contentLen l + len\<rparr>
                in rbind (pushLog l (Some file) line m) (\<lambda>(ok, m). Inr m))
      else Inr m)"

text \<open>The macros for one level, and for the main logger. Where they are used gives the file and the line.\<close>

type_synonym stream_macro = "string \<Rightarrow> int \<Rightarrow> log_value list \<Rightarrow> log_manager \<Rightarrow> log_manager res"
type_synonym format_macro = "string \<Rightarrow> int \<Rightarrow> string option \<Rightarrow> log_manager \<Rightarrow> log_manager res"

definition LOG_TRACE :: "int \<Rightarrow> stream_macro" where "LOG_TRACE i = LOG_STREAM i LOG_LEVEL_TRACE"
definition LOG_DEBUG :: "int \<Rightarrow> stream_macro" where "LOG_DEBUG i = LOG_STREAM i LOG_LEVEL_DEBUG"
definition LOG_INFO :: "int \<Rightarrow> stream_macro" where "LOG_INFO i = LOG_STREAM i LOG_LEVEL_INFO"
definition LOG_WARN :: "int \<Rightarrow> stream_macro" where "LOG_WARN i = LOG_STREAM i LOG_LEVEL_WARN"
definition LOG_ERROR :: "int \<Rightarrow> stream_macro" where "LOG_ERROR i = LOG_STREAM i LOG_LEVEL_ERROR"
definition LOG_ALARM :: "int \<Rightarrow> stream_macro" where "LOG_ALARM i = LOG_STREAM i LOG_LEVEL_ALARM"
definition LOG_FATAL :: "int \<Rightarrow> stream_macro" where "LOG_FATAL i = LOG_STREAM i LOG_LEVEL_FATAL"

definition LOGT :: stream_macro where "LOGT = LOG_TRACE LOG4Z_MAIN_LOGGER_ID"
definition LOGD :: stream_macro where "LOGD = LOG_DEBUG LOG4Z_MAIN_LOGGER_ID"
definition LOGI :: stream_macro where "LOGI = LOG_INFO LOG4Z_MAIN_LOGGER_ID"
definition LOGW :: stream_macro where "LOGW = LOG_WARN LOG4Z_MAIN_LOGGER_ID"
definition LOGE :: stream_macro where "LOGE = LOG_ERROR LOG4Z_MAIN_LOGGER_ID"
definition LOGA :: stream_macro where "LOGA = LOG_ALARM LOG4Z_MAIN_LOGGER_ID"
definition LOGF :: stream_macro where "LOGF = LOG_FATAL LOG4Z_MAIN_LOGGER_ID"

definition LOGFMT_TRACE :: "int \<Rightarrow> format_macro" where "LOGFMT_TRACE i = LOG_FORMAT i LOG_LEVEL_TRACE"
definition LOGFMT_DEBUG :: "int \<Rightarrow> format_macro" where "LOGFMT_DEBUG i = LOG_FORMAT i LOG_LEVEL_DEBUG"
definition LOGFMT_INFO :: "int \<Rightarrow> format_macro" where "LOGFMT_INFO i = LOG_FORMAT i LOG_LEVEL_INFO"
definition LOGFMT_WARN :: "int \<Rightarrow> format_macro" where "LOGFMT_WARN i = LOG_FORMAT i LOG_LEVEL_WARN"
definition LOGFMT_ERROR :: "int \<Rightarrow> format_macro" where "LOGFMT_ERROR i = LOG_FORMAT i LOG_LEVEL_ERROR"
definition LOGFMT_ALARM :: "int \<Rightarrow> format_macro" where "LOGFMT_ALARM i = LOG_FORMAT i LOG_LEVEL_ALARM"
definition LOGFMT_FATAL :: "int \<Rightarrow> format_macro" where "LOGFMT_FATAL i = LOG_FORMAT i LOG_LEVEL_FATAL"

definition LOGFMTT :: format_macro where "LOGFMTT = LOGFMT_TRACE LOG4Z_MAIN_LOGGER_ID"
definition LOGFMTD :: format_macro where "LOGFMTD = LOGFMT_DEBUG LOG4Z_MAIN_LOGGER_ID"
definition LOGFMTI :: format_macro where "LOGFMTI = LOGFMT_INFO LOG4Z_MAIN_LOGGER_ID"
definition LOGFMTW :: format_macro where "LOGFMTW = LOGFMT_WARN LOG4Z_MAIN_LOGGER_ID"
definition LOGFMTE :: format_macro where "LOGFMTE = LOGFMT_ERROR LOG4Z_MAIN_LOGGER_ID"
definition LOGFMTA :: format_macro where "LOGFMTA = LOGFMT_ALARM LOG4Z_MAIN_LOGGER_ID"
definition LOGFMTF :: format_macro where "LOGFMTF = LOGFMT_FATAL LOG4Z_MAIN_LOGGER_ID"

lemmas stream_macros = LOG_TRACE_def LOG_DEBUG_def LOG_INFO_def LOG_WARN_def LOG_ERROR_def LOG_ALARM_def LOG_FATAL_def
  LOGT_def LOGD_def LOGI_def LOGW_def LOGE_def LOGA_def LOGF_def

section \<open>The thread\<close>

record log_thread =
  lt_needFlush :: "nat list"
  lt_lastCheckUpdate :: int

text \<open>The beginning: the thread runs, and says so; \<open>file\<close> and the two lines are those of the macros.\<close>

definition describe_logger :: "int \<Rightarrow> logger_info \<Rightarrow> log_value list" where
  "describe_logger i lg =
     [VCString ''logger id='', VInt (of_int i), VCString '' key='', VString (li_key lg),
      VCString '' name='', VString (li_name lg), VCString '' path='', VString (li_path lg),
      VCString '' level='', VInt (of_int (li_level lg)), VCString '' display='', VBool (li_display lg)]"

fun describe_loggers :: "string \<Rightarrow> int \<Rightarrow> int list \<Rightarrow> log_manager \<Rightarrow> log_manager res" where
  "describe_loggers file line [] m = Inr m"
| "describe_loggers file line (i # is) m =
     rbind (if li_enable (logger_at m i) then LOGA file line (describe_logger i (logger_at m i)) m else Inr m)
       (describe_loggers file line is)"

definition run_begin :: "string \<Rightarrow> int \<Rightarrow> int \<Rightarrow> log_manager \<Rightarrow> (log_thread \<times> log_manager) res" where
  "run_begin file line1 line2 m =
     (let m = m\<lparr>lm_runing := True\<rparr>
      in rbind (LOGA file line1 [VCString (''-----------------  log4z thread started!''
           @ ''   ----------------------------'')] m) (\<lambda>m.
         rbind (describe_loggers file line2 [0..lm_lastId m] m) (\<lambda>m.
         Inr (\<lparr>lt_needFlush = replicate (nat LOG4Z_LOGGER_MAX) 0, lt_lastCheckUpdate = le_time (lm_env m)\<rparr>, m))))"

text \<open>One message: its output, if its logger takes it, and the handling of a message as it is popped.\<close>

definition write_out :: "log_data \<Rightarrow> log_thread \<Rightarrow> log_manager \<Rightarrow> log_thread \<times> log_manager" where
  "write_out l th m =
     (th\<lparr>lt_needFlush := (lt_needFlush th)[nat (ld_id l) := lt_needFlush th ! nat (ld_id l) + 1]\<rparr>,
      count_written l (update_logger (ld_id l)
        (\<lambda>lg. lg\<lparr>li_curWriteLen := li_curWriteLen lg + of_int (ld_contentLen l)\<rparr>) (write_message l m)))"

definition display_message :: "log_data \<Rightarrow> log_manager \<Rightarrow> log_manager" where
  "display_message l m =
     (if li_display (logger_at m (ld_id l)) \<and> \<not> LOG4Z_ALL_SYNCHRONOUS_OUTPUT
      then log_console (ld_content l) (ld_level l) m else m)"

definition output_message :: "log_data \<Rightarrow> log_thread \<Rightarrow> log_manager \<Rightarrow> (log_thread \<times> log_manager) res" where
  "output_message l th m =
     (let m = display_message l m
      in if li_outfile (logger_at m (ld_id l)) \<and> \<not> LOG4Z_ALL_SYNCHRONOUS_OUTPUT
         then rbind (openLogger l m) (\<lambda>(ok, m). Inr (if ok then write_out l th m else (th, m)))
         else if \<not> LOG4Z_ALL_SYNCHRONOUS_OUTPUT then Inr (th, count_written l m)
         else Inr (th, m))"

definition handle_log :: "log_data \<Rightarrow> log_thread \<Rightarrow> log_manager \<Rightarrow> (log_thread \<times> log_manager) res" where
  "handle_log l th m =
     (if ld_id l < 0 \<or> ld_id l > lm_lastId m then Inr (th, freeLogData l m)
      else if ld_type l \<noteq> LDT_GENERAL
      then
        let m = snd (onHotChange (ld_id l) (ld_type l) (ld_typeval l)
                  (take (nat (ld_contentLen l)) (ld_content l)) m);
            m = update_logger (ld_id l) (\<lambda>lg. lg\<lparr>li_handle := None\<rparr>) m
        in Inr (th, freeLogData l m)
      else
        let m = m\<lparr>lm_totalPopLog := lm_totalPopLog m + 1\<rparr>
        in if \<not> li_enable (logger_at m (ld_id l)) \<or> ld_level l < li_level (logger_at m (ld_id l))
           then Inr (th, freeLogData l m)
           else rbind (output_message l th m) (\<lambda>(th, m). Inr (th, freeLogData l m)))"

text \<open>The messages that are queued: \<open>n\<close> of them, or all if there are fewer.\<close>

fun drain_logs :: "nat \<Rightarrow> log_thread \<Rightarrow> log_manager \<Rightarrow> (log_thread \<times> log_manager) res" where
  "drain_logs 0 th m = Inr (th, m)"
| "drain_logs (Suc n) th m =
     (case popLog m of
        (None, m) \<Rightarrow> Inr (th, m)
      | (Some l, m) \<Rightarrow> rbind (handle_log l th m) (\<lambda>(th, m). drain_logs n th m))"

text \<open>The pass over the loggers; flushing has no effect on the model's files.\<close>

fun flush_loggers :: "int list \<Rightarrow> log_thread \<Rightarrow> log_manager \<Rightarrow> log_thread \<times> log_manager" where
  "flush_loggers [] th m = (th, m)"
| "flush_loggers (i # is) th m =
     (let th = (if li_enable (logger_at m i) \<and> lt_needFlush th ! nat i > 0
                then th\<lparr>lt_needFlush := (lt_needFlush th)[nat i := 0]\<rparr> else th);
          m = (if \<not> li_enable (logger_at m i) \<and> li_handle (logger_at m i) \<noteq> None
               then update_logger i (\<lambda>lg. lg\<lparr>li_handle := None\<rparr>) m else m)
      in flush_loggers is th m)"

definition run_pass :: "log_thread \<Rightarrow> log_manager \<Rightarrow> (log_thread \<times> log_manager) res" where
  "run_pass th m =
     rbind (drain_logs (length (lm_logs m)) th m) (\<lambda>(th, m). Inr (flush_loggers [0..lm_lastId m] th m))"

text \<open>After the delay: \<open>None\<close> is the end of the loop.\<close>

definition run_check :: "log_thread \<Rightarrow> log_manager \<Rightarrow> log_thread option \<times> log_manager" where
  "run_check th m =
     (if \<not> lm_runing m \<and> lm_logs m = [] then (None, m)
      else if lm_hotUpdateInterval m \<noteq> 0
              \<and> le_time (lm_env m) - lt_lastCheckUpdate th > lm_hotUpdateInterval m
      then (Some (th\<lparr>lt_lastCheckUpdate := le_time (lm_env m)\<rparr>), snd (updateConfig m))
      else (Some th, m))"

fun run_end :: "int list \<Rightarrow> log_manager \<Rightarrow> log_manager" where
  "run_end [] m = m"
| "run_end (i # is) m =
     run_end is (if li_enable (logger_at m i)
                 then snd (closeLogger i (update_logger i (\<lambda>lg. lg\<lparr>li_enable := False\<rparr>) m)) else m)"

section \<open>Stopping\<close>

text \<open>\<open>stop\<close>, up to where it waits for the end of the thread, and all of it. (\<open>start\<close> is in \<open>Log_Sync\<close>.)\<close>

definition log_stop :: "log_manager \<Rightarrow> bool \<times> log_manager" where
  "log_stop m =
     (if lm_runing m
      then (True, (log_console (''log4z stopping '' @ [CR, LF]) LOG_LEVEL_FATAL m)\<lparr>lm_runing := False\<rparr>)
      else (False, m))"

definition LogerManager_stop :: "int option \<Rightarrow> log_manager \<Rightarrow> bool option \<times> log_manager" where
  "LogerManager_stop joined m =
     (let (stopping, m) = log_stop m
      in if stopping then (map_option (\<lambda>_. True) (ThreadHelper_wait joined), m) else (Some False, m))"

definition LogerManager_destroy :: "log_manager \<Rightarrow> log_manager" where
  "LogerManager_destroy m = snd (log_stop m)"

end
