(* ===== verification/Log_Table.thy ===== *)
theory Log_Table
  imports Log_Output
begin

text \<open>
  The invariant of the logger's table, kept by every operation of the application and of the
  logger's thread. Most operations leave the table alone altogether (\<open>same_table\<close>).
\<close>

section \<open>The table of loggers\<close>

text \<open>
  The operations of the application, of the logger's thread, and of the surroundings; the thread's
  local variables are part of the state.
\<close>

datatype log_op =
    OpCreate "string option"
  | OpConfig string bool
  | OpConfigFile string
  | OpUpdateConfig
  | OpHotChange int log_data_type int string
  | OpEnable int bool
  | OpLevel int int
  | OpStream int int string int "log_value list"
  | OpFormat int int string int "string option"
  | OpStart string int int
  | OpStop
  | OpHandle                        \<comment> \<open>the thread handles one message\<close>
  | OpFlush
  | OpCheck
  | OpEnd
  | OpEnv "log_env \<Rightarrow> log_env"        \<comment> \<open>time passes, files change\<close>

fun log_step :: "log_op \<Rightarrow> log_thread \<times> log_manager \<Rightarrow> (log_thread \<times> log_manager) res" where
  "log_step (OpCreate key) (th, m) = Inr (th, snd (createLogger key m))"
| "log_step (OpConfig content isUpdate) (th, m) = Inr (th, snd (configFromStringImpl content isUpdate m))"
| "log_step (OpConfigFile path) (th, m) = Inr (th, snd (config path m))"
| "log_step OpUpdateConfig (th, m) = Inr (th, snd (updateConfig m))"
| "log_step (OpHotChange i ldt num text) (th, m) = Inr (th, snd (hotChange i ldt num text m))"
| "log_step (OpEnable i enable) (th, m) = Inr (th, snd (enableLogger i enable m))"
| "log_step (OpLevel i level) (th, m) = Inr (th, snd (setLoggerLevel i level m))"
| "log_step (OpStream i level file line vs) (th, m) = map_sum id (Pair th) (LOG_STREAM i level file line vs m)"
| "log_step (OpFormat i level file line out) (th, m) = map_sum id (Pair th) (LOG_FORMAT i level file line out m)"
| "log_step (OpStart file line1 line2) (th, m) = run_begin file line1 line2 m"
| "log_step OpStop (th, m) = Inr (th, snd (log_stop m))"
| "log_step OpHandle (th, m) = drain_logs 1 th m"
| "log_step OpFlush (th, m) = Inr (flush_loggers [0..lm_lastId m] th m)"
| "log_step OpCheck (th, m) = Inr (th, snd (run_check th m))"
| "log_step OpEnd (th, m) = Inr (th, run_end [0..lm_lastId m] m)"
| "log_step (OpEnv f) (th, m) = Inr (th, m\<lparr>lm_env := f (lm_env m)\<rparr>)"

definition manager_inv :: "log_manager \<Rightarrow> bool" where
  "manager_inv m \<longleftrightarrow> length (lm_loggers m) = 20 \<and> 0 \<le> lm_lastId m \<and> lm_lastId m < 20
     \<and> (\<forall>k i. lm_ids m k = Some i \<longleftrightarrow> 0 \<le> i \<and> i \<le> lm_lastId m \<and> li_key (logger_at m i) = k)"

lemma logger_in_range:
  assumes "manager_inv m" and "0 \<le> i" and "i \<le> lm_lastId m"
  shows "nat i < length (lm_loggers m)" and "logger_at m i \<in> set (lm_loggers m)"
proof -
  have "i < 20" "length (lm_loggers m) = 20" using assms by (simp_all add: manager_inv_def)
  then show "nat i < length (lm_loggers m)" by simp
  then show "logger_at m i \<in> set (lm_loggers m)" by (simp add: logger_at_def)
qed

text \<open>What attribute changes leave alone.\<close>

definition same_table :: "log_manager \<Rightarrow> log_manager \<Rightarrow> bool" where
  "same_table m m' \<longleftrightarrow> lm_ids m' = lm_ids m \<and> lm_lastId m' = lm_lastId m
     \<and> map li_key (lm_loggers m') = map li_key (lm_loggers m) \<and> lm_checksum m' = lm_checksum m"

lemma same_table_refl [simp]: "same_table m m"
  by (simp add: same_table_def)

lemma same_table_trans [trans]: "same_table a b \<Longrightarrow> same_table b c \<Longrightarrow> same_table a c"
  by (simp add: same_table_def)

lemma same_table_inv:
  assumes "same_table m m'" and "manager_inv m"
  shows "manager_inv m'"
proof -
  have len: "length (lm_loggers m') = length (lm_loggers m)"
    using assms(1) by (metis same_table_def length_map)
  have "li_key (logger_at m' i) = li_key (logger_at m i)" if "0 \<le> i" "i \<le> lm_lastId m" for i
  proof -
    have "nat i < length (lm_loggers m)" by (rule logger_in_range [OF assms(2) that])
    then show ?thesis using assms(1) len
      by (metis logger_at_def nth_map same_table_def)
  qed
  with assms len show ?thesis by (auto simp: manager_inv_def same_table_def)
qed

lemma update_logger_table:
  assumes "li_key (f (logger_at m i)) = li_key (logger_at m i)"
  shows "same_table m (update_logger i f m)"
proof -
  have "map li_key ((lm_loggers m)[nat i := f (logger_at m i)]) = map li_key (lm_loggers m)"
  proof (cases "nat i < length (lm_loggers m)")
    case True
    then show ?thesis by (simp add: map_update assms) (metis list_update_id logger_at_def nth_map)
  qed (simp add: list_update_beyond)
  then show ?thesis by (simp add: same_table_def update_logger_def)
qed

lemma set_logger_table: "li_key lg = li_key (logger_at m i) \<Longrightarrow> same_table m (set_logger i lg m)"
  by (simp add: set_logger_def update_logger_table)

text \<open>The fields that do not belong to the table.\<close>

lemma other_fields_table [simp]:
  "same_table m (m\<lparr>lm_env := e\<rparr>)" "same_table m (m\<lparr>lm_logs := ls\<rparr>)" "same_table m (m\<lparr>lm_runing := r\<rparr>)"
  "same_table m (m\<lparr>lm_freeLogDatas := ls\<rparr>)" "same_table m (m\<lparr>lm_totalPopLog := n\<rparr>)"
  "same_table m (count_written l m)" "same_table m (push_queue l m)" "same_table m (log_console t lv m)"
  "same_table m (freeLogData l m)" "same_table m (snd (makeLogData i lv m))" "same_table m (m\<lparr>lm_configFile := p\<rparr>)"
  by (simp_all add: same_table_def count_written_def push_queue_def log_console_def freeLogData_def
      makeLogData_def case_prod_unfold Let_def)

lemma log_console_fields [simp]:
  "lm_ids (log_console t lv m) = lm_ids m" "lm_lastId (log_console t lv m) = lm_lastId m"
  "lm_loggers (log_console t lv m) = lm_loggers m" "lm_checksum (log_console t lv m) = lm_checksum m"
  "lm_logs (log_console t lv m) = lm_logs m" "lm_runing (log_console t lv m) = lm_runing m"
  "manager_inv (log_console t lv m) = manager_inv m"
  by (simp_all add: log_console_def manager_inv_def logger_at_def)

lemma config_warning_inv [simp]: "manager_inv (config_warning t m) = manager_inv m"
  by (simp add: config_warning_def manager_inv_def logger_at_def)

lemma logger_at_fields [simp]:
  "logger_at (m\<lparr>lm_env := e\<rparr>) i = logger_at m i" "logger_at (m\<lparr>lm_totalPopLog := n\<rparr>) i = logger_at m i"
  "logger_at (m\<lparr>lm_logs := ls\<rparr>) i = logger_at m i" "logger_at (m\<lparr>lm_runing := r\<rparr>) i = logger_at m i"
  "logger_at (m\<lparr>lm_freeLogDatas := ls\<rparr>) i = logger_at m i" "logger_at (freeLogData l m) i = logger_at m i"
  "logger_at (count_written l m) i = logger_at m i" "logger_at (push_queue l m) i = logger_at m i"
  "logger_at (log_console t lv m) i = logger_at m i" "logger_at (snd (makeLogData j lv m)) i = logger_at m i"
  by (simp_all add: logger_at_def count_written_def push_queue_def log_console_def freeLogData_def
      makeLogData_def case_prod_unfold Let_def)

lemma onHotChange_table: "same_table m (snd (onHotChange i ldt num text m))"
  by (auto simp: onHotChange_def intro!: update_logger_table split: log_data_type.split)

lemma hotChange_table: "same_table m (snd (hotChange i ldt num text m))"
  using onHotChange_table same_table_trans [OF other_fields_table(10) other_fields_table(2)]
  by (simp add: hotChange_def case_prod_unfold Let_def)

lemma setters_table:
  "same_table m (snd (enableLogger i b m))" "same_table m (snd (setLoggerLevel i l m))"
  "same_table m (snd (setLoggerName i n m))" "same_table m (snd (setLoggerPath i p m))"
  "same_table m (snd (setLoggerDisplay i b m))" "same_table m (snd (setLoggerOutFile i b m))"
  "same_table m (snd (setLoggerMonthdir i b m))" "same_table m (snd (setLoggerFileLine i b m))"
  "same_table m (snd (setLoggerLimitsize i u m))" "same_table m (snd (setLoggerReserveDays i u m))"
  by (auto simp: enableLogger_def setLoggerLevel_def setLoggerName_def setLoggerPath_def setLoggerDisplay_def
      setLoggerOutFile_def setLoggerMonthdir_def setLoggerFileLine_def setLoggerLimitsize_def
      setLoggerReserveDays_def Let_def hotChange_table intro: update_logger_table split: option.split)

lemma open_path_table: "li_key lg = li_key (logger_at m i) \<Longrightarrow> same_table m (snd (open_path i lg path e m))"
  by (auto simp: open_path_def Let_def case_prod_unfold
      intro!: same_table_trans [OF other_fields_table(1) set_logger_table])

lemma open_file_table:
  assumes "open_file l lg m = Inr (ok, m')" and "li_key lg = li_key (logger_at m (ld_id l))"
  shows "same_table m m'"
proof -
  let ?lg = "lg\<lparr>li_curFileCreateTime := ld_time l, li_curWriteLen := 0\<rparr>"
  obtain path e where "open_path (ld_id l) ?lg path e m = (ok, m')"
    using assms(1) by (auto simp: open_file_def Let_def)
  then show ?thesis using open_path_table [of ?lg m "ld_id l" path e] assms(2) by simp
qed

lemma openLogger_table: "openLogger l m = Inr (ok, m') \<Longrightarrow> same_table m m'"
  by (auto simp: openLogger_def Let_def split: if_splits intro: set_logger_table open_file_table)

lemma closeLogger_table: "same_table m (snd (closeLogger i m))"
  by (auto simp: closeLogger_def intro: update_logger_table)

lemma write_message_table: "same_table m (write_message l m)"
  by (auto simp: write_message_def Let_def case_prod_unfold
      intro!: same_table_trans [OF other_fields_table(1) set_logger_table])

lemma pushLog_table: "pushLog l file line m = Inr (ok, m') \<Longrightarrow> same_table m m'"
  by (auto simp: pushLog_def LOG4Z_ALL_SYNCHRONOUS_OUTPUT_def Let_def split: if_splits option.splits)

lemma LOG_STREAM_table: "LOG_STREAM i level file line vs m = Inr m' \<Longrightarrow> same_table m m'"
  by (auto simp: LOG_STREAM_def case_prod_unfold Let_def split: if_splits
      dest!: pushLog_table intro: same_table_trans [OF other_fields_table(10)])

lemma LOG_FORMAT_table: "LOG_FORMAT i level file line out m = Inr m' \<Longrightarrow> same_table m m'"
  by (auto simp: LOG_FORMAT_def case_prod_unfold Let_def split: if_splits
      dest!: pushLog_table intro: same_table_trans [OF other_fields_table(10)])

lemma describe_loggers_table: "describe_loggers file line is m = Inr m' \<Longrightarrow> same_table m m'"
proof (induction "is" arbitrary: m)
  case (Cons i "is")
  show ?case
  proof (cases "li_enable (logger_at m i)")
    case True
    with Cons.prems obtain m1 where "LOGA file line (describe_logger i (logger_at m i)) m = Inr m1"
      "describe_loggers file line is m1 = Inr m'" by auto
    then show ?thesis using LOG_STREAM_table same_table_trans Cons.IH unfolding stream_macros by blast
  next
    case False
    with Cons show ?thesis by simp
  qed
qed simp

lemma run_begin_table: "run_begin file line1 line2 m = Inr (th, m') \<Longrightarrow> same_table m m'"
  unfolding run_begin_def Let_def stream_macros
  by (auto dest!: LOG_STREAM_table describe_loggers_table intro: same_table_trans [OF other_fields_table(3)] same_table_trans)

lemma write_out_table: "same_table m (snd (write_out l th m))"
proof -
  have "same_table m (write_message l m)" by (rule write_message_table)
  also have "same_table \<dots> (update_logger (ld_id l)
      (\<lambda>lg. lg\<lparr>li_curWriteLen := li_curWriteLen lg + of_int (ld_contentLen l)\<rparr>) (write_message l m))"
    by (rule update_logger_table) simp
  also have "same_table \<dots> (snd (write_out l th m))" unfolding write_out_def snd_conv by simp
  finally show ?thesis .
qed

lemma output_message_table:
  assumes "output_message l th m = Inr (th', m')"
  shows "same_table m m'"
proof -
  define m1 where "m1 = display_message l m"
  have m1: "same_table m m1" by (simp add: m1_def display_message_def)
  show ?thesis
  proof (cases "li_outfile (logger_at m1 (ld_id l))")
    case True
    with assms obtain ok m2 where o: "openLogger l m1 = Inr (ok, m2)"
      and m': "(th', m') = (if ok then write_out l th m2 else (th, m2))"
      unfolding output_message_def Let_def m1_def [symmetric] LOG4Z_ALL_SYNCHRONOUS_OUTPUT_def by auto
    have "same_table m m2" by (rule same_table_trans [OF m1 openLogger_table [OF o]])
    moreover have "m' = m2 \<or> m' = snd (write_out l th m2)" using m' by (cases ok) (simp_all add: prod_eq_iff)
    ultimately show ?thesis using write_out_table same_table_trans by metis
  next
    case False
    with assms have "m' = count_written l m1"
      unfolding output_message_def Let_def m1_def [symmetric] LOG4Z_ALL_SYNCHRONOUS_OUTPUT_def by simp
    then show ?thesis using same_table_trans [OF m1 other_fields_table(6)] by simp
  qed
qed

lemma hot_message_table:
  "same_table m (update_logger i (\<lambda>lg. lg\<lparr>li_handle := None\<rparr>) (snd (onHotChange j ldt n t m)))"
  by (rule same_table_trans [OF onHotChange_table update_logger_table]) simp

lemma handle_log_table:
  assumes "handle_log l th m = Inr (th', m')"
  shows "same_table m m'"
proof -
  let ?m = "m\<lparr>lm_totalPopLog := lm_totalPopLog m + 1\<rparr>"
  consider "m' = freeLogData l m" | "m' = freeLogData l ?m"
    | "m' = freeLogData l (update_logger (ld_id l) (\<lambda>lg. lg\<lparr>li_handle := None\<rparr>)
        (snd (onHotChange (ld_id l) (ld_type l) (ld_typeval l) (take (nat (ld_contentLen l)) (ld_content l)) m)))"
    | m1 where "output_message l th ?m = Inr (th', m1)" "m' = freeLogData l m1"
    using assms unfolding handle_log_def Let_def by (auto split: if_splits simp del: logger_at_fields)
  then show ?thesis
  proof cases
    case 4
    then show ?thesis using output_message_table same_table_trans other_fields_table(5,9) by metis
  next
    case 3
    then show ?thesis using same_table_trans [OF hot_message_table other_fields_table(9)] by simp
  qed (use same_table_trans [OF other_fields_table(5) other_fields_table(9)] in simp_all)
qed

lemma drain_logs_table: "drain_logs n th m = Inr (th', m') \<Longrightarrow> same_table m m'"
proof (induction n arbitrary: th m)
  case (Suc n)
  show ?case
  proof (cases "lm_logs m")
    case Nil
    with Suc.prems show ?thesis by (simp add: popLog_def)
  next
    case (Cons l ls)
    then obtain th1 m1 where h: "handle_log l th (m\<lparr>lm_logs := ls\<rparr>) = Inr (th1, m1)"
      and d: "drain_logs n th1 m1 = Inr (th', m')"
      using Suc.prems by (auto simp: popLog_def)
    have "same_table m (m\<lparr>lm_logs := ls\<rparr>)" by simp
    also have "same_table \<dots> m1" by (rule handle_log_table [OF h])
    also have "same_table \<dots> m'" by (rule Suc.IH [OF d])
    finally show ?thesis .
  qed
qed simp

lemma flush_loggers_table: "same_table m (snd (flush_loggers is th m))"
proof (induction "is" arbitrary: th m)
  case (Cons i "is")
  have "same_table m (update_logger i (\<lambda>lg. lg\<lparr>li_handle := None\<rparr>) m)" by (simp add: update_logger_table)
  then show ?case using Cons same_table_trans by (simp add: Let_def)
qed simp

lemma run_end_table: "same_table m (run_end is m)"
proof (induction "is" arbitrary: m)
  case (Cons i "is")
  have "same_table m (snd (closeLogger i (update_logger i (\<lambda>lg. lg\<lparr>li_enable := False\<rparr>) m)))"
    by (rule same_table_trans [OF update_logger_table closeLogger_table]) simp
  then show ?case using Cons same_table_trans by simp
qed simp

lemma log_stop_table: "same_table m (snd (log_stop m))"
  using same_table_trans [OF other_fields_table(8) other_fields_table(3)] by (simp add: log_stop_def)

lemma createLogger_inv:
  assumes inv: "manager_inv m"
  shows "manager_inv (snd (createLogger key m))"
proof (cases key)
  case None
  with inv show ?thesis by (simp add: createLogger_def)
next
  case (Some k)
  let ?k = "trimLogConfig k []" and ?n = "lm_lastId m + 1"
  have valid: "lm_ids m ?k = Some i \<Longrightarrow> i \<noteq> - 1" for i using inv by (auto simp: manager_inv_def)
  show ?thesis
  proof (cases "lm_ids m ?k = None \<and> ?n < 20")
    case False
    with Some inv valid show ?thesis
      by (auto simp: createLogger_def Let_def LOG4Z_INVALID_LOGGER_ID_def LOG4Z_LOGGER_MAX_def split: option.split)
  next
    case True
    let ?m = "snd (createLogger key m)"
    have eq: "?m = update_logger ?n (\<lambda>li. li\<lparr>li_enable := True, li_key := ?k, li_name := ?k\<rparr>)
        (m\<lparr>lm_lastId := ?n, lm_ids := (lm_ids m)(?k \<mapsto> ?n)\<rparr>)"
      using True Some by (simp add: createLogger_def Let_def LOG4Z_INVALID_LOGGER_ID_def LOG4Z_LOGGER_MAX_def)
    have at: "logger_at ?m i = (if i = ?n then (logger_at m ?n)\<lparr>li_enable := True, li_key := ?k, li_name := ?k\<rparr>
        else logger_at m i)" if "0 \<le> i" for i
      using inv True that by (auto simp: eq update_logger_def logger_at_def manager_inv_def nth_list_update)
    have ids: "lm_ids m k' = Some i \<longleftrightarrow> 0 \<le> i \<and> i \<le> lm_lastId m \<and> li_key (logger_at m i) = k'" for k' i
      using inv by (simp add: manager_inv_def)
    have "lm_ids ?m k' = Some i \<longleftrightarrow> 0 \<le> i \<and> i \<le> lm_lastId ?m \<and> li_key (logger_at ?m i) = k'" for k' i
    proof -
      have "lm_ids ?m = (lm_ids m)(?k \<mapsto> ?n)" "lm_lastId ?m = ?n" by (simp_all add: eq update_logger_def)
      moreover have "0 \<le> ?n" using inv by (simp add: manager_inv_def)
      moreover have "\<not> (0 \<le> i \<and> i \<le> lm_lastId m \<and> li_key (logger_at m i) = ?k)"
        using ids [of ?k i] True by simp
      ultimately show ?thesis using ids [of k' i] at [of i] by (auto split: if_splits)
    qed
    moreover have "length (lm_loggers ?m) = 20" "0 \<le> lm_lastId ?m" "lm_lastId ?m < 20"
      using inv True by (simp_all add: eq update_logger_def manager_inv_def)
    ultimately show ?thesis by (simp add: manager_inv_def)
  qed
qed

lemma apply_info_keeps:
  "manager_inv m \<Longrightarrow> manager_inv (apply_info isUpdate li m)"
  "lm_checksum (apply_info isUpdate li m) = lm_checksum m"
proof -
  obtain i m1 where r: "(if findLogger (li_key li) m = LOG4Z_INVALID_LOGGER_ID
      then if isUpdate then (findLogger (li_key li) m, m) else createLogger (Some (li_key li)) m
      else (findLogger (li_key li) m, m)) = (i, m1)" by fastforce
  have st: "same_table m1 (apply_info isUpdate li m)"
  proof (cases "i = LOG4Z_INVALID_LOGGER_ID")
    case True
    then show ?thesis by (simp add: apply_info_def Let_def r)
  next
    case False
    show ?thesis
      unfolding apply_info_def Let_def r prod.case if_not_P [OF False]
      by ((rule same_table_trans [rotated], rule setters_table)+, rule same_table_refl)
  qed
  have m1: "m1 = m \<or> m1 = snd (createLogger (Some (li_key li)) m)"
    using r by (auto split: if_splits)
  then show "manager_inv m \<Longrightarrow> manager_inv (apply_info isUpdate li m)"
    using same_table_inv [OF st] createLogger_inv by blast
  have "lm_checksum (snd (createLogger k m)) = lm_checksum m" for k
    by (auto simp: createLogger_def Let_def update_logger_def split: option.split)
  with m1 st show "lm_checksum (apply_info isUpdate li m) = lm_checksum m"
    by (auto simp: same_table_def)
qed

lemma config_keeps:
  "manager_inv m \<Longrightarrow> manager_inv (fold (\<lambda>(k, li). apply_info isUpdate li) infos m)"
  "lm_checksum (fold (\<lambda>(k, li). apply_info isUpdate li) infos m) = lm_checksum m"
  by (induction infos arbitrary: m) (auto simp: apply_info_keeps)

lemma checksum_inv: "manager_inv (m\<lparr>lm_checksum := n\<rparr>) = manager_inv m"
  by (simp add: manager_inv_def logger_at_def)

lemma configFromStringImpl_keeps:
  "manager_inv m \<Longrightarrow> manager_inv (snd (configFromStringImpl content isUpdate m))"
  "lm_checksum (snd (configFromStringImpl content isUpdate m)) = content_sum content"
  by (auto simp: configFromStringImpl_def Let_def parseConfigFromString_def case_prod_unfold checksum_inv
      config_keeps [unfolded case_prod_unfold])

lemma configFromStringImpl_true: "fst (configFromStringImpl content isUpdate m)"
  by (simp add: configFromStringImpl_def Let_def parseConfigFromString_def case_prod_unfold)

lemma configs_inv:
  assumes "manager_inv m"
  shows "manager_inv (snd (config path m))" and "manager_inv (snd (updateConfig m))"
    and "manager_inv (snd (run_check th m))"
proof -
  have c: "manager_inv (m\<lparr>lm_configFile := p\<rparr>)" for p by (rule same_table_inv [OF _ assms]) simp
  then show "manager_inv (snd (config path m))"
    using assms by (auto simp: config_def Let_def intro: configFromStringImpl_keeps split: option.split)
  show u: "manager_inv (snd (updateConfig m))"
    using assms by (auto simp: updateConfig_def intro: configFromStringImpl_keeps split: option.split)
  then show "manager_inv (snd (run_check th m))" using assms by (simp add: run_check_def)
qed

lemma log_step_inv:
  assumes "log_step op (th, m) = Inr (th', m')" and "manager_inv m"
  shows "manager_inv m'"
proof (cases op)
  case (OpCheck)
  with assms show ?thesis using configs_inv(3) by auto
next
  case (OpUpdateConfig)
  with assms show ?thesis using configs_inv(2) by auto
next
  case (OpConfigFile path)
  with assms show ?thesis using configs_inv(1) by auto
next
  case (OpConfig content isUpdate)
  with assms show ?thesis using configFromStringImpl_keeps(1) by auto
next
  case (OpCreate key)
  with assms show ?thesis using createLogger_inv by auto
next
  case (OpStream i level f line vs)
  with assms have "LOG_STREAM i level f line vs m = Inr m'"
    by (cases "LOG_STREAM i level f line vs m") auto
  then show ?thesis using LOG_STREAM_table same_table_inv assms(2) by blast
next
  case (OpFormat i level f line out)
  with assms have "LOG_FORMAT i level f line out m = Inr m'"
    by (cases "LOG_FORMAT i level f line out m") auto
  then show ?thesis using LOG_FORMAT_table same_table_inv assms(2) by blast
next
  case OpHandle
  with assms(1) have "drain_logs 1 th m = Inr (th', m')" by simp
  then show ?thesis using drain_logs_table same_table_inv assms(2) by blast
next
  case (OpStart f line1 line2)
  with assms(1) have "run_begin f line1 line2 m = Inr (th', m')" by simp
  then show ?thesis using run_begin_table same_table_inv assms(2) by blast
next
  case OpFlush
  with assms(1) have "m' = snd (flush_loggers [0..lm_lastId m] th m)" by (simp add: prod_eq_iff)
  then show ?thesis using flush_loggers_table same_table_inv assms(2) by blast
qed (use assms in \<open>auto simp: prod_eq_iff intro: same_table_inv [OF hotChange_table]
    same_table_inv [OF setters_table(1)] same_table_inv [OF setters_table(2)] same_table_inv [OF log_stop_table]
    same_table_inv [OF run_end_table] same_table_inv [OF other_fields_table(1)]\<close>)

lemma new_manager_inv: "manager_inv (LogerManager_new e)"
proof -
  have "logger_at (LogerManager_new e) 0 =
      LoggerInfo_new\<lparr>li_enable := True, li_key := LOG4Z_MAIN_LOGGER_KEY, li_name := LOG4Z_MAIN_LOGGER_KEY\<rparr>"
    by (simp add: LogerManager_new_def update_logger_def logger_at_def LOG4Z_MAIN_LOGGER_ID_def
        LOG4Z_LOGGER_MAX_def)
  moreover have "lm_ids (LogerManager_new e) = [LOG4Z_MAIN_LOGGER_KEY \<mapsto> 0]" "lm_lastId (LogerManager_new e) = 0"
    "length (lm_loggers (LogerManager_new e)) = 20"
    by (simp_all add: LogerManager_new_def update_logger_def LOG4Z_MAIN_LOGGER_ID_def LOG4Z_LOGGER_MAX_def)
  ultimately show ?thesis by (auto simp: manager_inv_def)
qed

text \<open>Any sequence of operations, and where it leads from a new manager.\<close>

fun log_run :: "log_op list \<Rightarrow> log_thread \<times> log_manager \<Rightarrow> (log_thread \<times> log_manager) res" where
  "log_run [] s = Inr s"
| "log_run (op # ops) s = rbind (log_step op s) (log_run ops)"

lemma log_run_inv: "log_run ops (th, m) = Inr (th', m') \<Longrightarrow> manager_inv m \<Longrightarrow> manager_inv m'"
proof (induction ops arbitrary: th m)
  case (Cons op ops)
  then obtain th1 m1 where "log_step op (th, m) = Inr (th1, m1)" "log_run ops (th1, m1) = Inr (th', m')"
    by auto
  then show ?case using Cons log_step_inv by blast
qed simp

definition no_thread :: log_thread where
  "no_thread = \<lparr>lt_needFlush = [], lt_lastCheckUpdate = 0\<rparr>"

end
