(* ===== verification/Log_Properties.thy ===== *)
theory Log_Properties
  imports Log_Table "HOL-Library.Multiset"
begin

text \<open>
  The properties of the logger's configuration: trimming is what it should be, the table of
  loggers stays consistent, and a changed configuration with the same sum of characters is
  ignored.
\<close>

section \<open>Trimming\<close>

text \<open>The reference: without the ignored characters at both ends.\<close>

definition strip :: "('a \<Rightarrow> bool) \<Rightarrow> 'a list \<Rightarrow> 'a list" where
  "strip P xs = rev (dropWhile P (rev (dropWhile P xs)))"

lemma list_ex_mem [simp]: "list_ex (\<lambda>x. c = x) xs \<longleftrightarrow> c \<in> set xs"
  by (auto simp: list_ex_iff)

lemma dropWhile_snoc:
  "dropWhile P (xs @ [x]) = (if dropWhile P xs = [] then (if P x then [] else [x]) else dropWhile P xs @ [x])"
  by (induction xs) auto

lemma trim_loop_end:
  "posBegin < i \<Longrightarrow> trim_loop ign cs i posBegin posEnd =
     (posBegin, if dropWhile (\<lambda>c. c \<in> set ign) (rev cs) = [] then posEnd
                else i + length (dropWhile (\<lambda>c. c \<in> set ign) (rev cs)))"
  by (induction cs arbitrary: i posEnd) (auto simp: Let_def dropWhile_snoc)

lemma trim_loop_begin:
  "trim_loop ign cs i i posEnd =
     (i + length (takeWhile (\<lambda>c. c \<in> set ign) cs),
      if dropWhile (\<lambda>c. c \<in> set ign) cs = [] then posEnd
      else i + length (takeWhile (\<lambda>c. c \<in> set ign) cs)
        + length (dropWhile (\<lambda>c. c \<in> set ign) (rev (dropWhile (\<lambda>c. c \<in> set ign) cs))))"
  by (induction cs arbitrary: i) (auto simp: Let_def trim_loop_end dropWhile_snoc)

lemma take_end: "take (length (dropWhile P (rev ys))) ys = rev (dropWhile P (rev ys))"
proof -
  have "rev ys = takeWhile P (rev ys) @ dropWhile P (rev ys)" by simp
  then have "ys = rev (dropWhile P (rev ys)) @ rev (takeWhile P (rev ys))" by (metis rev_append rev_rev_ident)
  then show ?thesis by (metis append_eq_conv_conj length_rev)
qed

lemma trim_is_strip:
  "trimLogConfig str ext =
     strip (\<lambda>c. c \<in> set ext \<union> {CR, LF, TAB, SPACE}) (if has_bom str then drop 3 str else str)"
proof (cases "str = []")
  case True
  then show ?thesis by (simp add: trimLogConfig_def strip_def has_bom_def)
next
  case False
  let ?ign = "ext @ [CR, LF, TAB, SPACE]"
  define P where "P = (\<lambda>c. c \<in> set ?ign)"
  define b where "b = (if has_bom str then 3 else 0 :: nat)"
  let ?n = "length (takeWhile P (drop b str))" and ?ys = "dropWhile P (drop b str)"
  have "drop (b + ?n) str = ?ys" by (simp add: dropWhile_eq_drop add.commute)
  moreover have "trimLogConfig str ext =
      (if ?ys = [] then [] else take (length (dropWhile P (rev ?ys))) (drop (b + ?n) str))"
  proof -
    have "trimLogConfig str ext = (let (pb, pe) = trim_loop ?ign (drop b str) b b 0
        in if pb < pe then take (pe - pb) (drop pb str) else [])"
      using False by (simp only: trimLogConfig_def b_def Let_def if_False)
    moreover have "trim_loop ?ign (drop b str) b b 0 =
        (b + ?n, if ?ys = [] then 0 else b + ?n + length (dropWhile P (rev ?ys)))"
      unfolding P_def by (rule trim_loop_begin)
    ultimately show ?thesis by (simp only: Let_def prod.case) (cases "?ys = []"; simp del: dropWhile_eq_Nil_conv)
  qed
  ultimately have "trimLogConfig str ext = strip P (drop b str)"
    by (cases "?ys = []") (simp_all add: take_end strip_def del: dropWhile_eq_Nil_conv)
  moreover have "P = (\<lambda>c. c \<in> set ext \<union> {CR, LF, TAB, SPACE})" by (auto simp: P_def fun_eq_iff)
  ultimately show ?thesis by (simp add: b_def)
qed

text \<open>C31. The one-pass loop of \<open>trimLogConfig\<close>, with its two positions, computes the reference:
  after a byte order mark, if there is one, the text without the ignored characters and white
  space at both ends.\<close>

theorem trimLogConfig_equivalence:
  "trimLogConfig str ext =
     strip (\<lambda>c. c \<in> set ext \<or> c \<in> {CR, LF, TAB, SPACE}) (if has_bom str then drop 3 str else str)"
  unfolding trim_is_strip Un_iff ..

text \<open>C32. The table of loggers. After any sequence of operations, of the application, of the
  configurations and of the logger's thread, the identifiers in use are those from zero to the
  last one, never more than twenty, and the map of keys and the loggers' own keys agree in both
  directions; \<open>createLogger\<close> returns what \<open>findLogger\<close> finds afterwards under the trimmed key,
  and fails only when the key is new and all twenty are taken.\<close>

theorem logger_table:
  assumes "log_run ops (no_thread, LogerManager_new e) = Inr (th, m)"
  shows "0 \<le> lm_lastId m \<and> lm_lastId m < 20
    \<and> (\<forall>k i. lm_ids m k = Some i \<longleftrightarrow> 0 \<le> i \<and> i \<le> lm_lastId m \<and> li_key (logger_at m i) = k)
    \<and> fst (createLogger (Some key) m) = findLogger (trimLogConfig key []) (snd (createLogger (Some key) m))
    \<and> (fst (createLogger (Some key) m) = LOG4Z_INVALID_LOGGER_ID \<longleftrightarrow>
        lm_ids m (trimLogConfig key []) = None \<and> lm_lastId m = 19)"
proof -
  have inv: "manager_inv m" by (rule log_run_inv [OF assms new_manager_inv])
  have valid: "lm_ids m k = Some i \<Longrightarrow> i \<noteq> - 1" for k i using inv by (auto simp: manager_inv_def)
  have "fst (createLogger (Some key) m) = findLogger (trimLogConfig key []) (snd (createLogger (Some key) m))"
    by (auto simp: createLogger_def findLogger_def Let_def update_logger_def split: option.split)
  moreover have "fst (createLogger (Some key) m) = LOG4Z_INVALID_LOGGER_ID \<longleftrightarrow>
        lm_ids m (trimLogConfig key []) = None \<and> lm_lastId m = 19"
    using inv valid
    by (auto simp: createLogger_def Let_def manager_inv_def LOG4Z_INVALID_LOGGER_ID_def LOG4Z_LOGGER_MAX_def
        split: option.split)
  ultimately show ?thesis using inv by (simp add: manager_inv_def)
qed

theorem logger_table_witness:
  "\<forall>e. \<exists>th m. log_run [OpCreate (Some ''a''), OpLevel 0 3, OpStop] (no_thread, LogerManager_new e) = Inr (th, m)
     \<and> lm_lastId m < 20"
proof
  fix e
  obtain th m where "log_run [OpCreate (Some ''a''), OpLevel 0 3, OpStop] (no_thread, LogerManager_new e) = Inr (th, m)"
    by simp
  with logger_table [OF this, of "''b''"]
  show "\<exists>th m. log_run [OpCreate (Some ''a''), OpLevel 0 3, OpStop] (no_thread, LogerManager_new e) = Inr (th, m)
     \<and> lm_lastId m < 20" by blast
qed

section \<open>Updating the configuration\<close>

lemma content_sum_fold: "fold (\<lambda>c sum. sum + of_nat (of_char c)) xs (a :: uint32)
    = a + sum_mset (image_mset (\<lambda>c. of_nat (of_char c)) (mset xs))"
  by (induction xs arbitrary: a) (simp_all add: algebra_simps)

lemma content_sum_mset: "mset xs = mset ys \<Longrightarrow> content_sum xs = content_sum ys"
  by (simp add: content_sum_def content_sum_fold)

text \<open>A configuration is taken for unchanged when the sum of its characters is. After one has
  been read, reading any rearrangement of its characters reports success and changes nothing at
  all.\<close>

theorem config_update_ignored:
  fixes content content' :: string and b b' :: bool and m0 :: log_manager
  assumes "mset content' = mset content"
  defines "m \<equiv> snd (configFromStringImpl content b m0)"
  shows "configFromStringImpl content' b' m = (True, m)"
  using configFromStringImpl_keeps(2) [of content b m0] content_sum_mset [OF assms(1)]
  by (simp add: configFromStringImpl_def [of content'] m_def)

theorem config_update_ignored_witness:
  "\<forall>e. \<exists>m. configFromStringImpl (''[a]'' @ [LF] @ ''limitsize='' @ ''12'') False (LogerManager_new e) = (True, m)
     \<and> configFromStringImpl (''[a]'' @ [LF] @ ''limitsize='' @ ''21'') True m = (True, m)"
proof
  fix e
  let ?c = "''[a]'' @ [LF] @ ''limitsize='' @ ''12''" and ?d = "''[a]'' @ [LF] @ ''limitsize='' @ ''21''"
  let ?m = "snd (configFromStringImpl ?c False (LogerManager_new e))"
  have e: "mset ''21'' = mset ''12''" by (simp add: add_mset_commute)
  have "mset ?d = mset ?c" by (simp only: mset_append e)
  from config_update_ignored [OF this] have "configFromStringImpl ?d True ?m = (True, ?m)" .
  moreover have "configFromStringImpl ?c False (LogerManager_new e) = (True, ?m)"
    using configFromStringImpl_true [of ?c False "LogerManager_new e"] by (simp only: prod_eq_iff fst_conv snd_conv)
  ultimately show "\<exists>m. configFromStringImpl ?c False (LogerManager_new e) = (True, m)
      \<and> configFromStringImpl ?d True m = (True, m)" by blast
qed

end
