(* ===== verification/Log_Stream_Properties.thy ===== *)
theory Log_Stream_Properties
  imports Log_Stream
begin

text \<open>
  What a stream shows: with room enough, the text of a value as one writes it down directly, the
  separators of containers between the elements only. And the bounds, on which the room to take a
  separator back depends.
\<close>

section \<open>The text of a value\<close>

fun join :: "string \<Rightarrow> string list \<Rightarrow> string" where
  "join sep [] = []"
| "join sep [x] = x"
| "join sep (x # y # zs) = x @ sep @ join sep (y # zs)"

definition row_text :: "64 word \<Rightarrow> char list \<Rightarrow> string" where
  "row_text addr bs =
     (let p = CRLFTAB @ pad_left 16 (CHR ''0'') (hexadecimal (unat addr)) @ '': ''
      in p @ concat (map (\<lambda>b. pad_left 2 (CHR ''0'') (hexadecimal (of_char b)) @ '' '') bs)
       @ p @ concat (map (\<lambda>b. if isprint b then '' '' @ [b] @ '' '' else '' . '') bs))"

definition binary_text :: "64 word \<Rightarrow> char list \<Rightarrow> string" where
  "binary_text buf bs = CRLFTAB @ ''[''
     @ concat (map (\<lambda>i. row_text (buf + of_nat (i * 16)) (take 16 (drop (i * 16) bs))) [0..<length bs div 16 + 1])
     @ CRLFTAB @ '']'' @ CRLFTAB"

function (sequential) shown :: "log_value \<Rightarrow> string" where
  "shown (VPointer t) = pad_left 16 (CHR ''0'') (hexadecimal (unat t))"
| "shown (VCString t) = t"
| "shown (VBool t) = (if t then ''true'' else ''false'')"
| "shown (VChar t) = [t]"
| "shown (VUChar t) = decimal (unat t)"
| "shown (VShort t) = show_int (sint t)"
| "shown (VUShort t) = decimal (unat t)"
| "shown (VInt t) = show_int (sint t)"
| "shown (VUInt t) = decimal (unat t)"
| "shown (VLong t) = show_int (sint t)"
| "shown (VULong t) = decimal (unat t)"
| "shown (VLongLong t) = show_int (sint t)"
| "shown (VULongLong t) = decimal (unat t)"
| "shown (VFloat t) = t"
| "shown (VString t) = t"
| "shown (VBinary buf bs) = binary_text buf bs"
| "shown (VPair a b) = ''pair('' @ shown a @ '':'' @ shown b @ '')''"
| "shown (VSeq k vs) =
     container_name k @ decimal (unat (of_nat (length vs) :: 64 word)) @ '')[''
     @ join '', '' (map shown (take 5 vs) @ (if length vs > 5 then [''...''] else [])) @ '']''"
  by pat_completeness auto
termination
  by (relation "measure size") (auto simp: less_Suc_eq_le dest!: in_set_takeD intro: size_list_estimation')

text \<open>What the loop over the elements writes, the last separator included.\<close>

definition elems_text :: "nat \<Rightarrow> log_value list \<Rightarrow> string" where
  "elems_text n vs = concat (map (\<lambda>v. shown v @ '', '') (take (5 - n) vs))
     @ (if length vs > 5 - n then ''..., '' else [])"

lemma join_separators: "xs \<noteq> [] \<Longrightarrow> join sep xs @ sep = concat (map (\<lambda>x. x @ sep) xs)"
  by (induction sep xs rule: join.induct) auto

lemma elems_text_join:
  assumes "vs \<noteq> []"
  shows "elems_text 0 vs = join '', '' (map shown (take 5 vs) @ (if length vs > 5 then [''...''] else [])) @ '', ''"
proof -
  have "map shown (take 5 vs) @ (if length vs > 5 then [''...''] else []) \<noteq> []" using assms by simp
  from join_separators [OF this, of "'', ''"] show ?thesis
    by (auto simp: elems_text_def comp_def)
qed

section \<open>Appending\<close>

definition written :: "string \<Rightarrow> log_stream \<Rightarrow> log_stream \<Rightarrow> bool" where
  "written t s s' \<longleftrightarrow> ls_cur s' = ls_cur s + int (length t)
     \<and> take (nat (ls_cur s')) (ls_mem s') = take (nat (ls_cur s)) (ls_mem s) @ t"

lemma written_trans: "written t s s' \<Longrightarrow> written u s' s'' \<Longrightarrow> written (t @ u) s s''"
  unfolding written_def by (elim conjE) (simp only: append_assoc length_append of_nat_add add.assoc)

text \<open>\<open>w\<close> appends \<open>t\<close>, if besides it there is room for \<open>k\<close> characters.\<close>

definition appends :: "nat \<Rightarrow> string \<Rightarrow> (log_stream \<Rightarrow> log_stream res) \<Rightarrow> bool" where
  "appends k t w \<longleftrightarrow> (\<forall>s. stream_ok s \<and> int (length t + k) \<le> ls_end s - ls_cur s \<longrightarrow>
     (\<exists>s'. w s = Inr s' \<and> stream_ok s' \<and> same_outside s s' \<and> written t s s'))"

lemma appendsE:
  assumes "appends k t w" and "stream_ok s" and "int (length t + k) \<le> ls_end s - ls_cur s"
  obtains s' where "w s = Inr s'" and "stream_ok s'" and "same_outside s s'" and "written t s s'"
    and "ls_cur s' = ls_cur s + int (length t)" and "ls_end s' = ls_end s"
  using assms unfolding appends_def written_def same_outside_def by blast

lemma appends_mono: "appends k t w \<Longrightarrow> k \<le> k' \<Longrightarrow> appends k' t w"
  by (force simp: appends_def)

lemma appends_bind:
  assumes "appends k t w" and "appends k' u w'" and "k \<le> length u + k'"
  shows "appends k' (t @ u) (\<lambda>s. rbind (w s) w')"
  unfolding appends_def
proof (intro allI impI, elim conjE)
  fix s assume s: "stream_ok s" "int (length (t @ u) + k') \<le> ls_end s - ls_cur s"
  then have "int (length t + k) \<le> ls_end s - ls_cur s" using assms(3) by simp
  from appendsE [OF assms(1) s(1) this] obtain s1 where s1: "w s = Inr s1" "stream_ok s1" "same_outside s s1"
    "written t s s1" "ls_cur s1 = ls_cur s + int (length t)" "ls_end s1 = ls_end s" .
  then have "int (length u + k') \<le> ls_end s1 - ls_cur s1" using s(2) by simp
  from appendsE [OF assms(2) s1(2) this] obtain s2 where "w' s1 = Inr s2" "stream_ok s2" "same_outside s1 s2"
    "written u s1 s2" .
  then show "\<exists>s'. rbind (w s) w' = Inr s' \<and> stream_ok s' \<and> same_outside s s' \<and> written (t @ u) s s'"
    using s1 same_outside_trans written_trans by auto
qed

lemma put_take:
  assumes "put i t mem = Inr mem'"
  shows "take (nat i + length t) mem' = take (nat i) mem @ t" and "length mem' = length mem"
    and "k \<le> nat i \<Longrightarrow> take k mem' = take k mem"
proof -
  have "0 \<le> i" "nat i + length t \<le> length mem" and m: "mem' = take (nat i) mem @ t @ drop (nat i + length t) mem"
    using assms by (auto simp: put_def split: if_splits)
  then have "length (take (nat i) mem) = nat i" by simp
  then show "take (nat i + length t) mem' = take (nat i) mem @ t" "length mem' = length mem"
    "k \<le> nat i \<Longrightarrow> take k mem' = take k mem"
    using \<open>nat i + length t \<le> length mem\<close> by (simp_all add: m min_absorb1)
qed

lemma writeData_appends: "appends 1 t (writeData (Some t))"
  unfolding appends_def
proof (intro allI impI, elim conjE)
  fix s assume s: "stream_ok s" "int (length t + 1) \<le> ls_end s - ls_cur s"
  let ?n = "nat (ls_end s - ls_cur s)"
  obtain s' where s': "writeData (Some t) s = Inr s'" "stream_ok s'" "same_outside s s'"
    "ls_cur s' = min (ls_end s) (ls_cur s + int (length t))"
    using writeData_reaches [OF s(1)] by blast
  have n: "ls_cur s < ls_end s" "take (?n - 1) t = t" "\<not> length t \<ge> ?n" using s(2) by simp_all
  then obtain mem where mem: "put (ls_cur s) (t @ [NUL]) (ls_mem s) = Inr mem" "ls_mem s' = mem"
    using s'(1) by (auto simp: writeData_def simp del: not_le)
  have c: "ls_cur s' = ls_cur s + int (length t)" "0 \<le> ls_cur s" using s s'(4) by (simp_all add: stream_ok_def)
  have le: "nat (ls_cur s) \<le> length (ls_mem s)" using s(1) by (auto simp: stream_ok_def)
  have "take (nat (ls_cur s) + length t) mem = take (nat (ls_cur s) + length t) (take (nat (ls_cur s) + length (t @ [NUL])) mem)"
    by (simp add: min_def)
  also have "\<dots> = take (nat (ls_cur s)) (ls_mem s) @ t"
    unfolding put_take(1) [OF mem(1)] using le by simp
  finally have "written t s s'" using c mem(2) by (simp add: written_def nat_add_distrib)
  with s' show "\<exists>s'. writeData (Some t) s = Inr s' \<and> stream_ok s' \<and> same_outside s s' \<and> written t s s'" by blast
qed

lemma writeString_appends: "appends 1 t (writeString t)"
  unfolding appends_def
proof (intro allI impI, elim conjE)
  fix s assume s: "stream_ok s" "int (length t + 1) \<le> ls_end s - ls_cur s"
  obtain s' where s': "writeString t s = Inr s'" "stream_ok s'" "same_outside s s'"
    "ls_cur s' = min (ls_end s) (ls_cur s + int (length t))"
    using writeString_reaches [OF s(1)] by blast
  have n: "ls_cur s < ls_end s" "\<not> length t > nat (ls_end s - ls_cur s)" using s(2) by simp_all
  have c: "ls_cur s' = ls_cur s + int (length t)" "0 \<le> ls_cur s" using s s'(4) by (simp_all add: stream_ok_def)
  obtain mem i where mem: "put (ls_cur s) t (ls_mem s) = Inr mem" "put i [NUL] mem = Inr (ls_mem s')"
    "ls_cur s + int (length t) \<le> i"
    using s'(1) n s(2) by (auto simp: writeString_def Let_def split: if_splits)
  have "nat (ls_cur s) + length t \<le> nat i" using mem(3) c(2) by simp
  from put_take(3) [OF mem(2) this] put_take(1) [OF mem(1)]
  have "written t s s'" using c by (simp add: written_def nat_add_distrib)
  with s' show "\<exists>s'. writeString t s = Inr s' \<and> stream_ok s' \<and> same_outside s s' \<and> written t s s'" by blast
qed

lemma number_appends:
  "appends 1 (show_int (sint t)) (writeLongLong t)"
  "appends 1 (decimal (unat t)) (writeULongLong t)"
  "appends 1 (pad_left 16 (CHR ''0'') (hexadecimal (unat t))) (writePointer t)"
  by (simp_all only: writeLongLong_def writeULongLong_def writePointer_def writeData_appends)

lemmas primitive_appends = writeData_appends writeString_appends number_appends

text \<open>Every text that is written on its own is appended by a program that needs one character more.\<close>

lemma write_all_appends:
  assumes "list_all2 (appends 1) ts ws"
  shows "appends 1 (concat ts) (write_all ws)"
  using assms
proof (induction ts ws rule: list_all2_induct)
  case Nil
  show ?case by (simp add: appends_def written_def)
next
  case (Cons t ts w ws)
  from appends_bind [OF Cons(1,3)] show ?case by simp
qed

lemma list_all2_maps: "(\<And>x. x \<in> set xs \<Longrightarrow> P (f x) (g x)) \<Longrightarrow> list_all2 P (map f xs) (map g xs)"
  by (simp add: list_all2_conv_all_nth)

lemma binary_row_appends: "appends 1 (row_text addr bs) (binary_row addr bs)"
proof -
  let ?p = "[CRLFTAB, pad_left 16 (CHR ''0'') (hexadecimal (unat addr)), '': '']"
  have "appends 1 (concat (?p @ map (\<lambda>b. pad_left 2 (CHR ''0'') (hexadecimal (of_char b)) @ '' '') bs
      @ ?p @ map (\<lambda>b. if isprint b then '' '' @ [b] @ '' '' else '' . '') bs)) (binary_row addr bs)"
    unfolding binary_row_def
    by (intro write_all_appends list_all2_appendI list_all2_maps) (auto simp: primitive_appends simp del: One_nat_def)
  then show ?thesis by (simp add: row_text_def Let_def)
qed

lemma writeBinary_appends: "appends 1 (binary_text buf bs) (writeBinary buf bs)"
proof -
  have "appends 1 (concat ([CRLFTAB @ ''[''] @ map (\<lambda>i. row_text (buf + of_nat (i * 16)) (take 16 (drop (i * 16) bs)))
      [0..<length bs div 16 + 1] @ [CRLFTAB @ '']'' @ CRLFTAB])) (writeBinary buf bs)"
    unfolding writeBinary_def
    by (intro write_all_appends list_all2_appendI list_all2_maps)
      (auto simp: primitive_appends binary_row_appends simp del: One_nat_def upt_Suc)
  then show ?thesis by (simp add: binary_text_def)
qed


section \<open>Elements and values\<close>

lemma elems_text_Cons:
  "elems_text n (v # vs) = (if n < 5 then shown v @ '', '' @ elems_text (Suc n) vs else ''..., '')"
  by (auto simp: elems_text_def take_Cons' Suc_diff_Suc)

text \<open>The container: its text with the last separator taken back.\<close>

lemma container_appends:
  assumes "vs \<noteq> []" and "appends 1 (elems_text 0 vs) (stream_elems 0 vs)"
  shows "appends 2 (shown (VSeq k vs)) (stream_out (VSeq k vs))"
proof -
  let ?h = "container_name k @ decimal (unat (of_nat (length vs) :: 64 word)) @ '')[''"
  let ?x = "join '', '' (map shown (take 5 vs) @ (if length vs > 5 then [''...''] else []))"
  let ?head = "\<lambda>s. rbind (writeString (container_name k) s)
     (\<lambda>s. rbind (writeULongLong (of_nat (length vs)) s) (writeString '')['') )"
  have "appends 1 ?h ?head" by (rule appends_bind primitive_appends | simp)+
  from appends_bind [OF this assms(2)] have a: "appends 1 (?h @ ?x @ '', '') (\<lambda>s. rbind (?head s) (stream_elems 0 vs))"
    by (simp add: elems_text_join [OF assms(1)])
  show ?thesis
    unfolding appends_def
  proof (intro allI impI, elim conjE)
    fix s assume s: "stream_ok s" "int (length (shown (VSeq k vs)) + 2) \<le> ls_end s - ls_cur s"
    then have "int (length (?h @ ?x @ '', '') + 1) \<le> ls_end s - ls_cur s" by simp
    from appendsE [OF a s(1) this] obtain s1 where s1: "rbind (?head s) (stream_elems 0 vs) = Inr s1"
      "stream_ok s1" "same_outside s s1" "written (?h @ ?x @ '', '') s s1"
      "ls_cur s1 = ls_cur s + int (length (?h @ ?x @ '', ''))" "ls_end s1 = ls_end s" .
    define s2 where "s2 = s1\<lparr>ls_cur := ls_cur s1 - 2\<rparr>"
    have c: "ls_cur s2 = ls_cur s + int (length (?h @ ?x))" using s1(5) by (simp add: s2_def)
    have ok: "stream_ok s2" "same_outside s s2" using s(1) s1(2,3) c
      by (auto simp: stream_ok_def same_outside_def s2_def)
    have pos: "0 \<le> ls_cur s" "nat (ls_cur s) \<le> length (ls_mem s)" using s(1) by (auto simp: stream_ok_def)
    have "take (nat (ls_cur s2)) (ls_mem s2) = take (nat (ls_cur s2)) (take (nat (ls_cur s1)) (ls_mem s1))"
      by (simp add: s2_def min_def)
    also have "take (nat (ls_cur s1)) (ls_mem s1) = (take (nat (ls_cur s)) (ls_mem s) @ ?h @ ?x) @ '', ''"
      using s1(4) unfolding written_def append_assoc by (elim conjE)
    also have "take (nat (ls_cur s2)) \<dots> = take (nat (ls_cur s)) (ls_mem s) @ ?h @ ?x"
      using pos c by (simp add: nat_add_distrib)
    finally have w: "written (?h @ ?x) s s2" using c by (simp add: written_def)
    have "int (length '']'' + 1) \<le> ls_end s2 - ls_cur s2" using s(2) c s1(6) by (simp add: s2_def)
    from appendsE [OF writeString_appends ok(1) this] obtain s3 where s3: "writeString '']'' s2 = Inr s3"
      "stream_ok s3" "same_outside s2 s3" "written '']'' s2 s3" .
    have "stream_out (VSeq k vs) s = Inr s3" using s1(1) s3(1) assms(1) by (auto simp: s2_def Let_def)
    moreover have "written (shown (VSeq k vs)) s s3" using written_trans [OF w s3(4)] by simp
    ultimately show "\<exists>s'. stream_out (VSeq k vs) s = Inr s' \<and> stream_ok s' \<and> same_outside s s'
        \<and> written (shown (VSeq k vs)) s s'"
      using s3(2) same_outside_trans [OF ok(2) s3(3)] by blast
  qed
qed

lemma empty_container_appends: "appends 1 (shown (VSeq k [])) (stream_out (VSeq k []))"
proof -
  have "appends 1 (container_name k @ decimal (unat (of_nat 0 :: 64 word)) @ '')['' @ '']'') (\<lambda>s.
    rbind (writeString (container_name k) s) (\<lambda>s. rbind (writeULongLong (of_nat 0) s) (\<lambda>s.
    rbind (writeString '')['' s) (writeString '']''))))"
    by (rule appends_bind primitive_appends | simp)+
  then show ?thesis by (simp add: appends_def)
qed

lemma elems_appends:
  assumes "\<And>v. v \<in> set vs \<Longrightarrow> appends 2 (shown v) (stream_out v)"
  shows "appends 1 (elems_text n vs) (stream_elems n vs)"
  using assms
proof (induction vs arbitrary: n)
  case Nil
  show ?case by (simp add: appends_def elems_text_def written_def)
next
  case (Cons v vs)
  have eq: "stream_elems n (v # vs) = (if n < 5 then (\<lambda>s. rbind (stream_out v s) (\<lambda>s. rbind (writeString '', '' s)
      (stream_elems (Suc n) vs))) else writeString ''..., '')"
    by (auto simp: fun_eq_iff Let_def LOG4Z_LOG_CONTAINER_DEPTH_def)
  have "appends 1 ('', '' @ elems_text (Suc n) vs) (\<lambda>s. rbind (writeString '', '' s) (stream_elems (Suc n) vs))"
    using Cons by (intro appends_bind [OF writeString_appends]) auto
  from appends_bind [OF Cons.prems [of v] this]
  show ?case unfolding eq elems_text_Cons using writeString_appends by simp
qed

lemma stream_out_appends: "appends 2 (shown v) (stream_out v)"
proof (induction v)
  case (VPair a b)
  have "appends 2 '')'' (writeString '')'')" by (rule appends_mono [OF writeString_appends]) simp
  from appends_bind [OF VPair.IH(2) this]
  have "appends 2 (shown b @ '')'') (\<lambda>s. rbind (stream_out b s) (writeString '')''))" by simp
  from appends_bind [OF writeString_appends this, of "'':''"]
  have "appends 2 ('':'' @ shown b @ '')'') (\<lambda>s. rbind (writeString '':'' s) (\<lambda>s. rbind (stream_out b s) (writeString '')'')))"
    by simp
  from appends_bind [OF VPair.IH(1) this]
  have "appends 2 (shown a @ '':'' @ shown b @ '')'') (\<lambda>s. rbind (stream_out a s) (\<lambda>s.
      rbind (writeString '':'' s) (\<lambda>s. rbind (stream_out b s) (writeString '')''))))" by simp
  from appends_bind [OF writeString_appends this, of "''pair(''"]
  have "appends 2 (''pair('' @ shown a @ '':'' @ shown b @ '')'') (\<lambda>s. rbind (writeString ''pair('' s)
      (\<lambda>s. rbind (stream_out a s) (\<lambda>s. rbind (writeString '':'' s) (\<lambda>s. rbind (stream_out b s) (writeString '')'')))))"
    by simp
  then show ?case by (simp add: appends_def)
next
  case (VSeq k vs)
  show ?case
  proof (cases "vs = []")
    case True
    show ?thesis unfolding True by (rule appends_mono [OF empty_container_appends]) simp
  next
    case False
    then show ?thesis using container_appends elems_appends VSeq by blast
  qed
qed (use appends_mono primitive_appends writeBinary_appends in \<open>auto simp: appends_def fun_eq_iff\<close>)

lemma stream_chain_appends: "appends 2 (concat (map shown vs)) (stream_chain vs)"
  unfolding stream_chain_def
proof (induction vs)
  case Nil
  show ?case by (simp add: appends_def written_def)
next
  case (Cons v vs)
  from appends_bind [OF stream_out_appends Cons] show ?case by (simp add: appends_def)
qed


section \<open>Properties\<close>

lemma new_stream_ok: "0 \<le> buf \<Longrightarrow> 0 \<le> len \<Longrightarrow> buf + len \<le> int (length mem) \<Longrightarrow> stream_ok (Log4zStream_new mem buf len)"
  by (simp add: stream_ok_def Log4zStream_new_def)

text \<open>What both kinds of statement come to for a new stream over a part of an array.\<close>

lemma new_stream_stays:
  assumes "stays (Log4zStream_new mem buf len) (w (Log4zStream_new mem buf len))" and "0 \<le> buf"
  obtains s where "w (Log4zStream_new mem buf len) = Inr s" and "0 \<le> getCurrentLen s" and "getCurrentLen s \<le> len"
    and "length (ls_mem s) = length mem" and "take (nat buf) (ls_mem s) = take (nat buf) mem"
    and "drop (nat (buf + len)) (ls_mem s) = drop (nat (buf + len)) mem"
  using assms by (auto simp: stays_def stream_ok_def same_outside_def getCurrentLen_def Log4zStream_new_def)

lemma chain_bounds:
  assumes "0 \<le> buf" and "buf + len \<le> int (length mem)" and "2 \<le> len"
  shows "stays (Log4zStream_new mem buf len) (stream_chain vs (Log4zStream_new mem buf len))"
  using assms by (intro stream_chain_stays) (simp_all add: new_stream_ok, simp add: Log4zStream_new_def)

lemma chain_text:
  assumes "0 \<le> buf" and "buf + len \<le> int (length mem)" and "int (length (concat (map shown vs)) + 2) \<le> len"
  obtains s where "stream_chain vs (Log4zStream_new mem buf len) = Inr s"
    and "getCurrentLen s = int (length (concat (map shown vs)))"
    and "take (nat buf + length (concat (map shown vs))) (ls_mem s) = take (nat buf) mem @ concat (map shown vs)"
proof -
  let ?s = "Log4zStream_new mem buf len"
  have "stream_ok ?s" "int (length (concat (map shown vs)) + 2) \<le> ls_end ?s - ls_cur ?s"
    using assms by (simp_all add: new_stream_ok) (simp add: Log4zStream_new_def)
  with stream_chain_appends [of vs] obtain s where "stream_chain vs ?s = Inr s" "same_outside ?s s"
    "written (concat (map shown vs)) ?s s" by (rule appendsE)
  with that assms(1) show ?thesis
    by (auto simp: written_def same_outside_def getCurrentLen_def Log4zStream_new_def nat_add_distrib)
qed

text \<open>C33. The bounds of the stream. Whatever is written, containers in containers included, a stream
  with room for two characters or more writes between its bounds only and stays between them. With
  room for one, taking a separator back that was cut off leaves the array.\<close>

theorem log_stream_in_bounds:
  assumes "0 \<le> buf" and "buf + len \<le> int (length mem)" and "2 \<le> len"
  shows "(\<exists>s. stream_chain vs (Log4zStream_new mem buf len) = Inr s
      \<and> 0 \<le> getCurrentLen s \<and> getCurrentLen s \<le> len \<and> length (ls_mem s) = length mem
      \<and> take (nat buf) (ls_mem s) = take (nat buf) mem
      \<and> drop (nat (buf + len)) (ls_mem s) = drop (nat (buf + len)) mem)
    \<and> stream_chain [VSeq k [VBool t]] (Log4zStream_new [c] 0 1) = Inl OutOfBounds"
proof
  from chain_bounds [OF assms] assms(1) show "\<exists>s. stream_chain vs (Log4zStream_new mem buf len) = Inr s
      \<and> 0 \<le> getCurrentLen s \<and> getCurrentLen s \<le> len \<and> length (ls_mem s) = length mem
      \<and> take (nat buf) (ls_mem s) = take (nat buf) mem
      \<and> drop (nat (buf + len)) (ls_mem s) = drop (nat (buf + len)) mem"
    by (rule new_stream_stays [where w = "stream_chain vs"]) blast
  show "stream_chain [VSeq k [VBool t]] (Log4zStream_new [c] 0 1) = Inl OutOfBounds"
    by (cases k) (simp_all add: stream_chain_def Log4zStream_new_def writeString_def writeData_def put_def
        writeULongLong_def LOG4Z_LOG_CONTAINER_DEPTH_def Let_def)
qed

theorem log_stream_in_bounds_witness:
  "\<exists>s. stream_chain [VSeq CList [VChar CHR ''a'', VChar CHR ''b'']] (Log4zStream_new (replicate 6 NUL) 1 4) = Inr s
     \<and> take 1 (ls_mem s) = [NUL] \<and> drop 5 (ls_mem s) = [NUL]"
  using conjunct1 [OF log_stream_in_bounds [where buf = 1 and len = 4 and mem = "replicate 6 NUL"
      and vs = "[VSeq CList [VChar CHR ''a'', VChar CHR ''b'']]"]]
  by (auto simp: numeral_nat)

text \<open>C34. The text. With room for two characters more than the text takes, a chain of values is
  written as the concatenation of their texts: containers with their elements, at most five, and the
  separator between them only.\<close>

theorem log_stream_shows:
  fixes vs :: "log_value list"
  assumes "0 \<le> buf" and "buf + len \<le> int (length mem)"
  defines "txt \<equiv> concat (map shown vs)"
  assumes "int (length txt + 2) \<le> len"
  shows "\<exists>s. stream_chain vs (Log4zStream_new mem buf len) = Inr s \<and> getCurrentLen s = int (length txt)
    \<and> take (nat buf + length txt) (ls_mem s) = take (nat buf) mem @ txt"
  using assms(3,4) chain_text [OF assms(1,2), of vs] by (metis txt_def)

theorem log_stream_shows_witness:
  "\<exists>s. stream_chain [VCString ''f:'', VSeq CVector [VBool True, VPair (VChar CHR ''a'') (VBool False)]]
        (Log4zStream_new (replicate 40 NUL) 0 40) = Inr s
     \<and> take 32 (ls_mem s) = ''f:vector(2)[true, pair(a:false)]''"
proof -
  let ?vs = "[VCString ''f:'', VSeq CVector [VBool True, VPair (VChar CHR ''a'') (VBool False)]]"
  have t: "concat (map shown ?vs) = ''f:vector(2)[true, pair(a:false)]''"
    by (simp add: decimal.simps digit_def char_of_def bit_simps)
  show ?thesis
    using log_stream_shows [where buf = 0 and len = 40 and mem = "replicate 40 NUL" and vs = ?vs]
    unfolding t by (auto simp: numeral_nat)
qed

end
