(* ===== verification/Log_Output_Properties.thy ===== *)
theory Log_Output_Properties
  imports Log_Table Log_Stream_Properties
begin

text \<open>
  The composing of a message: what \<open>LOG_STREAM\<close> queues, and that it stays inside the buffer.
\<close>

section \<open>Numbers and times\<close>

lemma length_decimal: "n < 10 ^ k \<Longrightarrow> 0 < k \<Longrightarrow> length (decimal n) \<le> k"
proof (induction n arbitrary: k rule: decimal.induct)
  case (1 n)
  show ?case
  proof (cases "n < 10")
    case True
    then show ?thesis using 1 by (subst decimal.simps) simp
  next
    case False
    then obtain k' where k: "k = Suc k'" "0 < k'" using 1(2,3) by (cases k; cases "k - 1") auto
    then have "n div 10 < 10 ^ k'" using 1(2) by (simp add: less_mult_imp_div_less mult.commute)
    from 1(1) [OF False this k(2)] show ?thesis using False k by (subst decimal.simps) simp
  qed
qed

lemma length_show_pad: "0 \<le> i \<Longrightarrow> i < 10 ^ w \<Longrightarrow> 0 < w \<Longrightarrow> length (show_pad w i) = w"
  using length_decimal [of "nat i" w] by (simp add: show_pad_def pad_left_def nat_less_iff)

definition tm_ok :: "tm \<Rightarrow> bool" where
  "tm_ok t \<longleftrightarrow> - 1900 \<le> tm_year t \<and> tm_year t < 8100 \<and> 0 \<le> tm_mon t \<and> tm_mon t < 12 \<and> 1 \<le> tm_mday t \<and> tm_mday t < 32
     \<and> 0 \<le> tm_hour t \<and> tm_hour t < 24 \<and> 0 \<le> tm_min t \<and> tm_min t < 60 \<and> 0 \<le> tm_sec t \<and> tm_sec t < 61"

definition env_ok :: "log_env \<Rightarrow> bool" where
  "env_ok e \<longleftrightarrow> (\<forall>t. tm_ok (le_localtime e t)) \<and> 0 \<le> le_usec e \<and> le_usec e < 1000000"

lemma env_okD: "env_ok e \<Longrightarrow> tm_ok (timeToTm e t)"
  by (simp add: env_ok_def timeToTm_def)

lemma stamp_length:
  assumes "tm_ok t" and "0 \<le> p" and "p < 1000" and "0 \<le> level" and "level \<le> 6"
  shows "length (log_stamp t p level) \<le> 34"
proof -
  have "length (show_int (tm_year t + 1900)) \<le> 4"
    using assms(1) length_decimal [of "nat (tm_year t + 1900)" 4] by (simp add: show_int_def tm_ok_def nat_less_iff)
  moreover have "length (show_pad 2 (tm_mon t + 1)) = 2" "length (show_pad 2 (tm_mday t)) = 2"
    "length (show_pad 2 (tm_hour t)) = 2" "length (show_pad 2 (tm_min t)) = 2" "length (show_pad 2 (tm_sec t)) = 2"
    "length (show_pad 3 p) = 3"
    using assms(1-3) by (simp_all add: length_show_pad tm_ok_def)
  moreover have "length (LOG_STRING ! nat level) = 9"
  proof -
    have "level \<in> {0, 1, 2, 3, 4, 5, 6}" using assms(4,5) by auto
    then show ?thesis by (auto simp: LOG_STRING_def)
  qed
  ultimately show ?thesis by (simp add: log_stamp_def)
qed

lemma log_file_name_length: "tm_ok t \<Longrightarrow> length (log_file_name name t) = length name + 13"
  by (simp add: log_file_name_def length_show_pad tm_ok_def)

section \<open>Composing a message\<close>

text \<open>The buffers of all messages have their size; that of a message in the queue is not used up.\<close>

definition buffers_ok :: "log_manager \<Rightarrow> bool" where
  "buffers_ok m \<longleftrightarrow> (\<forall>l \<in> set (lm_logs m) \<union> set (lm_freeLogDatas m). length (ld_content l) = LOG4Z_LOG_BUF_SIZE)"

text \<open>The part of a path after its last separator.\<close>

definition base_name :: "string \<Rightarrow> string" where
  "base_name file = rev (takeWhile (\<lambda>c. \<not> path_separator c) (rev file))"

lemma base_name_split:
  assumes "file = xs @ c # ys" and "path_separator c" and "\<forall>y \<in> set ys. \<not> path_separator y"
  shows "base_name file = ys"
  using assms by (simp add: base_name_def takeWhile_append)

lemma name_begin_base_from:
  "(\<forall>k. n < k \<and> k < length f \<longrightarrow> \<not> path_separator (f ! k)) \<Longrightarrow> name_begin f n = base_name f"
proof (induction f n rule: name_begin.induct)
  case (1 f n)
  have tail: "\<forall>y \<in> set (drop (n + 1) f). \<not> path_separator y"
    using 1(2) by (auto simp: in_set_conv_nth)
  consider (sep) "n < length f" "path_separator (f ! n)" | (start) "n = 0" "\<not> (n < length f \<and> path_separator (f ! n))"
    | (on) "n \<noteq> 0" "\<not> (n < length f \<and> path_separator (f ! n))" by blast
  then show ?case
  proof cases
    case sep
    then have "f = take n f @ f ! n # drop (n + 1) f" by (simp add: id_take_nth_drop)
    then show ?thesis using base_name_split sep tail by (subst name_begin.simps) metis
  next
    case start
    then have "\<forall>c \<in> set f. \<not> path_separator c" using 1(2) by (auto simp: in_set_conv_nth) (metis gr0I)
    then have "base_name f = f" by (simp add: base_name_def takeWhile_eq_all_conv [THEN iffD2])
    then show ?thesis using start by (subst name_begin.simps) auto
  next
    case on
    have "\<forall>k. n - 1 < k \<and> k < length f \<longrightarrow> \<not> path_separator (f ! k)"
      using 1(2) on by (metis Suc_pred' gr0I less_Suc_eq not_less_eq)
    from 1(1) [OF on(2) on(1) this] show ?thesis using on by (subst name_begin.simps) auto
  qed
qed

lemma name_begin_base: "name_begin f (length f) = base_name f"
  by (rule name_begin_base_from) auto

lemma makeLogData_ok:
  assumes "buffers_ok m" and "env_ok (lm_env m)" and "0 \<le> level" and "level \<le> 6"
    and "makeLogData i level m = (l, m1)"
  shows "length (ld_content l) = LOG4Z_LOG_BUF_SIZE \<and> ld_contentLen l \<le> 34
    \<and> take (nat (ld_contentLen l)) (ld_content l)
      = log_stamp (timeToTm (lm_env m) (le_time (lm_env m))) (le_usec (lm_env m) div 1000) level
    \<and> ld_contentLen l = int (length (log_stamp (timeToTm (lm_env m) (le_time (lm_env m))) (le_usec (lm_env m) div 1000) level))
    \<and> ld_id l = i \<and> ld_level l = level \<and> ld_type l = LDT_GENERAL \<and> ld_time l = le_time (lm_env m)
    \<and> buffers_ok m1 \<and> lm_logs m1 = lm_logs m \<and> lm_env m1 = lm_env m \<and> lm_lastId m1 = lm_lastId m
    \<and> lm_runing m1 = lm_runing m \<and> lm_loggers m1 = lm_loggers m"
proof -
  let ?t = "log_stamp (timeToTm (lm_env m) (le_time (lm_env m))) (le_usec (lm_env m) div 1000) level"
  have us: "0 \<le> le_usec (lm_env m) div 1000" "le_usec (lm_env m) div 1000 < 1000"
    using assms(2) by (auto simp: env_ok_def)
  have len: "length ?t \<le> 34" by (rule stamp_length [OF env_okD [OF assms(2)] us assms(3,4)])
  define l0 where "l0 = (if lm_freeLogDatas m \<noteq> [] then last (lm_freeLogDatas m) else LogData_new)"
  define m0 where "m0 = (if lm_freeLogDatas m \<noteq> [] then m\<lparr>lm_freeLogDatas := butlast (lm_freeLogDatas m)\<rparr> else m)"
  have l0: "length (ld_content l0) = LOG4Z_LOG_BUF_SIZE"
    using assms(1) by (auto simp: l0_def LogData_new_def buffers_ok_def)
  have m0: "buffers_ok m0 \<and> lm_logs m0 = lm_logs m \<and> lm_env m0 = lm_env m \<and> lm_lastId m0 = lm_lastId m
    \<and> lm_runing m0 = lm_runing m \<and> lm_loggers m0 = lm_loggers m"
    using assms(1) by (auto simp: m0_def buffers_ok_def dest: in_set_butlastD)
  have split: "(if lm_freeLogDatas m \<noteq> [] then (last (lm_freeLogDatas m), m\<lparr>lm_freeLogDatas := butlast (lm_freeLogDatas m)\<rparr>)
      else (LogData_new, m)) = (l0, m0)" by (simp add: l0_def m0_def)
  have l: "ld_content l = store (?t @ [NUL]) (ld_content l0)" "ld_contentLen l = int (length ?t)" "ld_id l = i"
    "ld_level l = level" "ld_type l = LDT_GENERAL" "ld_time l = le_time (lm_env m)" "m1 = m0"
    using assms(5) m0 unfolding makeLogData_def split by (auto simp: Let_def)
  have buf: "35 \<le> LOG4Z_LOG_BUF_SIZE" by (simp add: LOG4Z_LOG_BUF_SIZE_def)
  show ?thesis
    unfolding l using len m0 l0 buf by (simp add: store_def)
qed

text \<open>The chain with the place of the macro has no container, so any room is enough.\<close>

definition place :: "string \<Rightarrow> int \<Rightarrow> log_value list" where
  "place file line = [VCString '' '', VCString (name_begin file (length file)), VCString '':'', VInt (of_int line)]"

definition place_text :: "string \<Rightarrow> int \<Rightarrow> string" where
  "place_text file line = '' '' @ base_name file @ '':'' @ show_int (sint (of_int line :: 32 word))"

lemma place_shown: "concat (map shown (place file line)) = place_text file line"
  by (simp add: place_def place_text_def name_begin_base)

lemma place_stays:
  assumes "0 \<le> buf" and "0 \<le> len" and "buf + len \<le> int (length mem)"
  shows "stays (Log4zStream_new mem buf len) (stream_chain (place file line) (Log4zStream_new mem buf len))"
  unfolding stream_chain_def place_def
  by (rule write_all_stays [OF _ new_stream_ok [OF assms]]) (auto simp: primitive_stays)

text \<open>A message as it grows: its buffer, and the text so far.\<close>

definition holds :: "log_data \<Rightarrow> bool" where
  "holds l \<longleftrightarrow> length (ld_content l) = LOG4Z_LOG_BUF_SIZE \<and> 0 \<le> ld_contentLen l
     \<and> ld_contentLen l \<le> int LOG4Z_LOG_BUF_SIZE"

definition message_text :: "log_data \<Rightarrow> string" where
  "message_text l = take (nat (ld_contentLen l)) (ld_content l)"

lemma length_message_text: "holds l \<Longrightarrow> length (message_text l) = nat (ld_contentLen l)"
  by (auto simp: holds_def message_text_def)

lemma take_stream_sel [simp]:
  "ld_id (take_stream s l) = ld_id l" "ld_type (take_stream s l) = ld_type l" "ld_level (take_stream s l) = ld_level l"
  "ld_time (take_stream s l) = ld_time l" "ld_typeval (take_stream s l) = ld_typeval l"
  by (simp_all add: take_stream_def)

text \<open>What a chain does to a message, for a chain that stays inside and one that fits.\<close>

lemma chain_holds:
  assumes "holds l" and "stays (content_stream l) (stream_chain vs (content_stream l))"
  obtains s where "stream_chain vs (content_stream l) = Inr s" and "holds (take_stream s l)"
    and "ld_contentLen l \<le> ld_contentLen (take_stream s l)"
    and "length (message_text l @ concat (map shown vs)) + 2 \<le> LOG4Z_LOG_BUF_SIZE \<Longrightarrow>
      message_text (take_stream s l) = message_text l @ concat (map shown vs)"
proof -
  let ?buf = "ld_contentLen l" and ?len = "int LOG4Z_LOG_BUF_SIZE - ld_contentLen l"
  have b: "0 \<le> ?buf" "?buf + ?len \<le> int (length (ld_content l))" using assms(1) by (simp_all add: holds_def)
  obtain s where s: "stream_chain vs (content_stream l) = Inr s" "0 \<le> getCurrentLen s" "getCurrentLen s \<le> ?len"
    "length (ls_mem s) = length (ld_content l)"
    using new_stream_stays [where w = "stream_chain vs", OF assms(2) [unfolded content_stream_def] b(1)]
    unfolding content_stream_def by metis
  have "message_text (take_stream s l) = message_text l @ concat (map shown vs)"
    if "length (message_text l @ concat (map shown vs)) + 2 \<le> LOG4Z_LOG_BUF_SIZE"
  proof -
    have "int (length (concat (map shown vs)) + 2) \<le> ?len"
      using that assms(1) by (simp add: length_message_text holds_def)
    from chain_text [OF b this] obtain s' where s': "stream_chain vs (content_stream l) = Inr s'"
      "getCurrentLen s' = int (length (concat (map shown vs)))"
      "take (nat ?buf + length (concat (map shown vs))) (ls_mem s')
        = take (nat ?buf) (ld_content l) @ concat (map shown vs)"
      unfolding content_stream_def by blast
    then show ?thesis using s(1) b(1) by (simp add: message_text_def take_stream_def nat_add_distrib)
  qed
  with s assms(1) that show ?thesis by (auto simp: holds_def take_stream_def)
qed

lemma put_single:
  "0 \<le> i \<Longrightarrow> nat i < length mem \<Longrightarrow> put i [c] mem = Inr (mem[nat i := c])"
  by (simp add: put_def upd_conv_take_nth_drop)

lemma end_line_ends:
  assumes "holds l"
  obtains l' where "end_line l = Inr l'" and "holds l'"
    and "ld_contentLen l' < int LOG4Z_LOG_BUF_SIZE" and "2 \<le> ld_contentLen l'"
    and "message_text l' = take (nat (ld_contentLen l') - 2) (ld_content l) @ [CR, LF]"
    and "ld_content l' ! nat (ld_contentLen l') = NUL"
    and "3 \<le> ld_contentLen l \<Longrightarrow> ld_contentLen l + 3 \<le> int LOG4Z_LOG_BUF_SIZE \<Longrightarrow> message_text l' = message_text l @ [CR, LF]"
    and "ld_id l' = ld_id l" and "ld_type l' = ld_type l" and "ld_level l' = ld_level l" and "ld_time l' = ld_time l"
proof -
  define n0 where "n0 = (if ld_contentLen l < 3 then 3 else ld_contentLen l)"
  define n where "n = (if n0 + 3 \<le> int LOG4Z_LOG_BUF_SIZE then n0 + 3 else n0)"
  have n: "3 \<le> n" "n \<le> int LOG4Z_LOG_BUF_SIZE"
    using assms by (auto simp: n_def n0_def holds_def LOG4Z_LOG_BUF_SIZE_def)
  define k where "k = nat n - 3"
  have k: "nat (n - 1) = Suc (Suc k)" "nat (n - 2) = Suc k" "nat (n - 3) = k" "Suc (Suc k) < length (ld_content l)"
    using n assms by (auto simp: k_def holds_def)
  let ?c = "((ld_content l)[Suc (Suc k) := NUL, Suc k := LF, k := CR])"
  have eq: "end_line l = Inr (l\<lparr>ld_content := ?c, ld_contentLen := n - 1\<rparr>)" (is "_ = Inr ?l'")
    using n k unfolding end_line_def Let_def n0_def [symmetric] n_def [symmetric] by (simp add: put_single)
  have t: "take (Suc (Suc k)) ?c = take k (ld_content l) @ [CR, LF]"
    using k(4) by (simp add: take_Suc_conv_app_nth nth_list_update)
  have "message_text ?l' = take (nat (ld_contentLen ?l') - 2) (ld_content l) @ [CR, LF]"
    using t k(1) by (simp add: message_text_def)
  moreover have "message_text ?l' = message_text l @ [CR, LF]"
    if "3 \<le> ld_contentLen l" "ld_contentLen l + 3 \<le> int LOG4Z_LOG_BUF_SIZE"
  proof -
    have "k = nat (ld_contentLen l)" using that by (simp add: k_def n_def n0_def)
    with t k(1) show ?thesis by (simp add: message_text_def)
  qed
  moreover have "ld_content ?l' ! nat (ld_contentLen ?l') = NUL" using k by simp
  moreover have "holds ?l'" "ld_contentLen ?l' < int LOG4Z_LOG_BUF_SIZE" "2 \<le> ld_contentLen ?l'"
    using assms n by (simp_all add: holds_def)
  ultimately show thesis using that [OF eq] by simp
qed

text \<open>Pushing a message that its logger takes.\<close>

lemma pushLog_takes:
  assumes "holds l" and "3 \<le> ld_contentLen l" and "0 \<le> ld_id l" and "ld_id l \<le> lm_lastId m" and "lm_runing m"
    and "li_enable (logger_at m (ld_id l))" and "li_level (logger_at m (ld_id l)) \<le> ld_level l"
  obtains l' where "pushLog l (Some f) line m = Inr (True, push_queue l' m)"
    and "holds l'" and "ld_contentLen l' < int LOG4Z_LOG_BUF_SIZE"
    and "ld_content l' ! nat (ld_contentLen l') = NUL" and "\<exists>t. message_text l' = t @ [CR, LF]"
    and "ld_id l' = ld_id l" and "ld_type l' = ld_type l" and "ld_level l' = ld_level l" and "ld_time l' = ld_time l"
    and "\<And>suffix. suffix = (if li_fileLine (logger_at m (ld_id l)) then place_text f line else []) \<Longrightarrow>
      length (message_text l @ suffix) + 3 \<le> LOG4Z_LOG_BUF_SIZE \<Longrightarrow> message_text l' = message_text l @ suffix @ [CR, LF]"
proof -
  let ?place = "li_fileLine (logger_at m (ld_id l))"
  let ?suffix = "if ?place then place_text f line else []"
  obtain l1 where l1: "(if ?place then rbind (stream_chain (place f line) (content_stream l))
      (\<lambda>s. Inr (take_stream s l)) else Inr l) = Inr l1"
    "holds l1" "ld_contentLen l \<le> ld_contentLen l1" "ld_id l1 = ld_id l" "ld_type l1 = ld_type l"
    "ld_level l1 = ld_level l" "ld_time l1 = ld_time l"
    "length (message_text l @ ?suffix) + 2 \<le> LOG4Z_LOG_BUF_SIZE \<Longrightarrow> message_text l1 = message_text l @ ?suffix"
  proof (cases ?place)
    case True
    have "stays (content_stream l) (stream_chain (place f line) (content_stream l))"
      unfolding content_stream_def using assms(1) by (intro place_stays) (auto simp: holds_def)
    from chain_holds [OF assms(1) this] obtain s where s: "stream_chain (place f line) (content_stream l) = Inr s"
      "holds (take_stream s l)" "ld_contentLen l \<le> ld_contentLen (take_stream s l)"
      "length (message_text l @ place_text f line) + 2 \<le> LOG4Z_LOG_BUF_SIZE \<Longrightarrow>
        message_text (take_stream s l) = message_text l @ place_text f line" unfolding place_shown by blast
    then show thesis using that [of "take_stream s l"] True by simp
  next
    case False
    then show thesis using that [of l] assms(1) by simp
  qed
  from end_line_ends [OF l1(2)] obtain l2 where l2: "end_line l1 = Inr l2" "holds l2"
    "ld_contentLen l2 < int LOG4Z_LOG_BUF_SIZE"
    "message_text l2 = take (nat (ld_contentLen l2) - 2) (ld_content l1) @ [CR, LF]"
    "ld_content l2 ! nat (ld_contentLen l2) = NUL"
    "3 \<le> ld_contentLen l1 \<Longrightarrow> ld_contentLen l1 + 3 \<le> int LOG4Z_LOG_BUF_SIZE \<Longrightarrow> message_text l2 = message_text l1 @ [CR, LF]"
    "ld_id l2 = ld_id l1" "ld_type l2 = ld_type l1" "ld_level l2 = ld_level l1" "ld_time l2 = ld_time l1" by metis
  have push: "pushLog l (Some f) line m = Inr (True, push_queue l2 m)"
    using assms(3-7) l1(1) l2(1)
    by (auto simp: pushLog_def place_def [symmetric] LOG4Z_ALL_SYNCHRONOUS_OUTPUT_def split: if_splits)
  have text_eq: "message_text l2 = message_text l @ ?suffix @ [CR, LF]"
    if "length (message_text l @ ?suffix) + 3 \<le> LOG4Z_LOG_BUF_SIZE"
  proof -
    have t: "message_text l1 = message_text l @ ?suffix" using that l1(8) by simp
    then have "int (length (message_text l1)) + 3 \<le> int LOG4Z_LOG_BUF_SIZE" using that by (simp only: of_nat_add)
    then have "ld_contentLen l1 + 3 \<le> int LOG4Z_LOG_BUF_SIZE"
      using l1(2) length_message_text [OF l1(2)] by (simp add: holds_def)
    with l2(6) t assms(2) l1(3) show ?thesis by simp
  qed
  show thesis by (rule that [OF push]) (use l2(2-5,7-10) l1(4-7) text_eq in auto)
qed

definition stamp_now :: "log_manager \<Rightarrow> int \<Rightarrow> string" where
  "stamp_now m level = log_stamp (timeToTm (lm_env m) (le_time (lm_env m))) (le_usec (lm_env m) div 1000) level"

text \<open>C37. A message that its logger takes is queued, whatever its values and however long their text:
  nothing is written outside its buffer, and what is queued ends with a line end, followed by a NUL in
  the buffer. If everything fits, it is the time and level, the text of the values, the place, and the
  line end.\<close>

theorem log_message_composed:
  fixes m :: log_manager and i level line :: int and f :: string and vs :: "log_value list"
  assumes "buffers_ok m" and "env_ok (lm_env m)" and "prePushLog i level m" and "0 \<le> level" and "level \<le> 6"
  defines "txt \<equiv> stamp_now m level @ concat (map shown vs)
      @ (if li_fileLine (logger_at m i) then place_text f line else [])"
  shows "\<exists>m' l. LOG_STREAM i level f line vs m = Inr m' \<and> lm_logs m' = lm_logs m @ [l] \<and> buffers_ok m'
    \<and> ld_id l = i \<and> ld_type l = LDT_GENERAL \<and> ld_level l = level \<and> ld_time l = le_time (lm_env m)
    \<and> 0 \<le> ld_contentLen l \<and> ld_contentLen l < int LOG4Z_LOG_BUF_SIZE \<and> ld_content l ! nat (ld_contentLen l) = NUL
    \<and> (\<exists>t. message_text l = t @ [CR, LF])
    \<and> (length txt + 3 \<le> LOG4Z_LOG_BUF_SIZE \<longrightarrow> message_text l = txt @ [CR, LF])"
proof -
  obtain l0 m0 where mk: "makeLogData i level m = (l0, m0)" by fastforce
  note l0 = makeLogData_ok [OF assms(1,2,4,5) mk]
  have h0: "holds l0" "3 \<le> ld_contentLen l0" and t0: "message_text l0 = stamp_now m level"
    using l0 by (auto simp: holds_def message_text_def stamp_now_def LOG4Z_LOG_BUF_SIZE_def log_stamp_def)
  have at: "logger_at m0 = logger_at m" using l0 by (simp add: logger_at_def fun_eq_iff)
  have pre: "0 \<le> i" "i \<le> lm_lastId m" "lm_runing m" "li_enable (logger_at m i)" "li_level (logger_at m i) \<le> level"
    using assms(3) by (auto simp: prePushLog_def split: if_splits)
  have "stays (content_stream l0) (stream_chain vs (content_stream l0))"
    unfolding content_stream_def using l0 h0 by (intro chain_bounds) (auto simp: holds_def LOG4Z_LOG_BUF_SIZE_def)
  from chain_holds [OF h0(1) this] obtain s where s: "stream_chain vs (content_stream l0) = Inr s"
    "holds (take_stream s l0)" "ld_contentLen l0 \<le> ld_contentLen (take_stream s l0)"
    "length (message_text l0 @ concat (map shown vs)) + 2 \<le> LOG4Z_LOG_BUF_SIZE \<Longrightarrow>
      message_text (take_stream s l0) = message_text l0 @ concat (map shown vs)" by blast
  let ?l = "take_stream s l0"
  have "3 \<le> ld_contentLen ?l" "0 \<le> ld_id ?l" "ld_id ?l \<le> lm_lastId m0" "lm_runing m0"
    "li_enable (logger_at m0 (ld_id ?l))" "li_level (logger_at m0 (ld_id ?l)) \<le> ld_level ?l"
    using h0(2) s(3) l0 pre at by simp_all
  from pushLog_takes [OF s(2) this, of f line] obtain l' where l': "pushLog ?l (Some f) line m0 = Inr (True, push_queue l' m0)"
    "holds l'" "ld_contentLen l' < int LOG4Z_LOG_BUF_SIZE" "ld_content l' ! nat (ld_contentLen l') = NUL"
    "\<exists>t. message_text l' = t @ [CR, LF]" "ld_id l' = i" "ld_type l' = LDT_GENERAL" "ld_level l' = level"
    "ld_time l' = le_time (lm_env m)"
    "\<And>suffix. suffix = (if li_fileLine (logger_at m0 (ld_id ?l)) then place_text f line else []) \<Longrightarrow>
      length (message_text ?l @ suffix) + 3 \<le> LOG4Z_LOG_BUF_SIZE \<Longrightarrow> message_text l' = message_text ?l @ suffix @ [CR, LF]"
    using l0 by (metis take_stream_sel)
  have "LOG_STREAM i level f line vs m = Inr (push_queue l' m0)"
    using assms(3-5) mk s(1) l'(1) by (simp add: LOG_STREAM_def LOG_LEVEL_TRACE_def LOG_LEVEL_FATAL_def)
  moreover have "message_text l' = txt @ [CR, LF]" if "length txt + 3 \<le> LOG4Z_LOG_BUF_SIZE"
  proof -
    have "message_text ?l = stamp_now m level @ concat (map shown vs)" using that s(4) t0 by (simp add: txt_def)
    with that l'(10) [OF refl] l0 at show ?thesis by (simp add: txt_def)
  qed
  moreover have "lm_logs (push_queue l' m0) = lm_logs m @ [l']" "buffers_ok (push_queue l' m0)"
    using l0 l'(2) by (auto simp: push_queue_def buffers_ok_def holds_def)
  moreover have "0 \<le> ld_contentLen l'" using l'(2) by (simp add: holds_def)
  ultimately show ?thesis using l' by metis
qed

end
