(* ===== verification/Log_Thread_Properties.thy ===== *)
theory Log_Thread_Properties
  imports Log_Output_Properties
begin

text \<open>
  What the logger's thread does with the messages of the queue: where they are written, what a file
  limit comes to, and how the thread ends.
\<close>

section \<open>Files\<close>

text \<open>What the removal of old files leaves alone: everything but files.\<close>

definition same_but_files :: "log_env \<Rightarrow> log_env \<Rightarrow> bool" where
  "same_but_files e e' \<longleftrightarrow> (\<exists>fs. e' = e\<lparr>le_files := fs\<rparr>)"

lemma same_but_files_sel:
  assumes "same_but_files e e'"
  shows "le_localtime e' = le_localtime e" "le_dirs e' = le_dirs e" "le_may_create e' = le_may_create e"
    "le_space e' = le_space e" "le_time e' = le_time e" "le_usec e' = le_usec e" "env_ok e' = env_ok e"
  using assms by (auto simp: same_but_files_def env_ok_def)

lemma remove_old_total:
  assumes "\<And>t. tm_ok (le_localtime e t)" and "length n \<le> 86"
  shows "\<exists>e'. remove_old path n s e = Inr e' \<and> same_but_files e e'"
  using assms
proof (induction path n s e rule: remove_old.induct)
  case (1 path n s e)
  let ?buf = "log_file_name n (timeToTm e s)"
  have len: "length ?buf < 260" using 1(2,3) by (simp add: log_file_name_length timeToTm_def)
  then have buf: "sprintf 260 ?buf = Inr ?buf" by (simp add: sprintf_def)
  show ?case
  proof (cases "fst (file_remove (path @ ?buf) e)")
    case False
    then show ?thesis by (subst remove_old.simps) (auto simp: buf same_but_files_def intro: exI [of _ "le_files e"])
  next
    case True
    let ?e = "snd (file_remove (path @ ?buf) e)"
    have same: "same_but_files e ?e" by (auto simp: file_remove_def same_but_files_def intro: exI [of _ "le_files e"])
    have "\<And>t. tm_ok (le_localtime ?e t)" using 1(2) same_but_files_sel(1) [OF same] by simp
    from 1(1) [OF buf True this 1(3)] obtain e' where
      "remove_old path n (s - 24 * 3600) ?e = Inr e'" "same_but_files ?e e'" by blast
    then show ?thesis using True same by (subst remove_old.simps) (auto simp: buf same_but_files_def)
  qed
qed

lemma remove_old_first:
  assumes "tm_ok (le_localtime e s)" and "length n \<le> 86"
    and "map_of (le_files e) (path @ log_file_name n (timeToTm e s)) = None"
  shows "remove_old path n s e = Inr e"
  using assms
  by (subst remove_old.simps) (simp add: sprintf_def log_file_name_length timeToTm_def file_remove_def)

text \<open>The directories: after \<open>createRecursionDir\<close> the directory of a path that ends with a slash is there.\<close>

lemma make_dirs_env:
  "\<exists>ds. snd (make_dirs cur cs e) = e\<lparr>le_dirs := ds\<rparr> \<and> le_dirs e \<subseteq> ds"
proof (induction cs arbitrary: cur e)
  case Nil
  show ?case by (auto intro: exI [of _ "le_dirs e"])
next
  case (Cons c cs)
  let ?e = "e\<lparr>le_dirs := insert (without_slashes cur) (le_dirs e)\<rparr>"
  obtain ds where ds: "snd (make_dirs (cur @ [c]) cs ?e) = e\<lparr>le_dirs := ds\<rparr>" "le_dirs e \<subseteq> ds"
    using Cons.IH [of "cur @ [c]" ?e] by auto
  show ?case using Cons.IH [of "cur @ [c]" e] ds by (auto intro: exI [of _ "le_dirs e"])
qed

lemma without_slashes_slash [simp]: "without_slashes (p @ ''/'') = without_slashes p"
  by (simp add: without_slashes_def)

lemma make_dirs_makes:
  assumes "\<And>p. le_may_create e p" and "cs \<noteq> []" and "last cs = CHR ''/''"
  shows "isDirectory (snd (make_dirs cur cs e)) (cur @ cs)"
  using assms
proof (induction cs arbitrary: cur e)
  case (Cons c cs)
  show ?case
  proof (cases "cs = []")
    case False
    define e1 where "e1 = (if c = CHR ''/'' \<and> length cur > 0 \<and> \<not> isDirectory e cur
      then e\<lparr>le_dirs := insert (without_slashes cur) (le_dirs e)\<rparr> else e)"
    have "snd (make_dirs cur (c # cs) e) = snd (make_dirs (cur @ [c]) cs e1)" using Cons.prems(1) by (simp add: e1_def)
    moreover have "\<And>p. le_may_create e1 p" using Cons.prems(1) by (simp add: e1_def)
    ultimately show ?thesis using Cons.IH [of e1 "cur @ [c]"] Cons.prems False by simp
  next
    case True
    with Cons.prems have c: "c = CHR ''/''" by simp
    then show ?thesis using True Cons.prems(1)
      by (cases "cur = []") (auto simp: isDirectory_def without_slashes_def)
  qed
qed simp

section \<open>What the thread keeps\<close>

lemma env_ok_fields [simp]:
  "env_ok (e\<lparr>le_dirs := ds\<rparr>) = env_ok e" "env_ok (e\<lparr>le_files := fs\<rparr>) = env_ok e"
  "env_ok (e\<lparr>le_console := c\<rparr>) = env_ok e" "env_ok (e\<lparr>le_space := n\<rparr>) = env_ok e"
  "env_ok (showColorText t lv e) = env_ok e"
  by (simp_all add: env_ok_def showColorText_def)

lemma env_ok_files [simp]:
  "env_ok (snd (file_open p e)) = env_ok e" "env_ok (snd (file_write d h e)) = env_ok e"
  "env_ok (snd (createRecursionDir p e)) = env_ok e"
proof -
  show "env_ok (snd (file_open p e)) = env_ok e" by (simp add: file_open_def)
  show "env_ok (snd (file_write d h e)) = env_ok e"
    by (simp add: file_write_def Let_def file_append_def split: option.split)
  obtain ds where "snd (make_dirs [] (fixPath p) e) = e\<lparr>le_dirs := ds\<rparr>" using make_dirs_env by blast
  then show "env_ok (snd (createRecursionDir p e)) = env_ok e" by (simp add: createRecursionDir_def)
qed

text \<open>
  File names fit their buffer of a hundred characters if the names of loggers have at most 86; a new
  name may be waiting in the queue.
\<close>

definition thread_ok :: "log_manager \<Rightarrow> bool" where
  "thread_ok m \<longleftrightarrow> manager_inv m \<and> env_ok (lm_env m) \<and> (\<forall>lg \<in> set (lm_loggers m). length (li_name lg) \<le> 86)
     \<and> (\<forall>l \<in> set (lm_logs m). ld_type l = LDT_SET_LOGGER_NAME \<longrightarrow> ld_contentLen l \<le> 86)"

definition keeps :: "log_manager \<Rightarrow> log_manager \<Rightarrow> bool" where
  "keeps m m' \<longleftrightarrow> (thread_ok m \<longrightarrow> thread_ok m') \<and> lm_logs m' = lm_logs m \<and> lm_runing m' = lm_runing m
     \<and> lm_lastId m' = lm_lastId m"

lemma keeps_refl [simp]: "keeps m m"
  by (simp add: keeps_def)

lemma keeps_trans [trans]: "keeps a b \<Longrightarrow> keeps b c \<Longrightarrow> keeps a c"
  by (simp add: keeps_def)

lemma keeps_env: "(env_ok (lm_env m) \<Longrightarrow> env_ok e) \<Longrightarrow> keeps m (m\<lparr>lm_env := e\<rparr>)"
  using same_table_inv [OF other_fields_table(1)] by (auto simp: keeps_def thread_ok_def)

lemma keeps_fields [simp]:
  "keeps m (log_console t lv m)" "keeps m (freeLogData l m)" "keeps m (count_written l m)"
  "keeps m (m\<lparr>lm_totalPopLog := n\<rparr>)"
proof -
  show "keeps m (log_console t lv m)" unfolding log_console_def by (rule keeps_env) simp
  show "keeps m (freeLogData l m)" using same_table_inv [OF other_fields_table(9)]
    by (auto simp: keeps_def thread_ok_def freeLogData_def)
  show "keeps m (count_written l m)" using same_table_inv [OF other_fields_table(6)]
    by (auto simp: keeps_def thread_ok_def count_written_def)
  show "keeps m (m\<lparr>lm_totalPopLog := n\<rparr>)" using same_table_inv [OF other_fields_table(5)]
    by (auto simp: keeps_def thread_ok_def)
qed

lemma keeps_update:
  assumes "li_key (f (logger_at m i)) = li_key (logger_at m i)"
    and "length (li_name (logger_at m i)) \<le> 86 \<Longrightarrow> length (li_name (f (logger_at m i))) \<le> 86"
    and "0 \<le> i" and "i \<le> lm_lastId m"
  shows "keeps m (update_logger i f m)"
proof -
  note at = logger_in_range(2) [OF _ assms(3,4)]
  have "set ((lm_loggers m)[nat i := f (logger_at m i)]) \<subseteq> insert (f (logger_at m i)) (set (lm_loggers m))"
    by (rule set_update_subset_insert)
  then have "thread_ok m \<longrightarrow> thread_ok (update_logger i f m)"
    using same_table_inv [OF update_logger_table [where f = f, OF assms(1)]] at assms(2)
    by (auto simp: thread_ok_def update_logger_def)
  then show ?thesis by (simp add: keeps_def update_logger_def)
qed

lemma keeps_set:
  assumes "li_key lg = li_key (logger_at m i)" and "li_name lg = li_name (logger_at m i)" and "0 \<le> i" and "i \<le> lm_lastId m"
  shows "keeps m (set_logger i lg m)"
  unfolding set_logger_def using assms by (intro keeps_update) simp_all

lemma keeps_set_env:
  assumes "env_ok (lm_env m) \<Longrightarrow> env_ok e"
    and "li_key lg = li_key (logger_at m i)" and "li_name lg = li_name (logger_at m i)" and "0 \<le> i" and "i \<le> lm_lastId m"
  shows "keeps m (set_logger i lg (m\<lparr>lm_env := e\<rparr>))"
  by (rule keeps_trans [OF keeps_env [OF assms(1)] keeps_set]) (use assms in simp_all)

section \<open>Handling a message\<close>

text \<open>The directory of a file, as a string.\<close>

definition file_dir :: "logger_info \<Rightarrow> tm \<Rightarrow> string" where
  "file_dir lg t = li_path lg
     @ (if li_monthdir lg then show_pad 4 (tm_year t + 1900) @ ''_'' @ show_pad 2 (tm_mon t + 1) @ ''/'' else [])"

lemma log_dir_total: "tm_ok t \<Longrightarrow> log_dir lg t = Inr (file_dir lg t)"
  by (simp add: log_dir_def file_dir_def sprintf_def length_show_pad tm_ok_def)

lemma name_fits: "tm_ok t \<Longrightarrow> length n \<le> 86 \<Longrightarrow> sprintf 100 (log_file_name n t) = Inr (log_file_name n t)"
  by (simp add: sprintf_def log_file_name_length)

lemma clean_dir_total:
  assumes "env_ok e" and "length (li_name lg) \<le> 86"
  shows "\<exists>e'. clean_dir lg path e = Inr e' \<and> env_ok e'"
proof -
  define e1 where "e1 = (if \<not> isDirectory e path then snd (createRecursionDir path e) else e)"
  have e1: "env_ok e1" using assms(1) by (simp add: e1_def)
  then have "\<And>t. tm_ok (le_localtime e1 t)" by (simp add: env_ok_def)
  from remove_old_total [OF this assms(2)] obtain e' where r: "remove_old path (li_name lg)
      (le_time e1 - uint (li_reservedays lg * 86400) - 24 * 3600) e1 = Inr e'" "same_but_files e1 e'" by blast
  show ?thesis
    using e1 r same_but_files_sel(7) [OF r(2)] by (simp add: clean_dir_def Let_def e1_def [symmetric])
qed

lemma open_path_keeps:
  assumes "env_ok e" and "li_key lg = li_key (logger_at m i)" and "li_name lg = li_name (logger_at m i)"
    and "0 \<le> i" and "i \<le> lm_lastId m"
  shows "keeps m (snd (open_path i lg path e m))"
  using assms by (auto simp: open_path_def Let_def case_prod_unfold intro!: keeps_set_env)

lemma open_file_total:
  assumes "thread_ok m" and "0 \<le> ld_id l" and "ld_id l \<le> lm_lastId m"
    and "li_key lg = li_key (logger_at m (ld_id l))" and "li_name lg = li_name (logger_at m (ld_id l))"
  shows "\<exists>ok m'. open_file l lg m = Inr (ok, m') \<and> keeps m m'"
proof -
  let ?lg = "lg\<lparr>li_curFileCreateTime := ld_time l, li_curWriteLen := 0\<rparr>"
  let ?t = "timeToTm (lm_env m) (ld_time l)"
  have env: "env_ok (lm_env m)" using assms(1) by (simp add: thread_ok_def)
  then have t: "tm_ok ?t" by (rule env_okD)
  have name: "length (li_name ?lg) \<le> 86"
    using assms logger_in_range(2) [of m "ld_id l"] by (simp add: thread_ok_def)
  obtain e where e: "clean_dir ?lg (file_dir ?lg ?t) (lm_env m) = Inr e" "env_ok e"
    using clean_dir_total [OF env name] by blast
  have "open_file l lg m = Inr (open_path (ld_id l) ?lg (file_dir ?lg ?t @ log_file_name (li_name ?lg) ?t) e m)"
    using log_dir_total [OF t] e(1) name_fits [OF t name] by (simp add: open_file_def Let_def)
  moreover have "keeps m (snd (open_path (ld_id l) ?lg p e m))" for p
    using e(2) assms by (intro open_path_keeps) simp_all
  ultimately show ?thesis by (metis prod.collapse)
qed

lemma openLogger_total:
  assumes "thread_ok m" and "0 \<le> ld_id l" and "ld_id l \<le> lm_lastId m"
  shows "\<exists>ok m'. openLogger l m = Inr (ok, m') \<and> keeps m m'"
proof -
  let ?lg = "logger_at m (ld_id l)"
  define lg where "lg = (if \<not> isSameDay (lm_env m) (ld_time l) (li_curFileCreateTime ?lg)
        \<or> li_curWriteLen ?lg > li_limitsize ?lg * 1024 * 1024
      then ?lg\<lparr>li_curFileIndex := (if \<not> isSameDay (lm_env m) (ld_time l) (li_curFileCreateTime ?lg) then 0
               else li_curFileIndex ?lg + 1), li_handle := None\<rparr> else ?lg)"
  have lg: "li_key lg = li_key ?lg" "li_name lg = li_name ?lg" by (simp_all add: lg_def)
  have eq: "openLogger l m = (if \<not> li_enable ?lg \<or> \<not> li_outfile ?lg \<or> ld_level l < li_level ?lg then Inr (False, m)
      else if li_handle lg = None then open_file l lg m else Inr (True, set_logger (ld_id l) lg m))"
    using assms(2,3) by (simp add: openLogger_def Let_def lg_def)
  show ?thesis
    using open_file_total [OF assms lg] keeps_set [OF lg assms(2,3)] by (auto simp: eq)
qed

lemma write_out_keeps:
  assumes "0 \<le> ld_id l" and "ld_id l \<le> lm_lastId m"
  shows "keeps m (snd (write_out l th m))"
proof -
  have w: "keeps m (write_message l m)"
    unfolding write_message_def Let_def case_prod_unfold using assms by (intro keeps_set_env) simp_all
  also have "keeps (write_message l m) (update_logger (ld_id l)
      (\<lambda>lg. lg\<lparr>li_curWriteLen := li_curWriteLen lg + of_int (ld_contentLen l)\<rparr>) (write_message l m))"
    using assms w by (intro keeps_update) (simp_all add: keeps_def)
  also have "keeps \<dots> (snd (write_out l th m))" unfolding write_out_def snd_conv by simp
  finally show ?thesis .
qed

lemma output_message_total:
  assumes "thread_ok m" and "0 \<le> ld_id l" and "ld_id l \<le> lm_lastId m"
  shows "\<exists>th' m'. output_message l th m = Inr (th', m') \<and> keeps m m'"
proof -
  define m1 where "m1 = display_message l m"
  have m1: "keeps m m1" by (simp add: m1_def display_message_def)
  with assms have ok: "thread_ok m1" "ld_id l \<le> lm_lastId m1" by (simp_all add: keeps_def)
  show ?thesis
  proof (cases "li_outfile (logger_at m1 (ld_id l))")
    case False
    then show ?thesis using keeps_trans [OF m1 keeps_fields(3)]
      by (simp add: output_message_def Let_def m1_def [symmetric] LOG4Z_ALL_SYNCHRONOUS_OUTPUT_def)
  next
    case True
    from openLogger_total [OF ok(1) assms(2) ok(2)] obtain b m2 where o: "openLogger l m1 = Inr (b, m2)" "keeps m1 m2"
      by blast
    have "keeps m2 (snd (write_out l th m2))" using assms(2) ok(2) o(2) by (intro write_out_keeps) (simp_all add: keeps_def)
    then have k: "keeps m (snd (if b then write_out l th m2 else (th, m2)))"
      using keeps_trans [OF m1 o(2)] keeps_trans by simp
    have "output_message l th m = Inr (if b then write_out l th m2 else (th, m2))"
      using True o(1) by (simp add: output_message_def Let_def m1_def [symmetric] LOG4Z_ALL_SYNCHRONOUS_OUTPUT_def)
    with k show ?thesis by (cases "if b then write_out l th m2 else (th, m2)") simp
  qed
qed

lemma hot_message_keeps:
  assumes "0 \<le> i" and "i \<le> lm_lastId m" and "ldt = LDT_SET_LOGGER_NAME \<Longrightarrow> length t \<le> 86"
  shows "keeps m (update_logger i (\<lambda>lg. lg\<lparr>li_handle := None\<rparr>) (snd (onHotChange i ldt n t m)))"
proof -
  have k: "keeps m (snd (onHotChange i ldt n t m))"
    using assms by (auto simp: onHotChange_def intro!: keeps_update split: log_data_type.split)
  moreover have "keeps (snd (onHotChange i ldt n t m)) (update_logger i (\<lambda>lg. lg\<lparr>li_handle := None\<rparr>) (snd (onHotChange i ldt n t m)))"
    using assms k by (intro keeps_update) (simp_all add: keeps_def)
  ultimately show ?thesis by (rule keeps_trans)
qed

lemma handle_log_total:
  assumes "thread_ok m" and "ld_type l = LDT_SET_LOGGER_NAME \<longrightarrow> ld_contentLen l \<le> 86"
  shows "\<exists>th' m'. handle_log l th m = Inr (th', m') \<and> keeps m m'"
proof -
  let ?m = "m\<lparr>lm_totalPopLog := lm_totalPopLog m + 1\<rparr>"
  let ?t = "take (nat (ld_contentLen l)) (ld_content l)"
  consider (bad) "ld_id l < 0 \<or> ld_id l > lm_lastId m"
    | (hot) "0 \<le> ld_id l" "ld_id l \<le> lm_lastId m" "ld_type l \<noteq> LDT_GENERAL"
    | (drop) "0 \<le> ld_id l" "ld_id l \<le> lm_lastId m" "ld_type l = LDT_GENERAL"
        "\<not> li_enable (logger_at m (ld_id l)) \<or> ld_level l < li_level (logger_at m (ld_id l))"
    | (out) "0 \<le> ld_id l" "ld_id l \<le> lm_lastId m" "ld_type l = LDT_GENERAL"
        "\<not> (\<not> li_enable (logger_at m (ld_id l)) \<or> ld_level l < li_level (logger_at m (ld_id l)))" by linarith
  then show ?thesis
  proof cases
    case bad
    then show ?thesis by (auto simp: handle_log_def)
  next
    case hot
    have "ld_type l = LDT_SET_LOGGER_NAME \<Longrightarrow> length ?t \<le> 86" using assms(2) by simp
    from keeps_trans [OF hot_message_keeps [OF hot(1,2) this] keeps_fields(2)] hot show ?thesis
      by (auto simp: handle_log_def Let_def)
  next
    case drop
    then show ?thesis using keeps_trans [OF keeps_fields(4) keeps_fields(2)] by (auto simp: handle_log_def Let_def)
  next
    case out
    have m: "keeps m ?m" by simp
    then have "thread_ok ?m" "ld_id l \<le> lm_lastId ?m" using assms(1) out by (simp_all add: keeps_def)
    from output_message_total [OF this(1) out(1) this(2)] obtain th' m' where
      "output_message l th ?m = Inr (th', m')" "keeps ?m m'" by blast
    then show ?thesis using out keeps_trans [OF keeps_trans [OF m] keeps_fields(2)]
      by (auto simp: handle_log_def Let_def)
  qed
qed

lemma drain_logs_total:
  assumes "thread_ok m" and "n = length (lm_logs m)"
  shows "\<exists>th' m'. drain_logs n th m = Inr (th', m') \<and> thread_ok m' \<and> lm_logs m' = [] \<and> lm_runing m' = lm_runing m
    \<and> lm_lastId m' = lm_lastId m"
  using assms
proof (induction n arbitrary: th m)
  case (Suc n)
  then obtain l ls where ls: "lm_logs m = l # ls" "n = length ls" by (cases "lm_logs m") auto
  let ?m = "m\<lparr>lm_logs := ls\<rparr>"
  have ok: "thread_ok ?m" using Suc.prems(1) ls same_table_inv [OF other_fields_table(2)] by (auto simp: thread_ok_def)
  have "ld_type l = LDT_SET_LOGGER_NAME \<longrightarrow> ld_contentLen l \<le> 86" using Suc.prems(1) ls by (simp add: thread_ok_def)
  from handle_log_total [OF ok this] obtain th1 m1 where h: "handle_log l th ?m = Inr (th1, m1)" "keeps ?m m1" by blast
  then have "thread_ok m1" "n = length (lm_logs m1)" using ok ls(2) by (simp_all add: keeps_def)
  from Suc.IH [OF this] obtain th' m' where "drain_logs n th1 m1 = Inr (th', m')" "thread_ok m'" "lm_logs m' = []"
    "lm_runing m' = lm_runing m1" "lm_lastId m' = lm_lastId m1" by blast
  then show ?case using h ls(1) by (simp add: popLog_def keeps_def)
qed simp

section \<open>Where a message is written\<close>

lemma decimal_digits: "c \<in> set (decimal n) \<Longrightarrow> 48 \<le> (of_char c :: nat) \<and> (of_char c :: nat) < 58"
proof (induction n rule: decimal.induct)
  case (1 n)
  show ?case
  proof (cases "n < 10")
    case True
    with 1(2) have "c = digit n" by (subst (asm) decimal.simps) simp
    then show ?thesis using True by (simp add: of_char_digit)
  next
    case False
    with 1(2) have "c \<in> set (decimal (n div 10)) \<or> c = digit (n mod 10)" by (subst (asm) decimal.simps) auto
    then show ?thesis using 1(1) [OF False] by (auto simp: of_char_digit)
  qed
qed

lemma decimal_no_separator: "CHR ''/'' \<notin> set (decimal n)" "BACKSLASH \<notin> set (decimal n)"
  using decimal_digits [of _ n] by (force simp: BACKSLASH_def)+

lemma file_name_no_slash: "CHR ''/'' \<notin> set n \<Longrightarrow> CHR ''/'' \<notin> set (log_file_name n t)"
  using decimal_no_separator by (auto simp: log_file_name_def show_pad_def pad_left_def)

lemma dir_of_append:
  assumes "dir = [] \<or> last dir = CHR ''/''" and "CHR ''/'' \<notin> set n"
  shows "dir_of (dir @ n) = dir"
proof -
  have "dropWhile (\<lambda>c. c \<noteq> CHR ''/'') (rev n @ rev dir) = dropWhile (\<lambda>c. c \<noteq> CHR ''/'') (rev dir)"
    using assms(2) by (intro dropWhile_append2) auto
  moreover have "dropWhile (\<lambda>c. c \<noteq> CHR ''/'') (rev dir) = rev dir"
    using assms(1) by (cases dir rule: rev_cases) auto
  ultimately show ?thesis by (simp add: dir_of_def)
qed

text \<open>A logger whose files the system lets the program make, and of which none is old enough to be removed.\<close>

definition can_open :: "log_env \<Rightarrow> logger_info \<Rightarrow> tm \<Rightarrow> bool" where
  "can_open e lg t \<longleftrightarrow> env_ok e \<and> tm_ok t \<and> (\<forall>p. le_may_create e p) \<and> length (li_name lg) \<le> 86
     \<and> CHR ''/'' \<notin> set (li_name lg) \<and> li_path lg \<noteq> [] \<and> last (li_path lg) = CHR ''/'' \<and> BACKSLASH \<notin> set (li_path lg)
     \<and> (li_reservedays lg = 0 \<or> map_of (le_files e) (file_dir lg t @ log_file_name (li_name lg)
          (timeToTm e (le_time e - uint (li_reservedays lg * 86400) - 24 * 3600))) = None)"

definition log_path :: "logger_info \<Rightarrow> tm \<Rightarrow> string" where
  "log_path lg t = file_dir lg t @ log_file_name (li_name lg) t"

lemma file_dir_ends:
  assumes "can_open e lg t"
  shows "file_dir lg t \<noteq> []" "last (file_dir lg t) = CHR ''/''" "BACKSLASH \<notin> set (file_dir lg t)"
proof -
  show "file_dir lg t \<noteq> []" "last (file_dir lg t) = CHR ''/''"
    using assms by (auto simp: can_open_def file_dir_def)
  show "BACKSLASH \<notin> set (file_dir lg t)"
    using assms decimal_no_separator by (auto simp: can_open_def file_dir_def show_pad_def pad_left_def BACKSLASH_def)
qed

lemma clean_dir_makes:
  assumes "can_open e lg t"
  obtains ds where "clean_dir lg (file_dir lg t) e = Inr (e\<lparr>le_dirs := ds\<rparr>)"
    and "isDirectory (e\<lparr>le_dirs := ds\<rparr>) (file_dir lg t)"
proof -
  let ?d = "file_dir lg t"
  note d = file_dir_ends [OF assms]
  have "map (\<lambda>c. if c = BACKSLASH then CHR ''/'' else c) ?d = ?d" using d(3) by (intro map_idI) auto
  then have fp: "fixPath ?d = ?d" using d(1,2) by (simp add: fixPath_def Let_def)
  define e1 where "e1 = (if \<not> isDirectory e ?d then snd (createRecursionDir ?d e) else e)"
  obtain ds0 where "snd (make_dirs [] ?d e) = e\<lparr>le_dirs := ds0\<rparr>" using make_dirs_env by blast
  then have "e1 = e\<lparr>le_dirs := if isDirectory e ?d then le_dirs e else ds0\<rparr>"
    using d(1) fp by (simp add: e1_def createRecursionDir_def)
  then obtain ds where ds: "e1 = e\<lparr>le_dirs := ds\<rparr>" by blast
  have "isDirectory e1 ?d"
    using make_dirs_makes [of e ?d "[]"] assms d fp by (auto simp: e1_def createRecursionDir_def can_open_def)
  moreover have "clean_dir lg ?d e = Inr e1"
  proof (cases "li_reservedays lg = 0")
    case True
    then show ?thesis by (simp add: clean_dir_def Let_def e1_def)
  next
    case False
    let ?s = "le_time e - uint (li_reservedays lg * 86400) - 24 * 3600"
    have "remove_old ?d (li_name lg) ?s e1 = Inr e1"
      using assms False by (intro remove_old_first) (simp_all add: can_open_def ds env_ok_def timeToTm_def)
    moreover have "le_time e1 = le_time e" by (simp add: ds)
    ultimately show ?thesis using False unfolding clean_dir_def Let_def e1_def [symmetric] by simp
  qed
  ultimately show thesis using that ds by simp
qed

text \<open>The opening of a file that can be opened: what it holds is kept.\<close>

lemma open_file_opens:
  assumes "can_open (lm_env m) lg t" and "t = timeToTm (lm_env m) (ld_time l)"
  obtains e where "open_file l lg m = Inr (True, set_logger (ld_id l) (lg\<lparr>li_curFileCreateTime := ld_time l,
      li_curWriteLen := 0, li_handle := Some (log_path lg t)\<rparr>) (m\<lparr>lm_env := e\<rparr>))"
    and "map_of (le_files e) = (map_of (le_files (lm_env m)))(log_path lg t \<mapsto>
      (case map_of (le_files (lm_env m)) (log_path lg t) of None \<Rightarrow> [] | Some c \<Rightarrow> c))"
    and "le_space e = le_space (lm_env m)"
proof -
  let ?lg = "lg\<lparr>li_curFileCreateTime := ld_time l, li_curWriteLen := 0\<rparr>" and ?p = "log_path lg t"
  have same: "can_open (lm_env m) ?lg t" "file_dir ?lg t = file_dir lg t" "log_path ?lg t = ?p"
    using assms(1) by (simp_all add: can_open_def file_dir_def log_path_def)
  have ok: "tm_ok t" "length (li_name ?lg) \<le> 86" using assms(1) by (simp_all add: can_open_def)
  from clean_dir_makes [OF same(1)] obtain ds where cd: "clean_dir ?lg (file_dir lg t) (lm_env m) = Inr ((lm_env m)\<lparr>le_dirs := ds\<rparr>)"
    "isDirectory ((lm_env m)\<lparr>le_dirs := ds\<rparr>) (file_dir lg t)" unfolding same(2) by blast
  let ?e = "(lm_env m)\<lparr>le_dirs := ds\<rparr>"
  have "dir_of ?p = file_dir lg t" unfolding log_path_def
    using file_dir_ends [OF assms(1)] file_name_no_slash assms(1) by (intro dir_of_append) (auto simp: can_open_def)
  then have fo: "file_open ?p ?e = (Some ?p, snd (file_open ?p ?e))"
    using cd(2) assms(1) by (simp add: file_open_def can_open_def)
  have "open_file l lg m = Inr (open_path (ld_id l) ?lg ?p ?e m)"
    using log_dir_total [OF ok(1), of ?lg] cd(1) name_fits [OF ok] same
    by (simp add: open_file_def Let_def assms(2) [symmetric] log_path_def)
  also have "open_path (ld_id l) ?lg ?p ?e m
      = (True, set_logger (ld_id l) (?lg\<lparr>li_handle := Some ?p\<rparr>) (m\<lparr>lm_env := snd (file_open ?p ?e)\<rparr>))"
    unfolding open_path_def by (subst fo) simp
  finally have "open_file l lg m
      = Inr (True, set_logger (ld_id l) (?lg\<lparr>li_handle := Some ?p\<rparr>) (m\<lparr>lm_env := snd (file_open ?p ?e)\<rparr>))" .
  then show thesis
    by (rule that) (use fo in \<open>auto simp: file_open_def fun_eq_iff map_add_def split: if_splits option.splits\<close>)
qed

lemma logger_at_update:
  assumes "nat i < length (lm_loggers m)" and "0 \<le> i" and "0 \<le> j"
  shows "logger_at (update_logger i f m) j = (if j = i then f (logger_at m i) else logger_at m j)"
  using assms by (auto simp: logger_at_def update_logger_def nth_list_update)

lemma display_message_fields [simp]:
  "le_files (lm_env (display_message l m)) = le_files (lm_env m)"
  "le_space (lm_env (display_message l m)) = le_space (lm_env m)"
  "timeToTm (lm_env (display_message l m)) t = timeToTm (lm_env m) t"
  "isSameDay (lm_env (display_message l m)) a b = isSameDay (lm_env m) a b"
  "can_open (lm_env (display_message l m)) lg tt = can_open (lm_env m) lg tt"
  "logger_at (display_message l m) i = logger_at m i"
  "lm_lastId (display_message l m) = lm_lastId m" "lm_loggers (display_message l m) = lm_loggers m"
  by (simp_all add: display_message_def log_console_def showColorText_def can_open_def timeToTm_def isSameDay_def
      env_ok_def)

lemma map_of_append:
  "map_of (le_files (file_append p d e)) = (map_of (le_files e))(p := map_option (\<lambda>c. c @ d) (map_of (le_files e) p))"
proof -
  have "map_of (map (\<lambda>(q, c). if q = p then (q, c @ d) else (q, c)) xs)
      = (map_of xs)(p := map_option (\<lambda>c. c @ d) (map_of xs p))" for xs :: "(string \<times> string) list"
    by (induction xs) auto
  then show ?thesis by (simp add: file_append_def)
qed

text \<open>The conditions under which the current file of a logger is closed first.\<close>

definition new_file :: "log_data \<Rightarrow> log_manager \<Rightarrow> bool" where
  "new_file l m \<longleftrightarrow> (let lg = logger_at m (ld_id l)
     in \<not> isSameDay (lm_env m) (ld_time l) (li_curFileCreateTime lg) \<or> li_curWriteLen lg > li_limitsize lg * 1024 * 1024)"

text \<open>A message its logger writes to a file.\<close>

definition written_by :: "log_data \<Rightarrow> log_manager \<Rightarrow> logger_info \<Rightarrow> bool" where
  "written_by l m lg \<longleftrightarrow> 0 \<le> ld_id l \<and> ld_id l \<le> lm_lastId m \<and> lg = logger_at m (ld_id l)
     \<and> li_enable lg \<and> li_outfile lg \<and> li_level lg \<le> ld_level l"

lemma openLogger_opens:
  assumes "written_by l m lg" and "can_open (lm_env m) lg t" and "t = timeToTm (lm_env m) (ld_time l)"
    and "li_handle lg = None \<or> new_file l m"
  shows "\<exists>e n. openLogger l m = Inr (True, set_logger (ld_id l) (lg\<lparr>li_curFileIndex := n,
      li_curFileCreateTime := ld_time l, li_curWriteLen := 0, li_handle := Some (log_path lg t)\<rparr>) (m\<lparr>lm_env := e\<rparr>))
    \<and> map_of (le_files e) = (map_of (le_files (lm_env m)))(log_path lg t \<mapsto>
      (case map_of (le_files (lm_env m)) (log_path lg t) of None \<Rightarrow> [] | Some c \<Rightarrow> c))
    \<and> le_space e = le_space (lm_env m)
    \<and> (new_file l m \<and> isSameDay (lm_env m) (ld_time l) (li_curFileCreateTime lg) \<longrightarrow> n = li_curFileIndex lg + 1)"
proof -
  define n where "n = (if \<not> new_file l m then li_curFileIndex lg
    else if \<not> isSameDay (lm_env m) (ld_time l) (li_curFileCreateTime lg) then 0 else li_curFileIndex lg + 1)"
  let ?lg = "lg\<lparr>li_curFileIndex := n, li_handle := None\<rparr>"
  have closed: "li_handle x = None \<Longrightarrow> x\<lparr>li_handle := None\<rparr> = x" for x :: logger_info by (cases x) simp
  have "openLogger l m = open_file l ?lg m"
    using assms(1,4) by (auto simp: openLogger_def written_by_def new_file_def Let_def n_def closed)
  moreover have "can_open (lm_env m) ?lg t" "log_path ?lg t = log_path lg t"
    using assms(2) by (simp_all add: can_open_def file_dir_def log_path_def)
  ultimately obtain e where "openLogger l m = Inr (True, set_logger (ld_id l) (?lg\<lparr>li_curFileCreateTime := ld_time l,
      li_curWriteLen := 0, li_handle := Some (log_path lg t)\<rparr>) (m\<lparr>lm_env := e\<rparr>))"
    "map_of (le_files e) = (map_of (le_files (lm_env m)))(log_path lg t \<mapsto>
      (case map_of (le_files (lm_env m)) (log_path lg t) of None \<Rightarrow> [] | Some c \<Rightarrow> c))" "le_space e = le_space (lm_env m)"
    using open_file_opens [of m ?lg t l] assms(3) by auto
  then show ?thesis by (intro exI [of _ e] exI [of _ n]) (simp add: n_def)
qed

text \<open>The writing itself, once the handler is open.\<close>

lemma write_out_appends:
  assumes "manager_inv m" and "0 \<le> ld_id l" and "ld_id l \<le> lm_lastId m"
    and "li_handle (logger_at m (ld_id l)) = Some p" and "holds l" and "0 < ld_contentLen l"
    and "nat (ld_contentLen l) \<le> le_space (lm_env m)"
  shows "map_of (le_files (lm_env (snd (write_out l th m))))
      = (map_of (le_files (lm_env m)))(p := map_option (\<lambda>c. c @ message_text l) (map_of (le_files (lm_env m)) p))"
    and "li_handle (logger_at (snd (write_out l th m)) (ld_id l)) = Some p"
    and "li_curWriteLen (logger_at (snd (write_out l th m)) (ld_id l))
      = li_curWriteLen (logger_at m (ld_id l)) + of_int (ld_contentLen l)"
    and "li_curFileIndex (logger_at (snd (write_out l th m)) (ld_id l)) = li_curFileIndex (logger_at m (ld_id l))"
proof -
  have len: "length (message_text l) = nat (ld_contentLen l)" by (rule length_message_text [OF assms(5)])
  define e where "e = (file_append p (message_text l) (lm_env m))\<lparr>le_space := le_space (lm_env m) - length (message_text l)\<rparr>"
  have fw: "file_write (message_text l) (Some p) (lm_env m) = (Some p, e)"
    using len assms(6,7) by (simp add: file_write_def e_def Let_def)
  define m1 where "m1 = set_logger (ld_id l) ((logger_at m (ld_id l))\<lparr>li_handle := Some p\<rparr>) (m\<lparr>lm_env := e\<rparr>)"
  have wm: "write_message l m = m1"
    using fw assms(4) by (simp add: write_message_def message_text_def [symmetric] m1_def Let_def)
  have rng: "nat (ld_id l) < length (lm_loggers m)" by (rule logger_in_range [OF assms(1-3)])
  then have at1: "logger_at m1 (ld_id l) = (logger_at m (ld_id l))\<lparr>li_handle := Some p\<rparr>"
    using assms(2) by (simp add: m1_def set_logger_def logger_at_update)
  have rng1: "nat (ld_id l) < length (lm_loggers m1)" using rng by (simp add: m1_def set_logger_def update_logger_def)
  have env1: "lm_env m1 = e" by (simp add: m1_def set_logger_def update_logger_def)
  let ?m2 = "snd (write_out l th m)"
  have m2: "lm_env ?m2 = e" by (simp add: write_out_def wm count_written_def update_logger_def env1)
  have "logger_at ?m2 (ld_id l) = (logger_at m1 (ld_id l))
      \<lparr>li_curWriteLen := li_curWriteLen (logger_at m1 (ld_id l)) + of_int (ld_contentLen l)\<rparr>"
    using rng1 assms(2) by (simp add: write_out_def wm logger_at_update)
  then show "li_handle (logger_at ?m2 (ld_id l)) = Some p"
    "li_curWriteLen (logger_at ?m2 (ld_id l)) = li_curWriteLen (logger_at m (ld_id l)) + of_int (ld_contentLen l)"
    "li_curFileIndex (logger_at ?m2 (ld_id l)) = li_curFileIndex (logger_at m (ld_id l))"
    by (simp_all add: at1)
  show "map_of (le_files (lm_env ?m2))
      = (map_of (le_files (lm_env m)))(p := map_option (\<lambda>c. c @ message_text l) (map_of (le_files (lm_env m)) p))"
    by (simp add: m2 e_def map_of_append)
qed


end
