(* ===== verification/Log_Lifecycle.thy ===== *)
theory Log_Lifecycle
  imports Log_Thread_Properties
begin

text \<open>
  The end of the logger's thread, what the limits of files come to, and the concrete runs that show
  that the properties of the logger apply.
\<close>

section \<open>The end of the thread\<close>

lemma flush_loggers_fields:
  "lm_logs (snd (flush_loggers is th m)) = lm_logs m \<and> lm_runing (snd (flush_loggers is th m)) = lm_runing m
    \<and> lm_lastId (snd (flush_loggers is th m)) = lm_lastId m"
  by (induction "is" arbitrary: th m) (simp_all add: Let_def update_logger_def)

definition closed_at :: "log_manager \<Rightarrow> int \<Rightarrow> bool" where
  "closed_at m i \<longleftrightarrow> (\<not> li_enable (logger_at m i) \<longrightarrow> li_handle (logger_at m i) = None)"

lemma flush_loggers_closes:
  assumes "manager_inv m" and "set is \<subseteq> {0..lm_lastId m}" and "j \<in> set is \<or> closed_at m j" and "0 \<le> j"
  shows "closed_at (snd (flush_loggers is th m)) j"
  using assms
proof (induction "is" arbitrary: th m)
  case (Cons i "is")
  let ?c = "\<not> li_enable (logger_at m i) \<and> li_handle (logger_at m i) \<noteq> None"
  define m1 where "m1 = (if ?c then update_logger i (\<lambda>lg. lg\<lparr>li_handle := None\<rparr>) m else m)"
  have i: "0 \<le> i" "i \<le> lm_lastId m" using Cons.prems(2) by simp_all
  have inv: "manager_inv m1" using same_table_inv [OF update_logger_table] Cons.prems(1) by (simp add: m1_def)
  have last: "lm_lastId m1 = lm_lastId m" by (simp add: m1_def update_logger_def)
  have upd: "logger_at (update_logger i f m) k = (if k = i then f (logger_at m i) else logger_at m k)" if "0 \<le> k" for k f
    by (rule logger_at_update [OF logger_in_range(1) [OF Cons.prems(1) i] i(1) that])
  have at: "logger_at m1 k = (if k = i \<and> ?c then (logger_at m i)\<lparr>li_handle := None\<rparr> else logger_at m k)" if "0 \<le> k" for k
  proof (cases ?c)
    case True
    then show ?thesis by (simp only: m1_def if_True upd [OF that] simp_thms)
  next
    case False
    then show ?thesis by (simp only: m1_def if_False simp_thms)
  qed
  have "j \<in> set is \<or> closed_at m1 j"
    using Cons.prems(3,4) at [of j] by (auto simp: closed_at_def)
  moreover have "set is \<subseteq> {0..lm_lastId m1}" using Cons.prems(2) last by simp
  ultimately have "closed_at (snd (flush_loggers is th' m1)) j" for th' using Cons.IH inv Cons.prems(4) by blast
  then show ?case by (simp add: Let_def m1_def)
qed simp

lemma closeLogger_at:
  assumes "0 \<le> i" and "i \<le> lm_lastId m" and "nat i < length (lm_loggers m)" and "0 \<le> j"
  shows "logger_at (snd (closeLogger i m)) j = (if j = i then (logger_at m i)\<lparr>li_handle := None\<rparr> else logger_at m j)"
proof (cases "li_handle (logger_at m i) = None")
  case True
  moreover have "x\<lparr>li_handle := None\<rparr> = x" if "li_handle x = None" for x :: logger_info using that by (cases x) simp
  ultimately show ?thesis using assms(1,2) by (simp add: closeLogger_def)
next
  case False
  then show ?thesis using assms(1,2) logger_at_update [OF assms(3,1,4)] by (simp add: closeLogger_def)
qed

definition quiet_at :: "log_manager \<Rightarrow> int \<Rightarrow> bool" where
  "quiet_at m i \<longleftrightarrow> \<not> li_enable (logger_at m i) \<and> li_handle (logger_at m i) = None"

lemma run_end_quiet:
  assumes "manager_inv m" and "set is \<subseteq> {0..lm_lastId m}" and "\<And>i. i \<in> set is \<Longrightarrow> closed_at m i"
    and "j \<in> set is \<or> quiet_at m j" and "0 \<le> j"
  shows "quiet_at (run_end is m) j"
  using assms
proof (induction "is" arbitrary: m)
  case (Cons i "is")
  define m1 where "m1 = (if li_enable (logger_at m i)
    then snd (closeLogger i (update_logger i (\<lambda>lg. lg\<lparr>li_enable := False\<rparr>) m)) else m)"
  have i: "0 \<le> i" "i \<le> lm_lastId m" using Cons.prems(2) by simp_all
  note rng = logger_in_range(1) [OF Cons.prems(1) i]
  let ?m = "update_logger i (\<lambda>lg. lg\<lparr>li_enable := False\<rparr>) m"
  have len: "lm_lastId ?m = lm_lastId m" "length (lm_loggers ?m) = length (lm_loggers m)"
    by (simp_all add: update_logger_def)
  have table: "same_table m m1"
    using same_table_trans [OF update_logger_table closeLogger_table] by (simp add: m1_def)
  have inv: "manager_inv m1" by (rule same_table_inv [OF table Cons.prems(1)])
  have last: "lm_lastId m1 = lm_lastId m" using table by (simp add: same_table_def)
  have at: "logger_at m1 k = (if k = i \<and> li_enable (logger_at m i)
      then (logger_at m i)\<lparr>li_enable := False, li_handle := None\<rparr> else logger_at m k)" if "0 \<le> k" for k
  proof -
    have e: "logger_at ?m j = (if j = i then (logger_at m i)\<lparr>li_enable := False\<rparr> else logger_at m j)" if "0 \<le> j" for j
      by (rule logger_at_update [OF rng i(1) that])
    have "nat i < length (lm_loggers ?m)" using rng len(2) by simp
    then have e2: "logger_at (snd (closeLogger i ?m)) j
        = (if j = i then (logger_at ?m i)\<lparr>li_handle := None\<rparr> else logger_at ?m j)" if "0 \<le> j" for j
      using closeLogger_at [of i ?m j] i len(1) that by simp
    show ?thesis
    proof (cases "li_enable (logger_at m i)")
      case True
      then show ?thesis by (simp add: m1_def e2 [OF that] e [OF that] e [OF i(1)])
    next
      case False
      then show ?thesis by (simp add: m1_def)
    qed
  qed
  have "closed_at m1 k" if "k \<in> set is" for k
  proof -
    have "0 \<le> k" using Cons.prems(2) that by auto
    then show ?thesis using Cons.prems(3) [of k] that at [of k] by (auto simp: closed_at_def)
  qed
  moreover have "j \<in> set is \<or> quiet_at m1 j"
    using Cons.prems(3) [of i] Cons.prems(4,5) at [of j] by (auto simp: quiet_at_def closed_at_def)
  moreover have "set is \<subseteq> {0..lm_lastId m1}" using Cons.prems(2) last by simp
  ultimately have "quiet_at (run_end is m1) j" using Cons.IH inv Cons.prems(5) by blast
  then show ?case by (simp add: m1_def)
qed simp

text \<open>C39. Stopping. After \<open>stop\<close> no message is taken any more, and the thread ends by itself: one pass
  handles every message of the queue, the test after it leaves the loop, and at the end every logger
  is disabled and its file closed.\<close>

theorem log_stop_drains:
  fixes m :: log_manager and th :: log_thread
  assumes "thread_ok m" and "lm_runing m"
  defines "m1 \<equiv> snd (log_stop m)"
  shows "\<exists>th' m2. run_pass th m1 = Inr (th', m2) \<and> lm_logs m2 = [] \<and> run_check th' m2 = (None, m2)
    \<and> (\<forall>i. 0 \<le> i \<and> i \<le> lm_lastId m \<longrightarrow>
        \<not> li_enable (logger_at (run_end [0..lm_lastId m2] m2) i) \<and> li_handle (logger_at (run_end [0..lm_lastId m2] m2) i) = None)
    \<and> (\<forall>l f line. pushLog l f line m1 = Inr (False, freeLogData l m1))"
proof -
  have m1: "m1 = (log_console (''log4z stopping '' @ [CR, LF]) LOG_LEVEL_FATAL m)\<lparr>lm_runing := False\<rparr>"
    using assms(2) by (simp add: m1_def log_stop_def)
  have "thread_ok (log_console (''log4z stopping '' @ [CR, LF]) LOG_LEVEL_FATAL m)"
    using assms(1) keeps_fields(1) by (simp add: keeps_def)
  then have ok: "thread_ok m1" "\<not> lm_runing m1" "lm_lastId m1 = lm_lastId m"
    using same_table_inv [OF other_fields_table(3)] by (auto simp: m1 thread_ok_def)
  from drain_logs_total [OF ok(1) refl, of th] obtain th1 m0 where d: "drain_logs (length (lm_logs m1)) th m1 = Inr (th1, m0)"
    "thread_ok m0" "lm_logs m0 = []" "lm_runing m0 = lm_runing m1" "lm_lastId m0 = lm_lastId m1" by blast
  let ?r = "flush_loggers [0..lm_lastId m0] th1 m0"
  note ff = flush_loggers_fields [of "[0..lm_lastId m0]" th1 m0]
  have inv0: "manager_inv m0" using d(2) by (simp add: thread_ok_def)
  then have inv: "manager_inv (snd ?r)" by (rule same_table_inv [OF flush_loggers_table])
  have "closed_at (snd ?r) i" if "i \<in> set [0..lm_lastId m0]" for i
    using flush_loggers_closes [OF inv0, of "[0..lm_lastId m0]" i] that by simp
  then have quiet: "quiet_at (run_end [0..lm_lastId (snd ?r)] (snd ?r)) i" if "0 \<le> i" "i \<le> lm_lastId m" for i
    using run_end_quiet [OF inv, of "[0..lm_lastId m0]" i] that ff d(5) ok(3) by simp
  have "run_pass th m1 = Inr (fst ?r, snd ?r)" using d(1) by (simp add: run_pass_def)
  moreover have "run_check (fst ?r) (snd ?r) = (None, snd ?r)" using ff d(3,4) ok(2) by (simp add: run_check_def)
  moreover have "pushLog l f line m1 = Inr (False, freeLogData l m1)" for l f line
    using ok(2) by (simp add: pushLog_def)
  moreover have "lm_lastId (snd ?r) = lm_lastId m" using ff d(5) ok(3) by simp
  ultimately show ?thesis
    using quiet ff d(3) by (intro exI [of _ "fst ?r"] exI [of _ "snd ?r"]) (simp add: quiet_at_def)
qed

section \<open>Limits\<close>

lemma remove_old_error: "remove_old path n s e = Inl err \<Longrightarrow> err = OutOfBounds"
proof (induction path n s e rule: remove_old.induct)
  case (1 path n s e)
  from 1(2) show ?case
  proof (subst (asm) remove_old.simps, cases "sprintf 260 (log_file_name n (timeToTm e s))")
    case (Inl a)
    moreover assume "(case sprintf 260 (log_file_name n (timeToTm e s)) of Inl err \<Rightarrow> Inl err
      | Inr buf \<Rightarrow> if fst (file_remove (path @ buf) e)
          then remove_old path n (s - 24 * 3600) (snd (file_remove (path @ buf) e)) else Inr e) = Inl err"
    ultimately show ?thesis by (simp add: sprintf_def split: if_splits)
  next
    case (Inr b)
    moreover assume "(case sprintf 260 (log_file_name n (timeToTm e s)) of Inl err \<Rightarrow> Inl err
      | Inr buf \<Rightarrow> if fst (file_remove (path @ buf) e)
          then remove_old path n (s - 24 * 3600) (snd (file_remove (path @ buf) e)) else Inr e) = Inl err"
    ultimately show ?thesis using 1(1) by (auto split: if_splits)
  qed
qed

text \<open>C40. The limits of a file. When the limit of its size is exceeded within a day, the file is closed
  and the file that is opened instead is the same one, so it goes on growing; only the counters start
  again. And a logger whose name has more than 86 characters, which is accepted, makes the thread
  write outside the buffer for the name of the file.\<close>

theorem log_file_limits:
  fixes m :: log_manager and l :: log_data and lg :: logger_info and t :: tm
  assumes "thread_ok m" and "written_by l m lg" and "t = timeToTm (lm_env m) (ld_time l)"
  shows "(can_open (lm_env m) lg t \<and> li_handle lg = Some (log_path lg t)
      \<and> isSameDay (lm_env m) (ld_time l) (li_curFileCreateTime lg) \<and> li_curWriteLen lg > li_limitsize lg * 1024 * 1024 \<longrightarrow>
      (\<exists>m'. openLogger l m = Inr (True, m') \<and> li_handle (logger_at m' (ld_id l)) = li_handle lg
        \<and> li_curWriteLen (logger_at m' (ld_id l)) = 0 \<and> li_curFileIndex (logger_at m' (ld_id l)) = li_curFileIndex lg + 1
        \<and> (\<forall>c. map_of (le_files (lm_env m)) (log_path lg t) = Some c \<longrightarrow>
            map_of (le_files (lm_env m')) (log_path lg t) = Some c)))
    \<and> (86 < length n \<and> length n < LOG4Z_LOG_BUF_SIZE \<and> \<not> lm_runing m \<longrightarrow>
      fst (setLoggerName (ld_id l) (Some n) m)
      \<and> (li_handle lg = None \<longrightarrow> openLogger l (snd (setLoggerName (ld_id l) (Some n) m)) = Inl OutOfBounds))"
proof (intro conjI impI; (elim conjE)?)
  have id: "0 \<le> ld_id l" "ld_id l \<le> lm_lastId m" using assms(2) by (simp_all add: written_by_def)
  have rng: "nat (ld_id l) < length (lm_loggers m)"
    using logger_in_range(1) id assms(1) by (simp add: thread_ok_def)
  { assume o: "can_open (lm_env m) lg t" "li_handle lg = Some (log_path lg t)"
      "isSameDay (lm_env m) (ld_time l) (li_curFileCreateTime lg)" "li_curWriteLen lg > li_limitsize lg * 1024 * 1024"
    have nf: "new_file l m" using o(4) assms(2) by (simp add: new_file_def written_by_def Let_def)
    obtain e k where
      op: "openLogger l m = Inr (True, set_logger (ld_id l) (lg\<lparr>li_curFileIndex := k,
        li_curFileCreateTime := ld_time l, li_curWriteLen := 0, li_handle := Some (log_path lg t)\<rparr>) (m\<lparr>lm_env := e\<rparr>))"
      and fs: "map_of (le_files e) = (map_of (le_files (lm_env m)))(log_path lg t \<mapsto>
        (case map_of (le_files (lm_env m)) (log_path lg t) of None \<Rightarrow> [] | Some c \<Rightarrow> c))"
      and k: "k = li_curFileIndex lg + 1"
      using openLogger_opens [OF assms(2) o(1) assms(3) disjI2 [OF nf]] nf o(3) by blast
    let ?m' = "set_logger (ld_id l) (lg\<lparr>li_curFileIndex := k,
        li_curFileCreateTime := ld_time l, li_curWriteLen := 0, li_handle := Some (log_path lg t)\<rparr>) (m\<lparr>lm_env := e\<rparr>)"
    have at: "logger_at ?m' (ld_id l) = lg\<lparr>li_curFileIndex := k, li_curFileCreateTime := ld_time l, li_curWriteLen := 0,
        li_handle := Some (log_path lg t)\<rparr>"
      using rng id(1) by (simp add: set_logger_def logger_at_update)
    have env: "lm_env ?m' = e" by (simp add: set_logger_def update_logger_def)
    show "\<exists>m'. openLogger l m = Inr (True, m') \<and> li_handle (logger_at m' (ld_id l)) = li_handle lg
        \<and> li_curWriteLen (logger_at m' (ld_id l)) = 0 \<and> li_curFileIndex (logger_at m' (ld_id l)) = li_curFileIndex lg + 1
        \<and> (\<forall>c. map_of (le_files (lm_env m)) (log_path lg t) = Some c \<longrightarrow>
            map_of (le_files (lm_env m')) (log_path lg t) = Some c)"
      using op at env fs k o(2) by (intro exI [of _ ?m']) simp }
  { assume n: "86 < length n" "length n < LOG4Z_LOG_BUF_SIZE" "\<not> lm_runing m"
    let ?m = "snd (setLoggerName (ld_id l) (Some n) m)"
    have set: "setLoggerName (ld_id l) (Some n) m = (True, update_logger (ld_id l) (\<lambda>lg. lg\<lparr>li_name := n\<rparr>) m)"
      using n id by (auto simp: setLoggerName_def hotChange_def onHotChange_def LOG4Z_MAIN_LOGGER_ID_def)
    then show "fst (setLoggerName (ld_id l) (Some n) m)" by simp
    assume h: "li_handle lg = None"
    have at: "logger_at ?m (ld_id l) = lg\<lparr>li_name := n\<rparr>"
      using set rng id(1) assms(2) by (simp add: logger_at_update written_by_def)
    have fld: "lm_env ?m = lm_env m" "lm_lastId ?m = lm_lastId m" using set by (simp_all add: update_logger_def)
    have t: "tm_ok t" using assms(1,3) by (simp add: thread_ok_def env_okD)
    have over: "open_file l lg' ?m = Inl OutOfBounds" if "li_name lg' = n" for lg'
    proof -
      have "sprintf 100 (log_file_name n t) = Inl OutOfBounds"
        using n(1) log_file_name_length [OF t] by (simp add: sprintf_def)
      moreover have "clean_dir lg'' p e = Inl err \<Longrightarrow> err = OutOfBounds" for lg'' p e err
        by (auto simp: clean_dir_def Let_def remove_old_error split: if_splits)
      ultimately show ?thesis
        using log_dir_total [OF t] that assms(3) fld(1)
        by (cases "clean_dir (lg'\<lparr>li_curFileCreateTime := ld_time l, li_curWriteLen := 0\<rparr>)
              (file_dir (lg'\<lparr>li_curFileCreateTime := ld_time l, li_curWriteLen := 0\<rparr>) t) (lm_env m)")
          (auto simp: open_file_def Let_def)
    qed
    show "openLogger l ?m = Inl OutOfBounds"
      using at fld id h assms(2) over by (auto simp: openLogger_def written_by_def Let_def) }
qed

section \<open>Runs\<close>

text \<open>An afternoon on an empty disk, where everything can be made, and the logger at work on it.\<close>

definition some_day :: tm where
  "some_day = \<lparr>tm_year = 116, tm_mon = 2, tm_mday = 14, tm_hour = 15, tm_min = 9, tm_sec = 26, tm_yday = 73\<rparr>"

definition week_ago :: tm where
  "week_ago = some_day\<lparr>tm_mday := 6, tm_yday := 65\<rparr>"

definition empty_disk :: log_env where
  "empty_disk = \<lparr>le_time = 1457968166, le_usec = 535000, le_localtime = (\<lambda>t. if t < 1457913600 then week_ago else some_day), le_dirs = {''.''},
     le_may_create = (\<lambda>_. True), le_files = [], le_space = 1000, le_pid = 4711, le_console = []\<rparr>"

definition at_work :: log_manager where
  "at_work = (LogerManager_new empty_disk)\<lparr>lm_runing := True\<rparr>"

definition hello :: log_data where
  "hello = LogData_new\<lparr>ld_level := LOG_LEVEL_WARN, ld_time := 1457968166, ld_contentLen := 5,
     ld_content := store ''hello'' (replicate LOG4Z_LOG_BUF_SIZE NUL)\<rparr>"

lemma hello_fields:
  "holds hello" "message_text hello = ''hello''" "ld_id hello = 0" "ld_type hello = LDT_GENERAL"
  "ld_contentLen hello = 5" "ld_level hello = LOG_LEVEL_WARN" "ld_time hello = 1457968166"
  by (simp_all add: holds_def message_text_def hello_def store_def LogData_new_def)
    (simp_all add: LOG4Z_LOG_BUF_SIZE_def)

lemma at_work_logger:
  "logger_at at_work 0 = LoggerInfo_new\<lparr>li_enable := True, li_key := ''Main'', li_name := ''Main''\<rparr>"
  by (simp add: at_work_def LogerManager_new_def update_logger_def logger_at_def LOG4Z_MAIN_LOGGER_ID_def
      LOG4Z_LOGGER_MAX_def LOG4Z_MAIN_LOGGER_KEY_def)

lemma at_work_fields:
  "lm_env at_work = empty_disk" "lm_runing at_work" "lm_lastId at_work = 0" "lm_logs at_work = []"
  "lm_freeLogDatas at_work = []" "length (lm_loggers at_work) = 20"
  by (simp_all add: at_work_def LogerManager_new_def update_logger_def LOG4Z_MAIN_LOGGER_ID_def LOG4Z_LOGGER_MAX_def)

lemma some_day_ok: "tm_ok some_day" "env_ok empty_disk"
  by (simp_all add: tm_ok_def env_ok_def some_day_def week_ago_def empty_disk_def)

lemma names_of_days:
  "log_file_name ''Main'' some_day = ''Main_20160314.log''" "log_file_name ''Main'' week_ago = ''Main_20160306.log''"
  by code_simp+

lemma at_work_ok: "thread_ok at_work"
proof -
  have "manager_inv at_work" using new_manager_inv [of empty_disk] by (simp add: at_work_def manager_inv_def logger_at_def)
  moreover have "length (li_name lg) \<le> 86" if "lg \<in> set (lm_loggers at_work)" for lg
    using that by (auto simp: at_work_def LogerManager_new_def update_logger_def LoggerInfo_new_def
        LOG4Z_MAIN_LOGGER_KEY_def dest!: subsetD [OF set_update_subset_insert])
  ultimately show ?thesis by (simp add: thread_ok_def at_work_fields some_day_ok)
qed

lemma at_work_can_open: "can_open empty_disk (logger_at at_work 0) some_day"
  by (simp add: can_open_def at_work_logger LoggerInfo_new_def some_day_ok BACKSLASH_def)
    (simp add: empty_disk_def)

lemma hello_written: "written_by hello at_work (logger_at at_work 0)"
  by (simp add: written_by_def hello_fields at_work_fields at_work_logger LoggerInfo_new_def
      LOG_LEVEL_WARN_def LOG_LEVEL_DEBUG_def)

theorem log_message_composed_witness:
  "\<exists>m' l. LOG_STREAM 0 LOG_LEVEL_WARN ''src/a.cpp'' 7 [VCString ''on '', VBool True] at_work = Inr m' \<and> lm_logs m' = [l]
    \<and> (\<exists>t. message_text l = t @ [CR, LF])"
proof -
  have "buffers_ok at_work" by (simp add: buffers_ok_def at_work_fields)
  moreover have "env_ok (lm_env at_work)" by (simp add: at_work_fields some_day_ok)
  moreover have "prePushLog 0 LOG_LEVEL_WARN at_work"
    by (simp add: prePushLog_def at_work_fields at_work_logger LoggerInfo_new_def LOG_LEVEL_WARN_def LOG_LEVEL_DEBUG_def)
  ultimately show ?thesis
    using log_message_composed [where m = at_work and i = 0 and level = LOG_LEVEL_WARN and line = 7 and f = "''src/a.cpp''" and vs = "[VCString ''on '', VBool True]"]
    by (auto simp: at_work_fields LOG_LEVEL_WARN_def)
qed


theorem log_stop_drains_witness:
  "\<exists>th m. run_pass no_thread (snd (log_stop (at_work\<lparr>lm_logs := [hello]\<rparr>))) = Inr (th, m) \<and> lm_logs m = []
    \<and> run_check th m = (None, m)"
proof -
  have "thread_ok (at_work\<lparr>lm_logs := [hello]\<rparr>)"
    using at_work_ok by (simp add: thread_ok_def manager_inv_def logger_at_def hello_fields)
  from log_stop_drains [OF this, of no_thread] show ?thesis by (auto simp: at_work_fields)
qed

text \<open>A file that is past its limit, and a name that is too long.\<close>

definition full_disk :: log_env where
  "full_disk = empty_disk\<lparr>le_files := [(log_path (logger_at at_work 0) some_day, ''old'')]\<rparr>"

definition full_file :: log_manager where
  "full_file = update_logger 0 (\<lambda>lg. lg\<lparr>li_curFileCreateTime := 1457968166,
     li_handle := Some (log_path (logger_at at_work 0) some_day), li_curWriteLen := 104857601\<rparr>) (at_work\<lparr>lm_env := full_disk\<rparr>)"

lemma full_file_logger: "logger_at full_file 0 = (logger_at at_work 0)\<lparr>li_curFileCreateTime := 1457968166,
    li_handle := Some (log_path (logger_at at_work 0) some_day), li_curWriteLen := 104857601\<rparr>"
  by (simp add: full_file_def logger_at_update at_work_fields logger_at_def update_logger_def)

lemma full_file_fields:
  "lm_env full_file = full_disk" "lm_lastId full_file = 0" "lm_logs full_file = []" "length (lm_loggers full_file) = 20"
  by (simp_all add: full_file_def update_logger_def at_work_fields)

lemma full_file_ok: "thread_ok full_file"
proof -
  let ?m = "at_work\<lparr>lm_env := full_disk\<rparr>"
  have "thread_ok ?m"
    using at_work_ok by (simp add: thread_ok_def manager_inv_def logger_at_def env_ok_def at_work_fields full_disk_def)
  moreover have "keeps ?m full_file" unfolding full_file_def by (rule keeps_update) (simp_all add: at_work_fields)
  ultimately show ?thesis by (simp add: keeps_def)
qed

theorem log_file_limits_witness:
  "(\<exists>m. openLogger hello full_file = Inr (True, m) \<and> li_curWriteLen (logger_at m 0) = 0
      \<and> map_of (le_files (lm_env m)) (log_path (logger_at at_work 0) some_day) = Some ''old'')
    \<and> openLogger hello (snd (setLoggerName 0 (Some (replicate 87 (CHR ''n''))) (at_work\<lparr>lm_runing := False\<rparr>)))
        = Inl OutOfBounds"
proof
  let ?lg = "logger_at full_file 0" and ?p = "log_path (logger_at at_work 0) some_day"
  have path: "log_path ?lg some_day = ?p" by (simp add: full_file_logger log_path_def file_dir_def)
  have p: "?p = ''./log/Main_20160314.log''"
    by (simp add: log_path_def file_dir_def at_work_logger LoggerInfo_new_def names_of_days)
  have w: "written_by hello full_file ?lg"
    using hello_written by (simp add: written_by_def hello_fields full_file_fields at_work_fields full_file_logger)
  have t: "some_day = timeToTm (lm_env full_file) (ld_time hello)"
    by (simp add: timeToTm_def full_file_fields full_disk_def empty_disk_def hello_fields)
  have o: "can_open (lm_env full_file) ?lg some_day"
    using at_work_can_open p
    by (simp add: can_open_def full_file_fields full_file_logger full_disk_def env_ok_def file_dir_def)
      (simp add: at_work_logger LoggerInfo_new_def empty_disk_def timeToTm_def names_of_days)
  have "isSameDay (lm_env full_file) (ld_time hello) (li_curFileCreateTime ?lg)"
    by (simp add: isSameDay_def timeToTm_def full_file_logger hello_fields)
  moreover have "li_curWriteLen ?lg > li_limitsize ?lg * 1024 * 1024"
    by (simp add: full_file_logger at_work_logger LoggerInfo_new_def)
  moreover have "map_of (le_files (lm_env full_file)) (log_path ?lg some_day) = Some ''old''"
    by (simp add: full_file_fields full_disk_def path)
  moreover have "li_handle ?lg = Some (log_path ?lg some_day)" by (simp add: path) (simp add: full_file_logger)
  ultimately show "\<exists>m. openLogger hello full_file = Inr (True, m) \<and> li_curWriteLen (logger_at m 0) = 0
      \<and> map_of (le_files (lm_env m)) ?p = Some ''old''"
    using log_file_limits [OF full_file_ok w t, THEN conjunct1] o path by (auto simp: hello_fields)
next
  let ?m = "at_work\<lparr>lm_runing := False\<rparr>"
  have "thread_ok ?m" using at_work_ok by (simp add: thread_ok_def manager_inv_def logger_at_def)
  moreover have "written_by hello ?m (logger_at at_work 0)"
    using hello_written by (simp add: written_by_def logger_at_def hello_fields at_work_fields)
  moreover have "some_day = timeToTm (lm_env ?m) (ld_time hello)" by (simp add: timeToTm_def at_work_fields empty_disk_def hello_fields)
  ultimately show "openLogger hello (snd (setLoggerName 0 (Some (replicate 87 (CHR ''n''))) ?m)) = Inl OutOfBounds"
    using log_file_limits [of ?m hello "logger_at at_work 0" some_day "replicate 87 (CHR ''n'')"]
    by (simp add: LOG4Z_LOG_BUF_SIZE_def hello_fields at_work_logger LoggerInfo_new_def)
qed

end
