(* ===== verification/Log_Locks.thy ===== *)
theory Log_Locks
  imports Log_Output "HOL-Library.Multiset"
begin

text \<open>
  The mutexes of the logger (\<open>LockHelper\<close>, \<open>AutoLock\<close> of \<open>log4z.cpp\<close>), and the threads that pass the
  buffers of messages to each other under \<open>_logLock\<close>: \<open>makeLogData\<close>, \<open>pushLog\<close>, \<open>popLog\<close> and \<open>freeLogData\<close>,
  statement by statement. \<open>Log_Manager\<close> and \<open>Log_Output\<close> have these operations as single steps on
  messages; here a message buffer (a \<open>LogData *\<close>) is a number, what is in it does not matter, and any
  number of threads may be anywhere in the four functions.

  A thread that finds a mutex taken cannot go on. Every access to one of the two containers is a step;
  taking an element from an empty one is undefined in C++ and a fault here.
\<close>

section \<open>Mutexes\<close>

text \<open>A recursive mutex: its owner and how often it has locked it.\<close>

record lock_helper =
  lk_owner :: "nat option"
  lk_depth :: nat

definition LockHelper_new :: lock_helper where
  "LockHelper_new = \<lparr>lk_owner = None, lk_depth = 0\<rparr>"

definition LockHelper_lock :: "nat \<Rightarrow> lock_helper \<Rightarrow> lock_helper option" where
  "LockHelper_lock self lk =
     (case lk_owner lk of
        None \<Rightarrow> Some \<lparr>lk_owner = Some self, lk_depth = 1\<rparr>
      | Some u \<Rightarrow> if u = self then Some (lk\<lparr>lk_depth := lk_depth lk + 1\<rparr>) else None)"

definition LockHelper_unLock :: "nat \<Rightarrow> lock_helper \<Rightarrow> lock_helper" where
  "LockHelper_unLock self lk =
     (if lk_owner lk \<noteq> Some self then lk
      else if lk_depth lk > 1 then lk\<lparr>lk_depth := lk_depth lk - 1\<rparr>
      else \<lparr>lk_owner = None, lk_depth = 0\<rparr>)"

definition AutoLock_new :: "nat \<Rightarrow> lock_helper \<Rightarrow> lock_helper option" where
  "AutoLock_new self lk = LockHelper_lock self lk"

definition AutoLock_destroy :: "nat \<Rightarrow> lock_helper \<Rightarrow> lock_helper" where
  "AutoLock_destroy self lk = LockHelper_unLock self lk"

text \<open>Locking and unlocking as often leaves a mutex as it was, and meanwhile nobody else gets it.\<close>

fun lock_times :: "nat \<Rightarrow> nat \<Rightarrow> lock_helper \<Rightarrow> lock_helper option" where
  "lock_times self 0 lk = Some lk"
| "lock_times self (Suc n) lk = Option.bind (lock_times self n lk) (LockHelper_lock self)"

lemma lock_times_free:
  "lock_times self n LockHelper_new = Some (if n = 0 then LockHelper_new else \<lparr>lk_owner = Some self, lk_depth = n\<rparr>)"
  by (induction n) (auto simp: LockHelper_new_def LockHelper_lock_def)

lemma lock_balanced:
  "map_option (LockHelper_unLock self ^^ n) (lock_times self n LockHelper_new) = Some LockHelper_new"
proof -
  have "(LockHelper_unLock self ^^ Suc n) \<lparr>lk_owner = Some self, lk_depth = Suc n\<rparr> = LockHelper_new" for n
    by (induction n) (simp_all add: LockHelper_unLock_def LockHelper_new_def funpow_Suc_right del: funpow.simps(2))
  then show ?thesis by (cases n) (simp_all add: lock_times_free)
qed

lemma lock_excludes:
  "0 < n \<Longrightarrow> self \<noteq> other \<Longrightarrow> Option.bind (lock_times self n LockHelper_new) (LockHelper_lock other) = None"
  by (simp add: lock_times_free LockHelper_lock_def)

section \<open>The queue and the pool of free buffers\<close>

text \<open>
  \<open>q_fresh\<close>: the buffers below it were allocated so far. \<open>q_pushed\<close> and \<open>q_popped\<close> record what went
  through the queue.
\<close>

record log_queue =
  q_lock :: lock_helper
  q_logs :: "nat list"
  q_free :: "nat list"
  q_deleted :: "nat list"
  q_fresh :: nat
  q_pushed :: "nat list"
  q_popped :: "nat list"

definition log_queue_new :: log_queue where
  "log_queue_new = \<lparr>q_lock = LockHelper_new, q_logs = [], q_free = [], q_deleted = [], q_fresh = 0,
     q_pushed = [], q_popped = []\<rparr>"

text \<open>Where a thread is: the statement it executes next, with the buffer it has in a variable.\<close>

datatype make_pc =
    MkTest                    \<comment> \<open>\<open>if (!_freeLogDatas.empty())\<close>, without the mutex\<close>
  | MkLock
  | MkRetest
  | MkBack
  | MkPopBack nat
  | MkUnlock "nat option"
  | MkNew

datatype push_pc = PuLock nat | PuPush nat | PuUnlock

datatype free_pc =
    FrTest nat                \<comment> \<open>\<open>if (_freeLogDatas.size() < 200)\<close>, without the mutex\<close>
  | FrLock nat
  | FrPush nat
  | FrUnlock
  | FrDelete nat

datatype pop_pc = PoLock | PoTest | PoFront | PoPop nat | PoUnlock "nat option"

datatype log_pc =
    Outside
  | Making make_pc
  | Composing nat             \<comment> \<open>between \<open>makeLogData\<close> and \<open>pushLog\<close>\<close>
  | Pushing push_pc
  | Freeing free_pc
  | Popping pop_pc
  | Handling nat              \<comment> \<open>between \<open>popLog\<close> and \<open>freeLogData\<close>\<close>

type_synonym 'p log_section = "nat \<Rightarrow> 'p \<Rightarrow> log_queue \<Rightarrow> (log_pc \<times> log_queue) option res"

definition enter_section :: "nat \<Rightarrow> log_pc \<Rightarrow> log_queue \<Rightarrow> (log_pc \<times> log_queue) option res" where
  "enter_section self pc q = Inr (map_option (\<lambda>lk. (pc, q\<lparr>q_lock := lk\<rparr>)) (AutoLock_new self (q_lock q)))"

definition leave_section :: "nat \<Rightarrow> log_pc \<Rightarrow> log_queue \<Rightarrow> (log_pc \<times> log_queue) option res" where
  "leave_section self pc q = Inr (Some (pc, q\<lparr>q_lock := AutoLock_destroy self (q_lock q)\<rparr>))"

fun makeLogData_step :: "make_pc log_section" where
  "makeLogData_step self MkTest q = Inr (Some (Making (if q_free q \<noteq> [] then MkLock else MkNew), q))"
| "makeLogData_step self MkLock q = enter_section self (Making MkRetest) q"
| "makeLogData_step self MkRetest q = Inr (Some (Making (if q_free q \<noteq> [] then MkBack else MkUnlock None), q))"
| "makeLogData_step self MkBack q =
     (if q_free q = [] then Inl OutOfBounds else Inr (Some (Making (MkPopBack (last (q_free q))), q)))"
| "makeLogData_step self (MkPopBack l) q =
     (if q_free q = [] then Inl OutOfBounds
      else Inr (Some (Making (MkUnlock (Some l)), q\<lparr>q_free := butlast (q_free q)\<rparr>)))"
| "makeLogData_step self (MkUnlock p) q =
     leave_section self (case p of None \<Rightarrow> Making MkNew | Some l \<Rightarrow> Composing l) q"
| "makeLogData_step self MkNew q = Inr (Some (Composing (q_fresh q), q\<lparr>q_fresh := Suc (q_fresh q)\<rparr>))"

text \<open>The end of \<open>pushLog\<close>, and of \<open>hotChange\<close>.\<close>

fun pushLog_step :: "push_pc log_section" where
  "pushLog_step self (PuLock l) q = enter_section self (Pushing (PuPush l)) q"
| "pushLog_step self (PuPush l) q =
     Inr (Some (Pushing PuUnlock, q\<lparr>q_logs := q_logs q @ [l], q_pushed := q_pushed q @ [l]\<rparr>))"
| "pushLog_step self PuUnlock q = leave_section self Outside q"

fun freeLogData_step :: "free_pc log_section" where
  "freeLogData_step self (FrTest l) q =
     Inr (Some (Freeing (if length (q_free q) < 200 then FrLock l else FrDelete l), q))"
| "freeLogData_step self (FrLock l) q = enter_section self (Freeing (FrPush l)) q"
| "freeLogData_step self (FrPush l) q = Inr (Some (Freeing FrUnlock, q\<lparr>q_free := q_free q @ [l]\<rparr>))"
| "freeLogData_step self FrUnlock q = leave_section self Outside q"
| "freeLogData_step self (FrDelete l) q = Inr (Some (Outside, q\<lparr>q_deleted := q_deleted q @ [l]\<rparr>))"

fun popLog_step :: "pop_pc log_section" where
  "popLog_step self PoLock q = enter_section self (Popping PoTest) q"
| "popLog_step self PoTest q = Inr (Some (Popping (if q_logs q = [] then PoUnlock None else PoFront), q))"
| "popLog_step self PoFront q =
     (if q_logs q = [] then Inl OutOfBounds else Inr (Some (Popping (PoPop (hd (q_logs q))), q)))"
| "popLog_step self (PoPop l) q =
     (if q_logs q = [] then Inl OutOfBounds
      else Inr (Some (Popping (PoUnlock (Some l)), q\<lparr>q_logs := tl (q_logs q), q_popped := q_popped q @ [l]\<rparr>)))"
| "popLog_step self (PoUnlock p) q = leave_section self (case p of None \<Rightarrow> Outside | Some l \<Rightarrow> Handling l) q"

fun log_pc_step :: "log_pc log_section" where
  "log_pc_step self (Making pc) q = makeLogData_step self pc q"
| "log_pc_step self (Pushing pc) q = pushLog_step self pc q"
| "log_pc_step self (Freeing pc) q = freeLogData_step self pc q"
| "log_pc_step self (Popping pc) q = popLog_step self pc q"
| "log_pc_step self _ q = Inr None"

text \<open>
  Outside of the four functions a thread may call one: to begin a message or to take one; a message
  that was composed is pushed, or freed if its logger does not take it; one that was handled is freed.
\<close>

fun may_call :: "log_pc \<Rightarrow> log_pc \<Rightarrow> bool" where
  "may_call Outside pc = (pc = Making MkTest \<or> pc = Popping PoLock)"
| "may_call (Composing l) pc = (pc = Pushing (PuLock l) \<or> pc = Freeing (FrTest l))"
| "may_call (Handling l) pc = (pc = Freeing (FrTest l))"
| "may_call _ pc = False"

section \<open>The threads\<close>

record log_threads =
  lt_queue :: log_queue
  lt_pc :: "nat \<Rightarrow> log_pc"

definition log_threads_new :: log_threads where
  "log_threads_new = \<lparr>lt_queue = log_queue_new, lt_pc = (\<lambda>_. Outside)\<rparr>"

inductive log_thread_step :: "nat \<Rightarrow> log_threads \<Rightarrow> log_threads \<Rightarrow> bool" for self where
  calls: "may_call (lt_pc s self) pc \<Longrightarrow>
    log_thread_step self s (s\<lparr>lt_pc := (lt_pc s)(self := pc)\<rparr>)"
| goes: "log_pc_step self (lt_pc s self) (lt_queue s) = Inr (Some (pc, q)) \<Longrightarrow>
    log_thread_step self s (s\<lparr>lt_queue := q, lt_pc := (lt_pc s)(self := pc)\<rparr>)"

text \<open>The states that \<open>n\<close> threads can reach.\<close>

inductive log_threads_reachable :: "nat \<Rightarrow> log_threads \<Rightarrow> bool" for n where
  begins: "log_threads_reachable n log_threads_new"
| moves: "log_threads_reachable n s \<Longrightarrow> self < n \<Longrightarrow> log_thread_step self s s' \<Longrightarrow> log_threads_reachable n s'"

text \<open>Runs, for concrete executions: a thread calls a function, or goes on by a statement.\<close>

fun log_event :: "nat \<times> log_pc option \<Rightarrow> log_threads \<Rightarrow> log_threads option" where
  "log_event (self, Some pc) s =
     (if may_call (lt_pc s self) pc then Some (s\<lparr>lt_pc := (lt_pc s)(self := pc)\<rparr>) else None)"
| "log_event (self, None) s =
     (case log_pc_step self (lt_pc s self) (lt_queue s) of
        Inr (Some (pc, q)) \<Rightarrow> Some (s\<lparr>lt_queue := q, lt_pc := (lt_pc s)(self := pc)\<rparr>)
      | _ \<Rightarrow> None)"

fun log_events :: "(nat \<times> log_pc option) list \<Rightarrow> log_threads \<Rightarrow> log_threads option" where
  "log_events [] s = Some s"
| "log_events (ev # evs) s = Option.bind (log_event ev s) (log_events evs)"

lemma log_event_step: "log_event (self, x) s = Some s' \<Longrightarrow> log_thread_step self s s'"
  by (cases x) (auto split: if_splits sum.splits option.splits intro: log_thread_step.intros)

lemma log_events_reachable:
  "log_threads_reachable n s \<Longrightarrow> \<forall>(t, x) \<in> set evs. t < n \<Longrightarrow> log_events evs s = Some s' \<Longrightarrow> log_threads_reachable n s'"
proof (induction evs arbitrary: s)
  case (Cons ev evs)
  obtain t x where ev: "ev = (t, x)" by fastforce
  with Cons.prems(3) obtain s1 where s1: "log_event (t, x) s = Some s1" "log_events evs s1 = Some s'"
    by (auto simp: bind_eq_Some_conv simp del: log_event.simps)
  have "log_threads_reachable n s1"
    using log_threads_reachable.moves [OF Cons.prems(1) _ log_event_step [OF s1(1)]] Cons.prems(2) ev by simp
  with Cons.IH s1(2) Cons.prems(2) show ?case by simp
qed simp

section \<open>Alone, the functions are the steps of the manager\<close>

text \<open>A thread that nobody disturbs, for \<open>k\<close> statements or until it cannot go on.\<close>

fun alone :: "nat \<Rightarrow> nat \<Rightarrow> log_pc \<times> log_queue \<Rightarrow> (log_pc \<times> log_queue) res" where
  "alone self 0 x = Inr x"
| "alone self (Suc k) (pc, q) =
     (case log_pc_step self pc q of Inl e \<Rightarrow> Inl e | Inr None \<Rightarrow> Inr (pc, q) | Inr (Some x) \<Rightarrow> alone self k x)"

text \<open>The containers of a manager, with \<open>mem\<close> for what is in the buffers.\<close>

definition shows_queue :: "(nat \<Rightarrow> log_data) \<Rightarrow> log_queue \<Rightarrow> log_manager \<Rightarrow> bool" where
  "shows_queue mem q m \<longleftrightarrow> lm_logs m = map mem (q_logs q) \<and> lm_freeLogDatas m = map mem (q_free q)
     \<and> q_lock q = LockHelper_new"

lemmas alone_simps = enter_section_def leave_section_def AutoLock_new_def AutoLock_destroy_def LockHelper_lock_def
  LockHelper_unLock_def LockHelper_new_def shows_queue_def eval_nat_numeral

lemma popLog_alone:
  assumes "shows_queue mem q m"
  shows "\<exists>p q'. alone self 6 (Popping PoLock, q) = Inr (case p of None \<Rightarrow> Outside | Some l \<Rightarrow> Handling l, q')
    \<and> fst (popLog m) = map_option mem p \<and> shows_queue mem q' (snd (popLog m))"
proof (cases "q_logs q")
  case Nil
  then show ?thesis using assms by (intro exI [of _ None]) (simp add: alone_simps popLog_def)
next
  case (Cons l ls)
  then show ?thesis using assms by (intro exI [of _ "Some l"]) (simp add: alone_simps popLog_def)
qed

lemma freeLogData_alone:
  assumes "shows_queue mem q m"
  shows "\<exists>q'. alone self 6 (Freeing (FrTest l), q) = Inr (Outside, q') \<and> shows_queue mem q' (freeLogData (mem l) m)"
  using assms by (simp add: alone_simps freeLogData_def)

lemma pushLog_alone:
  assumes "shows_queue mem q m"
  shows "\<exists>q'. alone self 6 (Pushing (PuLock l), q) = Inr (Outside, q') \<and> shows_queue mem q' (push_queue (mem l) m)"
  using assms by (simp add: alone_simps push_queue_def)

lemma makeLogData_alone:
  assumes "shows_queue mem q m"
  shows "\<exists>q'. alone self 6 (Making MkTest, q) = Inr (Composing (if q_free q = [] then q_fresh q else last (q_free q)), q')
    \<and> shows_queue mem q' (snd (makeLogData i level m))"
  using assms by (cases "q_free q = []") (simp_all add: alone_simps makeLogData_def Let_def map_butlast)

end
