(* ===== verification/Log_Lock_Properties.thy ===== *)
theory Log_Lock_Properties
  imports Log_Locks
begin

text \<open>
  The threads of the logger around its queue: where every message buffer is, and that no thread
  waits for ever for the mutex.
\<close>

section \<open>Who has which buffer\<close>

text \<open>The buffer a thread has for itself at a place in the code.\<close>

fun holds :: "log_pc \<Rightarrow> nat option" where
  "holds (Making (MkUnlock p)) = p"
| "holds (Composing l) = Some l"
| "holds (Pushing (PuLock l)) = Some l"
| "holds (Pushing (PuPush l)) = Some l"
| "holds (Freeing (FrTest l)) = Some l"
| "holds (Freeing (FrLock l)) = Some l"
| "holds (Freeing (FrPush l)) = Some l"
| "holds (Freeing (FrDelete l)) = Some l"
| "holds (Popping (PoUnlock p)) = p"
| "holds (Handling l) = Some l"
| "holds _ = None"

text \<open>Between the locking and the unlocking.\<close>

fun in_section :: "log_pc \<Rightarrow> bool" where
  "in_section (Making pc) = (pc \<notin> {MkTest, MkLock, MkNew})"
| "in_section (Pushing (PuLock l)) = False"
| "in_section (Pushing pc) = True"
| "in_section (Freeing (FrPush l)) = True"
| "in_section (Freeing FrUnlock) = True"
| "in_section (Freeing pc) = False"
| "in_section (Popping pc) = (pc \<noteq> PoLock)"
| "in_section _ = False"

text \<open>What a thread knows of the containers by what it has tested under the mutex.\<close>

fun pc_knows :: "log_pc \<Rightarrow> log_queue \<Rightarrow> bool" where
  "pc_knows (Making MkBack) q = (q_free q \<noteq> [])"
| "pc_knows (Making (MkPopBack l)) q = (q_free q \<noteq> [] \<and> last (q_free q) = l)"
| "pc_knows (Popping PoFront) q = (q_logs q \<noteq> [])"
| "pc_knows (Popping (PoPop l)) q = (q_logs q \<noteq> [] \<and> hd (q_logs q) = l)"
| "pc_knows _ q = True"

text \<open>About to put a buffer into the pool, having found it small enough.\<close>

fun filling :: "log_pc \<Rightarrow> nat" where
  "filling (Freeing (FrLock l)) = 1"
| "filling (Freeing (FrPush l)) = 1"
| "filling _ = 0"

definition held :: "log_pc \<Rightarrow> nat multiset" where
  "held pc = (case holds pc of None \<Rightarrow> {#} | Some l \<Rightarrow> {#l#})"

definition stored :: "log_queue \<Rightarrow> nat multiset" where
  "stored q = mset (q_logs q) + mset (q_free q) + mset (q_deleted q)"

definition lock_ok :: "nat \<Rightarrow> log_threads \<Rightarrow> bool" where
  "lock_ok n s \<longleftrightarrow> (\<forall>t. in_section (lt_pc s t) \<longleftrightarrow> lk_owner (q_lock (lt_queue s)) = Some t)
     \<and> (\<forall>t. in_section (lt_pc s t) \<longrightarrow> t < n)
     \<and> lk_depth (q_lock (lt_queue s)) = (if lk_owner (q_lock (lt_queue s)) = None then 0 else 1)"

definition buffers_inv :: "nat \<Rightarrow> log_threads \<Rightarrow> bool" where
  "buffers_inv n s \<longleftrightarrow> lock_ok n s \<and> (\<forall>t. pc_knows (lt_pc s t) (lt_queue s))
     \<and> stored (lt_queue s) + (\<Sum>t<n. held (lt_pc s t)) = mset [0..<q_fresh (lt_queue s)]
     \<and> q_pushed (lt_queue s) = q_popped (lt_queue s) @ q_logs (lt_queue s)
     \<and> length (q_free (lt_queue s)) + (\<Sum>t<n. filling (lt_pc s t)) < 200 + n"

section \<open>One statement\<close>

lemmas section_simps = enter_section_def leave_section_def AutoLock_new_def AutoLock_destroy_def LockHelper_lock_def
  LockHelper_unLock_def

text \<open>Calling one of the functions changes nothing that counts.\<close>

lemma call_frame:
  "may_call pc pc' \<Longrightarrow> held pc' = held pc \<and> in_section pc' = in_section pc \<and> filling pc' = filling pc \<and> pc_knows pc' q"
  by (cases pc) (auto simp: held_def)

text \<open>A thread that knows what it tested does not fault, and stops only before a mutex another thread has.\<close>

lemma step_possible:
  assumes "pc_knows pc q"
  obtains (idle) "may_call pc \<noteq> (\<lambda>_. False)"
    | (waits) u where "lk_owner (q_lock q) = Some u" "u \<noteq> self" "\<not> in_section pc" "log_pc_step self pc q = Inr None"
    | (steps) pc' q' where "log_pc_step self pc q = Inr (Some (pc', q'))"
proof -
  have enter: "(\<exists>u. lk_owner (q_lock q) = Some u \<and> u \<noteq> self \<and> enter_section self pc' q = Inr None)
      \<or> (\<exists>pc'' q'. enter_section self pc' q = Inr (Some (pc'', q')))" for pc'
    by (auto simp: section_simps split: option.splits)
  have "may_call pc \<noteq> (\<lambda>_. False)
      \<or> (\<exists>u. lk_owner (q_lock q) = Some u \<and> u \<noteq> self \<and> \<not> in_section pc \<and> log_pc_step self pc q = Inr None)
      \<or> (\<exists>pc' q'. log_pc_step self pc q = Inr (Some (pc', q')))"
  proof (cases pc)
    case (Making x)
    then show ?thesis using assms enter [of "Making MkRetest"] by (cases x) (auto simp: leave_section_def)
  next
    case (Pushing x)
    then show ?thesis using enter by (cases x) (auto simp: leave_section_def)
  next
    case (Freeing x)
    then show ?thesis using enter by (cases x) (auto simp: leave_section_def)
  next
    case (Popping x)
    then show ?thesis using assms enter [of "Popping PoTest"] by (cases x) (auto simp: leave_section_def)
  qed (auto simp: fun_eq_iff)
  then show thesis using idle waits steps by blast
qed

text \<open>What a statement does to the buffers, to the queue's history, and to the pool.\<close>

lemma fresh_buffer: "mset [0..<Suc n] = mset [0..<n] + {#n#}"
  by (simp del: mset_upt)

lemma ends_of_list:
  "xs \<noteq> [] \<Longrightarrow> add_mset (last xs) (mset (butlast xs)) = mset xs"
  "xs \<noteq> [] \<Longrightarrow> add_mset (hd xs) (mset (tl xs)) = mset xs"
  by (cases xs rule: rev_cases; simp) (cases xs; simp)

lemma step_moves:
  assumes "log_pc_step self pc q = Inr (Some (pc', q'))" and "pc_knows pc q"
  shows "stored q' + held pc' + mset [0..<q_fresh q] = stored q + held pc + mset [0..<q_fresh q']
    \<and> (q_pushed q = q_popped q @ q_logs q \<longrightarrow> q_pushed q' = q_popped q' @ q_logs q')
    \<and> length (q_free q') + filling pc'
        \<le> (if length (q_free q) < 200 \<and> filling pc = 0 then 200 else length (q_free q) + filling pc)
    \<and> pc_knows pc' q'"
proof (cases pc)
  case (Making x)
  then show ?thesis using assms
    by (cases x) (auto simp: section_simps stored_def held_def ends_of_list fresh_buffer simp del: mset_upt
        split: option.splits if_splits)
next
  case (Pushing x)
  then show ?thesis using assms
    by (cases x) (auto simp: section_simps stored_def held_def split: option.splits if_splits)
next
  case (Freeing x)
  then show ?thesis using assms
    by (cases x) (auto simp: section_simps stored_def held_def split: option.splits if_splits)
next
  case (Popping x)
  then show ?thesis using assms
    by (cases x) (auto simp: section_simps stored_def held_def ends_of_list split: option.splits if_splits)
qed (use assms in simp_all)

text \<open>What it does to the mutex, and that it leaves the containers alone unless the mutex is its own.\<close>

lemma step_lock:
  assumes "log_pc_step self pc q = Inr (Some (pc', q'))"
  shows "(in_section pc' = in_section pc \<and> q_lock q' = q_lock q)
    \<or> (\<not> in_section pc \<and> in_section pc' \<and> AutoLock_new self (q_lock q) = Some (q_lock q'))
    \<or> (in_section pc \<and> \<not> in_section pc' \<and> q_lock q' = AutoLock_destroy self (q_lock q))"
    and "in_section pc \<or> q_free q' = q_free q \<and> q_logs q' = q_logs q"
proof -
  have "((in_section pc' = in_section pc \<and> q_lock q' = q_lock q)
    \<or> (\<not> in_section pc \<and> in_section pc' \<and> AutoLock_new self (q_lock q) = Some (q_lock q'))
    \<or> (in_section pc \<and> \<not> in_section pc' \<and> q_lock q' = AutoLock_destroy self (q_lock q)))
    \<and> (in_section pc \<or> q_free q' = q_free q \<and> q_logs q' = q_logs q)"
  proof (cases pc)
    case (Making x)
    then show ?thesis using assms
      by (cases x) (auto simp: enter_section_def leave_section_def split: option.splits if_splits)
  next
    case (Pushing x)
    then show ?thesis using assms by (cases x) (auto simp: enter_section_def leave_section_def)
  next
    case (Freeing x)
    then show ?thesis using assms by (cases x) (auto simp: enter_section_def leave_section_def split: if_splits)
  next
    case (Popping x)
    then show ?thesis using assms
      by (cases x) (auto simp: enter_section_def leave_section_def split: option.splits if_splits)
  qed (use assms in simp_all)
  then show "(in_section pc' = in_section pc \<and> q_lock q' = q_lock q)
    \<or> (\<not> in_section pc \<and> in_section pc' \<and> AutoLock_new self (q_lock q) = Some (q_lock q'))
    \<or> (in_section pc \<and> \<not> in_section pc' \<and> q_lock q' = AutoLock_destroy self (q_lock q))"
    and "in_section pc \<or> q_free q' = q_free q \<and> q_logs q' = q_logs q" by blast+
qed

lemma knows_outside: "\<not> in_section pc \<Longrightarrow> pc_knows pc q"
  by (cases "(pc, q)" rule: pc_knows.cases) simp_all

lemma knows_frame: "q_free q' = q_free q \<Longrightarrow> q_logs q' = q_logs q \<Longrightarrow> pc_knows pc q' = pc_knows pc q"
  by (cases "(pc, q)" rule: pc_knows.cases) simp_all

section \<open>All threads\<close>

lemma sum_updated:
  fixes f :: "log_pc \<Rightarrow> 'a :: comm_monoid_add" and p :: "nat \<Rightarrow> log_pc"
  assumes "self < n"
  shows "\<exists>r. (\<Sum>t<n. f (p t)) = f (p self) + r \<and> (\<Sum>t<n. f ((p(self := pc)) t)) = f pc + r"
proof -
  have "(\<Sum>t<n. f ((p(self := x)) t)) = f x + (\<Sum>t \<in> {..<n} - {self}. f (p t))" for x
    using assms by (subst sum.remove [of _ self]) (auto intro!: sum.cong)
  from this [of "p self"] this [of pc] show ?thesis by (auto simp del: fun_upd_apply)
qed

lemma filling_le: "(\<Sum>t<n. filling (p t)) \<le> (n :: nat)"
proof -
  have "filling pc \<le> 1" for pc by (cases pc rule: filling.cases) simp_all
  then show ?thesis using sum_bounded_above [of "{..<n}" "\<lambda>t. filling (p t)" 1] by simp
qed

lemma inv_new: "buffers_inv n log_threads_new"
  by (simp add: buffers_inv_def lock_ok_def log_threads_new_def log_queue_new_def LockHelper_new_def stored_def held_def)

lemma lock_step:
  assumes "lock_ok n s" and "self < n" and "log_pc_step self (lt_pc s self) (lt_queue s) = Inr (Some (pc, q))"
  shows "lock_ok n (s\<lparr>lt_queue := q, lt_pc := (lt_pc s)(self := pc)\<rparr>)"
proof -
  have own: "in_section (lt_pc s t) \<longleftrightarrow> lk_owner (q_lock (lt_queue s)) = Some t" for t
    using assms(1) by (simp add: lock_ok_def)
  have depth: "lk_depth (q_lock (lt_queue s)) = (if lk_owner (q_lock (lt_queue s)) = None then 0 else 1)"
    using assms(1) by (simp add: lock_ok_def)
  from step_lock(1) [OF assms(3)] show ?thesis
  proof (elim disjE conjE)
    assume "in_section pc = in_section (lt_pc s self)" "q_lock q = q_lock (lt_queue s)"
    then show ?thesis using assms(1,2) by (auto simp: lock_ok_def)
  next
    assume a: "\<not> in_section (lt_pc s self)" "in_section pc" "AutoLock_new self (q_lock (lt_queue s)) = Some (q_lock q)"
    then have "lk_owner (q_lock (lt_queue s)) = None" "q_lock q = \<lparr>lk_owner = Some self, lk_depth = 1\<rparr>"
      using own [of self] by (auto simp: section_simps split: option.splits if_splits)
    then show ?thesis using assms(1,2) own a(2) by (auto simp: lock_ok_def)
  next
    assume a: "in_section (lt_pc s self)" "\<not> in_section pc" "q_lock q = AutoLock_destroy self (q_lock (lt_queue s))"
    then have "lk_owner (q_lock (lt_queue s)) = Some self" using own by simp
    moreover from this have "q_lock q = \<lparr>lk_owner = None, lk_depth = 0\<rparr>" using a(3) depth by (simp add: section_simps)
    ultimately show ?thesis using assms(1) own a(2) by (auto simp: lock_ok_def)
  qed
qed

lemma inv_step:
  assumes inv: "buffers_inv n s" and "self < n" and "log_thread_step self s s'"
  shows "buffers_inv n s'"
  using assms(3)
proof cases
  case (calls pc)
  note f = call_frame [OF calls(2)]
  have "lock_ok n s'" using inv f by (auto simp: buffers_inv_def lock_ok_def calls(1))
  moreover have "held (((lt_pc s)(self := pc)) t) = held (lt_pc s t)"
    "filling (((lt_pc s)(self := pc)) t) = filling (lt_pc s t)" for t using f by auto
  ultimately show ?thesis using inv f by (auto simp: buffers_inv_def calls(1))
next
  case (goes pc q)
  let ?p = "lt_pc s" and ?q = "lt_queue s"
  have know: "\<forall>t. pc_knows (?p t) ?q" and lock: "lock_ok n s" using inv by (simp_all add: buffers_inv_def)
  from step_moves [OF goes(2)] know have
    bal: "stored q + held pc + mset [0..<q_fresh ?q] = stored ?q + held (?p self) + mset [0..<q_fresh q]"
    and hist: "q_pushed ?q = q_popped ?q @ q_logs ?q \<longrightarrow> q_pushed q = q_popped q @ q_logs q"
    and pool: "length (q_free q) + filling pc \<le> (if length (q_free ?q) < 200 \<and> filling (?p self) = 0 then 200
        else length (q_free ?q) + filling (?p self))"
    and here: "pc_knows pc q" by blast+
  have others: "pc_knows (?p t) q" if "t \<noteq> self" for t
  proof (cases "in_section (?p self)")
    case True
    then have "\<not> in_section (?p t)" using lock that by (auto simp: lock_ok_def)
    then show ?thesis by (rule knows_outside)
  next
    case False
    then have "q_free q = q_free ?q" "q_logs q = q_logs ?q" using step_lock(2) [OF goes(2)] by simp_all
    from knows_frame [OF this] show ?thesis using know by simp
  qed
  obtain r where r: "(\<Sum>t<n. held (?p t)) = held (?p self) + r" "(\<Sum>t<n. held ((?p(self := pc)) t)) = held pc + r"
    using sum_updated [OF assms(2), of held ?p pc] by blast
  obtain k where k: "(\<Sum>t<n. filling (?p t)) = filling (?p self) + k" "(\<Sum>t<n. filling ((?p(self := pc)) t)) = filling pc + k"
    using sum_updated [OF assms(2), of filling ?p pc] by blast
  have all: "stored ?q + (held (?p self) + r) = mset [0..<q_fresh ?q]"
    and room: "length (q_free ?q) + (filling (?p self) + k) < 200 + n"
    using inv r(1) k(1) by (simp_all add: buffers_inv_def)
  have "stored q + (held pc + r) + mset [0..<q_fresh ?q] = stored q + held pc + mset [0..<q_fresh ?q] + r"
    by (simp only: ac_simps)
  also have "\<dots> = mset [0..<q_fresh q] + (stored ?q + (held (?p self) + r))"
    unfolding bal by (simp only: ac_simps)
  also have "\<dots> = mset [0..<q_fresh q] + mset [0..<q_fresh ?q]" by (simp only: all)
  finally have "stored q + (held pc + r) = mset [0..<q_fresh q]" by (rule add_right_imp_eq)
  moreover have "length (q_free q) + (filling pc + k) < 200 + n"
  proof (cases "length (q_free ?q) < 200 \<and> filling (?p self) = 0")
    case True
    have "filling (Freeing (FrLock 0)) + k \<le> n"
      using filling_le [of "?p(self := Freeing (FrLock 0))" n] sum_updated [OF assms(2), of filling ?p "Freeing (FrLock 0)"] k(1)
      by auto
    then show ?thesis using pool True by simp
  next
    case False
    then have "length (q_free q) + filling pc \<le> length (q_free ?q) + filling (?p self)" using pool by auto
    then show ?thesis using room by simp
  qed
  ultimately show ?thesis
    using inv lock_step [OF lock assms(2) goes(2)] hist here others r(2) k(2)
    by (auto simp: buffers_inv_def goes(1) simp del: mset_upt)
qed

lemma buffers_reachable: "log_threads_reachable n s \<Longrightarrow> buffers_inv n s"
  by (induction rule: log_threads_reachable.induct) (auto intro: inv_new inv_step)

section \<open>The mutex is given back\<close>

lemma log_thread_goes:
  "log_pc_step self (lt_pc s self) (lt_queue s) = Inr (Some (pc, q)) \<Longrightarrow>
   \<exists>s'. log_thread_step self s s' \<and> lt_pc s' self = pc \<and> lt_queue s' = q"
  using log_thread_step.goes by fastforce

text \<open>How many statements a thread still executes with the mutex.\<close>

fun section_left :: "log_pc \<Rightarrow> nat" where
  "section_left (Making MkRetest) = 4"
| "section_left (Making MkBack) = 3"
| "section_left (Making (MkPopBack l)) = 2"
| "section_left (Making (MkUnlock p)) = 1"
| "section_left (Pushing (PuPush l)) = 2"
| "section_left (Pushing PuUnlock) = 1"
| "section_left (Freeing (FrPush l)) = 2"
| "section_left (Freeing FrUnlock) = 1"
| "section_left (Popping PoTest) = 4"
| "section_left (Popping PoFront) = 3"
| "section_left (Popping (PoPop l)) = 2"
| "section_left (Popping (PoUnlock p)) = 1"
| "section_left _ = 0"

lemma section_left_pos: "in_section pc \<longleftrightarrow> 0 < section_left pc"
  by (cases pc rule: section_left.cases) simp_all

lemma section_left_le: "section_left pc \<le> 4"
  by (cases pc rule: section_left.cases) simp_all

lemma section_decreases:
  "in_section pc \<Longrightarrow> log_pc_step self pc q = Inr (Some (pc', q')) \<Longrightarrow> section_left pc' < section_left pc"
  by (cases pc rule: section_left.cases) (auto simp: leave_section_def split: option.splits if_splits)

lemma section_steps:
  assumes "buffers_inv n s" and "in_section (lt_pc s self)"
  shows "\<exists>s'. log_thread_step self s s' \<and> section_left (lt_pc s' self) < section_left (lt_pc s self)"
proof -
  have "pc_knows (lt_pc s self) (lt_queue s)" using assms(1) by (simp add: buffers_inv_def)
  then show ?thesis
  proof (cases rule: step_possible [where self = self])
    case idle
    then show ?thesis using assms(2) by (cases "lt_pc s self") auto
  next
    case waits
    then show ?thesis using assms(2) by simp
  next
    case (steps pc' q')
    from log_thread_goes [OF this] section_decreases [OF assms(2) this] show ?thesis by auto
  qed
qed

lemma section_ends:
  assumes "buffers_inv n s" and "lk_owner (q_lock (lt_queue s)) = Some u"
  shows "\<exists>k s'. k \<le> section_left (lt_pc s u) \<and> (log_thread_step u ^^ k) s s' \<and> lk_owner (q_lock (lt_queue s')) = None"
  using assms
proof (induction "section_left (lt_pc s u)" arbitrary: s rule: less_induct)
  case less
  have own: "in_section (lt_pc s t) \<longleftrightarrow> t = u" and u: "u < n" for t
    using less.prems by (auto simp: buffers_inv_def lock_ok_def)
  from section_steps [OF less.prems(1)] own obtain s1 where
    s1: "log_thread_step u s s1" "section_left (lt_pc s1 u) < section_left (lt_pc s u)" by blast
  have inv: "buffers_inv n s1" by (rule inv_step [OF less.prems(1) u s1(1)])
  have other: "\<not> in_section (lt_pc s1 t)" if "t \<noteq> u" for t
    using s1(1) own [of t] that by cases auto
  show ?case
  proof (cases "lk_owner (q_lock (lt_queue s1))")
    case None
    then have "(log_thread_step u ^^ 1) s s1" "1 \<le> section_left (lt_pc s u)" using s1 by auto
    with None show ?thesis by blast
  next
    case (Some v)
    then have "in_section (lt_pc s1 v)" using inv by (auto simp: buffers_inv_def lock_ok_def)
    then have "v = u" using other by blast
    with less.hyps [OF s1(2) inv] Some obtain k s' where k: "k \<le> section_left (lt_pc s1 u)"
      "(log_thread_step u ^^ k) s1 s'" "lk_owner (q_lock (lt_queue s')) = None" by blast
    have "(log_thread_step u ^^ Suc k) s s'" using relpowp_Suc_I2 [of "log_thread_step u", OF s1(1) k(2)] .
    moreover have "Suc k \<le> section_left (lt_pc s u)" using k(1) s1(2) by simp
    ultimately show ?thesis using k(3) by blast
  qed
qed

section \<open>Properties\<close>

text \<open>C35. The buffers of messages. However many threads make, push, take and free messages, and however their
  statements interleave: every buffer ever allocated is in exactly one place, with one thread, in the queue, in the
  pool of free ones, or deleted, so no two threads write to the same one, and none is freed twice or lost; nothing
  is taken from an empty container; messages are taken in the order in which they were pushed. The pool, whose
  size is tested before the mutex is locked, can exceed its 200 only by the number of threads.\<close>

theorem log_buffers_owned:
  assumes "log_threads_reachable n s"
  defines "q \<equiv> lt_queue s"
  shows "mset (q_logs q) + mset (q_free q) + mset (q_deleted q) + (\<Sum>t<n. held (lt_pc s t)) = mset [0..<q_fresh q]
    \<and> (\<forall>t < n. \<forall>l. holds (lt_pc s t) = Some l \<longrightarrow> l \<notin> set (q_logs q @ q_free q @ q_deleted q)
        \<and> (\<forall>u < n. holds (lt_pc s u) = Some l \<longrightarrow> u = t))
    \<and> (\<forall>t < n. \<forall>e. log_pc_step t (lt_pc s t) q \<noteq> Inl e)
    \<and> q_pushed q = q_popped q @ q_logs q \<and> length (q_free q) < 200 + n"
proof (intro conjI allI impI)
  have inv: "buffers_inv n s" using buffers_reachable [OF assms(1)] .
  then show all: "mset (q_logs q) + mset (q_free q) + mset (q_deleted q) + (\<Sum>t<n. held (lt_pc s t)) = mset [0..<q_fresh q]"
    and "q_pushed q = q_popped q @ q_logs q" "length (q_free q) < 200 + n"
    by (simp_all add: buffers_inv_def stored_def q_def del: mset_upt)
  have once: "count (mset (q_logs q) + mset (q_free q) + mset (q_deleted q)) l + (\<Sum>t<n. count (held (lt_pc s t)) l) \<le> 1" for l
  proof -
    have "count (mset [0..<q_fresh q]) l \<le> 1"
      using distinct_count_atmost_1 [of "[0..<q_fresh q]"] by (simp del: mset_upt)
    then show ?thesis unfolding all [symmetric] by (simp add: count_sum)
  qed
  fix t l
  assume t: "t < n" "holds (lt_pc s t) = Some l"
  have mine: "count (held (lt_pc s t)) l = 1" using t(2) by (simp add: held_def)
  have split: "(\<Sum>t<n. count (held (lt_pc s t)) l) = 1 + (\<Sum>u \<in> {..<n} - {t}. count (held (lt_pc s u)) l)"
    using t(1) mine by (subst sum.remove [of _ t]) auto
  have "count (mset (q_logs q) + mset (q_free q) + mset (q_deleted q)) l = 0"
    and rest: "(\<Sum>u \<in> {..<n} - {t}. count (held (lt_pc s u)) l) = 0" using once [of l] split by linarith+
  then show "l \<notin> set (q_logs q @ q_free q @ q_deleted q)" by (auto simp: count_eq_zero_iff)
  fix u
  assume u: "u < n" "holds (lt_pc s u) = Some l"
  show "u = t"
  proof (rule ccontr)
    assume "u \<noteq> t"
    then have "count (held (lt_pc s u)) l = 0" using rest u(1) by simp
    then show False using u(2) by (simp add: held_def)
  qed
next
  fix t e
  have "pc_knows (lt_pc s t) q" using buffers_reachable [OF assms(1)] by (simp add: buffers_inv_def q_def)
  then show "log_pc_step t (lt_pc s t) q \<noteq> Inl e"
    by (cases rule: step_possible [where self = t]) (cases "lt_pc s t"; auto)+
qed

lemma others_wait: "(log_thread_step u ^^ k) s s' \<Longrightarrow> t \<noteq> u \<Longrightarrow> lt_pc s' t = lt_pc s t"
proof (induction k arbitrary: s')
  case (Suc k)
  then obtain s1 where "(log_thread_step u ^^ k) s s1" "log_thread_step u s1 s'" by auto
  with Suc.IH [of s1] Suc.prems(2) show ?case by (auto elim: log_thread_step.cases)
qed simp

lemma others_inv: "(log_thread_step u ^^ k) s s' \<Longrightarrow> buffers_inv n s \<Longrightarrow> u < n \<Longrightarrow> buffers_inv n s'"
  by (induction k arbitrary: s') (auto intro: inv_step)

lemma goes_when_free:
  assumes "buffers_inv n s" and "lk_owner (q_lock (lt_queue s)) = None"
  shows "\<exists>s'. log_thread_step t s s'"
proof -
  have "pc_knows (lt_pc s t) (lt_queue s)" using assms(1) by (simp add: buffers_inv_def)
  then show ?thesis
  proof (cases rule: step_possible [where self = t])
    case idle
    then show ?thesis using log_thread_step.calls by blast
  next
    case waits
    then show ?thesis using assms(2) by simp
  next
    case steps
    then show ?thesis using log_thread_step.goes by blast
  qed
qed

text \<open>C36. No thread of the logger waits for ever for \<open>_logLock\<close>: in every reachable state a thread can go on, or
  another one has the mutex, gives it back after at most four statements of its own, and then the first can go on.\<close>

theorem log_lock_released:
  assumes "log_threads_reachable n s" and "t < n"
  shows "(\<exists>s'. log_thread_step t s s')
    \<or> (\<exists>u k s'. u < n \<and> u \<noteq> t \<and> k \<le> 4 \<and> (log_thread_step u ^^ k) s s' \<and> lt_pc s' t = lt_pc s t
        \<and> (\<exists>s''. log_thread_step t s' s''))"
proof (cases "lk_owner (q_lock (lt_queue s))")
  case None
  then show ?thesis using goes_when_free [OF buffers_reachable [OF assms(1)]] by blast
next
  case (Some u)
  have inv: "buffers_inv n s" using buffers_reachable [OF assms(1)] .
  then have u: "in_section (lt_pc s u)" "u < n" using Some by (auto simp: buffers_inv_def lock_ok_def)
  obtain k s' where k: "k \<le> section_left (lt_pc s u)" "(log_thread_step u ^^ k) s s'" "lk_owner (q_lock (lt_queue s')) = None"
    using section_ends [OF inv Some] by blast
  show ?thesis
  proof (cases "u = t")
    case True
    then show ?thesis using section_steps [OF inv u(1)] by blast
  next
    case False
    moreover have "lt_pc s' t = lt_pc s t" using others_wait [OF k(2) False [symmetric]] .
    moreover have "k \<le> 4" using k(1) section_left_le [of "lt_pc s u"] by simp
    ultimately show ?thesis
      using goes_when_free [OF others_inv [OF k(2) inv u(2)] k(3)] k(2) u(2) by blast
  qed
qed

section \<open>Two threads\<close>

text \<open>The first thread pushes a message and composes a second one; the other takes the first and is about to
  free it, when the first thread looks into the pool.\<close>

definition two_threads :: "(nat \<times> log_pc option) list" where
  "two_threads = [(0, Some (Making MkTest)), (0, None), (0, None), (0, Some (Pushing (PuLock 0))), (0, None), (0, None), (0, None),
     (1, Some (Popping PoLock)), (1, None), (1, None), (1, None), (1, None), (1, None), (1, Some (Freeing (FrTest 0))), (1, None),
     (0, Some (Making MkTest)), (0, None), (0, None), (1, None)]"

lemma two_threads_run:
  obtains s where "log_events two_threads log_threads_new = Some s" and "log_threads_reachable 2 s"
    and "lt_pc s 0 = Composing 1" and "lt_pc s 1 = Freeing (FrPush 0)" and "q_fresh (lt_queue s) = 2"
    and "lk_owner (q_lock (lt_queue s)) = Some 1"
proof -
  obtain s where s: "log_events two_threads log_threads_new = Some s"
    and f: "lt_pc s 0 = Composing 1" "lt_pc s 1 = Freeing (FrPush 0)" "q_fresh (lt_queue s) = 2"
      "lk_owner (q_lock (lt_queue s)) = Some 1"
    by (simp add: two_threads_def log_threads_new_def log_queue_new_def section_simps LockHelper_new_def)
  have "log_threads_reachable 2 s"
    by (rule log_events_reachable [OF log_threads_reachable.begins _ s]) (auto simp: two_threads_def)
  then show thesis using that s f by blast
qed

theorem log_buffers_owned_witness:
  "\<exists>s. log_events two_threads log_threads_new = Some s \<and> holds (lt_pc s 0) = Some 1 \<and> holds (lt_pc s 1) = Some 0
    \<and> 1 \<notin> set (q_logs (lt_queue s) @ q_free (lt_queue s) @ q_deleted (lt_queue s))"
proof -
  obtain s where s: "log_events two_threads log_threads_new = Some s" "log_threads_reachable 2 s"
    "lt_pc s 0 = Composing 1" "lt_pc s 1 = Freeing (FrPush 0)"
    using two_threads_run by metis
  have "1 \<notin> set (q_logs (lt_queue s) @ q_free (lt_queue s) @ q_deleted (lt_queue s))"
    using log_buffers_owned [OF s(2), THEN conjunct2, THEN conjunct1, rule_format, of 0 1] s(3) by simp
  with s show ?thesis by simp
qed

text \<open>A third thread wants the mutex that the second one has.\<close>

theorem log_lock_released_witness:
  "\<exists>s u k s'. log_events (two_threads @ [(2, Some (Popping PoLock))]) log_threads_new = Some s
    \<and> u < 2 \<and> k \<le> 4 \<and> (log_thread_step u ^^ k) s s' \<and> (\<exists>s''. log_thread_step 2 s' s'')"
proof -
  let ?evs = "two_threads @ [(2, Some (Popping PoLock))]"
  obtain s where s: "log_events ?evs log_threads_new = Some s" "lt_pc s 2 = Popping PoLock"
    "lk_owner (q_lock (lt_queue s)) = Some 1"
    by (simp add: two_threads_def log_threads_new_def log_queue_new_def section_simps LockHelper_new_def)
  have r: "log_threads_reachable 3 s"
    by (rule log_events_reachable [OF log_threads_reachable.begins _ s(1)]) (auto simp: two_threads_def)
  have stuck: "\<not> log_thread_step 2 s s'" for s'
    using s(2,3) by (auto elim!: log_thread_step.cases simp: section_simps)
  from log_lock_released [OF r, of 2] stuck obtain u k s' where "k \<le> 4" "(log_thread_step u ^^ k) s s'" "u \<noteq> 2" "u < 3"
    "\<exists>s''. log_thread_step 2 s' s''" by auto
  then show ?thesis using s(1) by (intro exI [of _ s] exI [of _ u] exI [of _ k] exI [of _ s']) auto
qed

end
