(* ===== verification/Spec2Isabelle.thy ===== *)
theory Spec2Isabelle
  imports Packet_Programs Log_Properties Log_Lifecycle Log_Lock_Properties
begin

text \<open>
  Verification of libasio: buffers, connections, event loops and their threads, the TCP server and
  client, the packet layer with its two programs, and the logger (log4z) these programs use.

  \<^bold>\<open>The program.\<close> A \<open>TCPConn\<close> is one established connection. It reads into a \<open>ByteBuffer\<close>, hands
  what it read to the message callback, and sends through two more buffers, of which one is being
  written while the other collects. It lives on an \<open>EventLoop\<close>, the wrapper of one
  \<open>asio::io_service\<close>; what other threads want of it is posted there. An \<open>EventLoopThread\<close> runs a
  loop on a thread of its own, an \<open>EventLoopThreadPool\<close> several of them, of which it chooses one in
  turn. A \<open>TCPServer\<close> accepts sockets, makes a connection of each on a loop of its pool, and keeps a
  table of them; a \<open>TCPClient\<close> connects, keeps one connection, and tries again.
  \<open>TcpServerImpl\<close> and \<open>TcpClientImpl\<close> turn the bytes of a connection into packets (with cereal),
  \<open>SimpleServer\<close> and \<open>SimpleClient\<close> are programs on top of them: a login and keep-alives. Beside
  them is log4z: a message is composed in a buffer by a stream, queued, and written to the file of
  its logger by a thread.

  \<^bold>\<open>Theories.\<close> Each opens with what it holds. A function keeps its name in the model (an underscore
  joins class and function where two classes share a name), a class is a record with its members
  under a prefix, an enumeration a datatype.

  \<^item> \<open>Asio_Base\<close>: machine types, \<open>cxx_error\<close> (failed assertions, accesses out of bounds, null
    pointers, exceptions) with the result type \<open>res\<close> and its \<open>rbind\<close>, the memory operations of the
    library, generic lemmas.
  \<^item> \<open>Byte_Buffer\<close>: \<open>src/bytebuffer.h\<close>, all of it. The invariant \<open>buf_ok\<close>; the abstraction
    \<open>readable\<close> to a queue of bytes, with the refinement to it; the locale \<open>byte_fifo\<close> for what a
    connection relies on.
  \<^item> \<open>Tcp_Conn\<close>: \<open>src/tcp_conn.h\<close>, \<open>src/tcp_conn.cc\<close>. Calls into asio and calls of callbacks are
    listed in the order made; what asio delivers are arguments of the handlers. \<open>Conn_Contract\<close>: the
    invariant of the sending side and the contract \<open>conn_client\<close> of callbacks. \<open>Conn_System\<close>: the
    connection with its socket, as an inductive step relation over calls and completions.
    \<open>Conn_Properties\<close>: its properties. \<open>Echo_App\<close>: the callbacks of \<open>examples/tcp_echo\<close> and of
    \<open>src/tcp_callbacks.h\<close>. \<open>Conn_Pair\<close>: two connections joined by a network; \<open>Echo_Pair\<close>: the two echo
    programs on its ends. \<open>Conn_Owner\<close>: what a connection leaves to the server or client that owns it.
  \<^item> \<open>Event_Loop\<close>: \<open>src/event_loop.h\<close>, \<open>src/event_loop.cc\<close>, with the threads around one loop as a
    step relation and the contract \<open>loop_client\<close> of functors. \<open>Conn_Loop\<close>: a connection on its loop.
  \<^item> \<open>Loop_Thread\<close>, \<open>Thread_Properties\<close>: \<open>src/event_loop_thread.*\<close>. Owner and worker are modelled
    statement by statement, so a property holds for every interleaving.
  \<^item> \<open>Thread_Pool\<close>, \<open>Pool_Properties\<close>: \<open>src/event_loop_thread_pool.*\<close>, with the contract
    \<open>round_robin\<close> of the two functions that choose a thread.
  \<^item> \<open>Tcp_Server\<close>, \<open>Server_Contract\<close>, \<open>Server_Inv\<close>, \<open>Server_Properties\<close>: \<open>src/tcp_server.*\<close>.
    Connections are shared objects: a store of them, and the table of names into it.
  \<^item> \<open>Tcp_Client\<close>, \<open>Client_Properties\<close>: \<open>src/tcp_client.*\<close>.
  \<^item> \<open>Packet\<close>: \<open>src/serialize.h\<close> and the packet classes of
    \<open>examples/tcp_cereal_packet/packet\<close>; \<open>Packet_Apps\<close>: \<open>src/tcp_server_impl.h\<close>,
    \<open>src/tcp_client_impl.h\<close>, \<open>SimpleServer\<close>, \<open>SimpleClient\<close>; \<open>Packet_Properties\<close>.
    \<open>Packet_Pair\<close>: the two programs on the ends of the network of \<open>Conn_Pair\<close>.
  \<^item> \<open>Echo_Programs\<close>, \<open>Packet_Programs\<close>: the \<open>main\<close> functions of the four programs up to their loops. The
    first composes \<open>Tcp_Client\<close>, \<open>Tcp_Server\<close> and the network: the connection the client gets with the one
    the server accepts.
  \<^item> log4z, \<open>examples/tcp_cereal_packet/utility/log4z.*\<close>. \<open>Log_Config\<close>: the parser of configurations.
    \<open>Log_Stream\<close>: \<open>Log4zStream\<close>, on the array it writes to. \<open>Log_Files\<close>: days, directories, the file
    handler and the console, over a record of the surroundings. \<open>Log_Manager\<close>: \<open>LogerManager\<close>, its
    table of loggers and attribute changes, configurations, the beginning of a message. \<open>Log_Sync\<close>:
    the semaphore with its timed wait, \<open>start\<close>, the wait for the end of a thread, and the sleep.
    \<open>Log_Output\<close>: the macros \<open>LOG_STREAM\<close> and \<open>LOG_FORMAT\<close> with those made of them, \<open>pushLog\<close>, \<open>openLogger\<close>, the thread's
    \<open>run\<close> and \<open>stop\<close>. \<open>Log_Table\<close>: the invariant of the table under every operation.
    \<open>Log_Stream_Properties\<close>, \<open>Log_Properties\<close>, \<open>Log_Output_Properties\<close>, \<open>Log_Thread_Properties\<close> and
    \<open>Log_Lifecycle\<close>: the properties. \<open>Log_Locks\<close>, \<open>Log_Lock_Properties\<close>: the mutexes, and the threads
    that pass message buffers to each other under one, statement by statement; without other threads the
    statements make the operations that \<open>Log_Manager\<close> has as single steps.

  \<^bold>\<open>What is shown.\<close> A theorem that is a property of the program stands after a text that numbers
  it.

  \<^item> Connections: the bytes sent arrive in order, none lost or doubled, whatever the interleaving of
    sends and completions, and from one end of a network to the other; the two echo programs print
    what the other said, and go on for ever, from their \<open>main\<close> functions on; at most one write and
    one read are in progress, on memory nothing else changes; buffered bytes always have a write in progress; every failed operation ends the
    connection. And the limits: the send buffers grow with what was ever sent, a full receive buffer
    reads nothing, \<open>Close\<close> after the end sticks.
  \<^item> Loops and threads: a functor runs on the loop's thread, sends from other threads keep their
    order, \<open>Start\<close> returns with a running loop. \<open>EventLoop::Stop\<close> does not stop the loop, so
    \<open>Stop(true)\<close> of a thread or a pool, and \<open>Stop\<close> of a server with a pool, wait for ever unless the
    application stops the service itself.
  \<^item> Server and client: the table of connections is consistent in every reachable state, one accept
    is outstanding until the server is closed, connections go to the loops in turn; a client has one
    activity at a time and a bounded number of attempts.
  \<^item> Packets: what is serialized is read back; one read is taken for one packet, which loses what a
    read holds beyond it; the login from end to end, when reads happen to fit, and the exception when the
    network divides it; the keep-alives, with what becomes of a second timer; what the programs begin with.
  \<^item> Logger: trimming equals its reference; identifiers and keys agree, at most twenty; the stream
    stays inside its buffer, given two characters of room, and shows the text of the values; what is
    queued ends in a line end inside its buffer; the thread appends exactly that text to the file of
    the logger and the day; after \<open>stop\<close> the queue is emptied and every file closed. Under any
    interleaving a message buffer is in one place only, and whoever waits for the mutex gets a chance. And where it
    fails: a configuration with the same sum is ignored, a full file is opened again, a long name
    overflows.

  \<^bold>\<open>Contracts.\<close> \<open>byte_fifo\<close> (interpreted on \<open>ByteBuffer\<close>), \<open>conn_client\<close> (on the callbacks of the
  echo programs, of the packet programs, and the defaults), \<open>loop_client\<close> (on the functors of a connection
  and of a server), \<open>round_robin\<close> (on the two choices of the pool), \<open>owner_relation\<close> with \<open>owned_conn\<close> (on
  equality and order of the count of close callbacks), and \<open>server_app\<close> (on the echo server).

  \<^bold>\<open>Parameters.\<close> asio and cereal are not part of the repository. What asio completes is the choice of
  the step relations: each request once, a write with at most the bytes given, a read with at most
  the room given. cereal is the record \<open>archive\<close> with the laws \<open>archive_ok\<close>, which an archive of
  \<open>Packet_Properties\<close> fulfils. The logger's surroundings are the record \<open>log_env\<close>, with
  \<open>localtime_r\<close> as a function (\<open>env_ok\<close>: its fields are in range), what may be created, and the
  space on the disk; \<open>snprintf\<close> gives the text of its format, cut to the room.

  \<^bold>\<open>Bounds and schedules.\<close> Positions of buffers are 64-bit words that wrap around; the sizes of files
  and limits are 32-bit words. No operation has fuel. Where a call waits for another thread, what
  that thread does meanwhile is a schedule, a list of its events; such a call gives no result as
  long as the schedule has not made its condition true, and the theorems on returning say which
  schedules suffice. Loops over data are total functions: the parser's loop consumes its text, the
  removal of old files removes a file in each round, a pass of the logger's thread takes as many
  messages as were queued.

  \<^bold>\<open>Not modelled.\<close> Project files, and \<open>PacketCommon.cpp\<close>, which only includes its header. The getters
  that hand out references to objects of asio or to the loop of another object, which the model has as
  fields. Of log4z: what the parser prints; the stream operator for \<open>std::queue\<close>, which cannot be
  instantiated; the branches for Windows and macOS; the mutex of the console, in whose section a line is
  printed. The table of loggers has no mutex in the code; its operations are single steps here. The
  unlocked reads of container sizes are races in C++; the model gives them some value the container
  had. Destruction of shared connections by reference counting is modelled where a destructor asserts.
  Memory exhaustion is not modelled. The packet programs on a network are one client and one server;
  what they log goes to a list, not to the logger.
\<close>

end
